(* ===== verification/PyText.thy ===== *)
theory PyText
  imports Prelude "HOL-Library.Char_ord"
begin

text \<open>
  Python's \<open>str\<close>: a list of code points, and the string methods the sources use. A code
  point below 256 is an ASCII or Latin-1 character, \<open>L c\<close>; the code point \<open>256 + n\<close> is
  \<open>U n\<close>. Every code point has exactly one form, so equality and length are Python's.
\<close>

section \<open>Code points\<close>

datatype uchar = L char | U nat

type_synonym ustr = "uchar list"

abbreviation lit :: "string \<Rightarrow> ustr" where
  "lit s \<equiv> map L s"

fun ucode :: "uchar \<Rightarrow> nat" where
  "ucode (L c) = of_char c"
| "ucode (U n) = 256 + n"

definition uchr :: "nat \<Rightarrow> uchar" where
  "uchr n = (if n < 256 then L (char_of n) else U (n - 256))"

lemma uchr_ucode [simp]: "uchr (ucode c) = c"
proof (cases c)
  case (L x)
  then show ?thesis by (simp add: uchr_def)
qed (simp add: uchr_def)

lemma ucode_uchr [simp]: "ucode (uchr n) = n"
  by (simp add: uchr_def)

lemma ucode_inject [simp]: "ucode c = ucode d \<longleftrightarrow> c = d"
  by (metis uchr_ucode)

text \<open>Code points are ordered as numbers, as Python orders strings.\<close>

instantiation uchar :: linorder
begin

definition less_eq_uchar :: "uchar \<Rightarrow> uchar \<Rightarrow> bool" where
  "less_eq_uchar c d = (ucode c \<le> ucode d)"

definition less_uchar :: "uchar \<Rightarrow> uchar \<Rightarrow> bool" where
  "less_uchar c d = (ucode c < ucode d)"

instance
proof
  fix x y z :: uchar
  show "(x < y) = (x \<le> y \<and> \<not> y \<le> x)"
    by (auto simp: less_eq_uchar_def less_uchar_def)
  show "x \<le> x" by (simp add: less_eq_uchar_def)
  show "x \<le> y \<Longrightarrow> y \<le> z \<Longrightarrow> x \<le> z" by (simp add: less_eq_uchar_def)
  show "x \<le> y \<Longrightarrow> y \<le> x \<Longrightarrow> x = y" by (simp add: less_eq_uchar_def)
  show "x \<le> y \<or> y \<le> x" by (auto simp: less_eq_uchar_def)
qed

end

section \<open>Character classes\<close>

text \<open>\<open>str.isspace\<close>, which is also what \<open>str.strip\<close> removes and what \<open>\s\<close> matches.\<close>

definition latin_space :: "char \<Rightarrow> bool" where
  "latin_space c \<longleftrightarrow> c \<in> {CHR 0x20, CHR 0x09, CHR 0x0A, CHR 0x0B, CHR 0x0C, CHR 0x0D,
     CHR 0x1C, CHR 0x1D, CHR 0x1E, CHR 0x1F, CHR 0x85, CHR 0xA0}"

fun py_space :: "uchar \<Rightarrow> bool" where
  "py_space (L c) = latin_space c"
| "py_space (U n) =
     (n + 256 = 5760 \<or> 8192 \<le> n + 256 \<and> n + 256 \<le> 8202 \<or> n + 256 = 8232 \<or>
      n + 256 = 8233 \<or> n + 256 = 8239 \<or> n + 256 = 8287 \<or> n + 256 = 12288)"

abbreviation newline :: uchar where
  "newline \<equiv> L CHR 0x0A"

definition quote :: uchar where
  "quote = L CHR 0x22"

text \<open>ASCII digits, and the value of one.\<close>

definition ascii_digit :: "uchar \<Rightarrow> bool" where
  "ascii_digit c \<longleftrightarrow> 48 \<le> ucode c \<and> ucode c \<le> 57"

definition digit_char :: "nat \<Rightarrow> uchar" where
  "digit_char d = uchr (48 + d)"

definition digit_val :: "uchar \<Rightarrow> nat" where
  "digit_val c = ucode c - 48"

lemma digit_val_char [simp]: "digit_val (digit_char d) = d"
  by (simp add: digit_val_def digit_char_def)

lemma ascii_digit_char [simp]: "ascii_digit (digit_char d) \<longleftrightarrow> d < 10"
  by (auto simp: ascii_digit_def digit_char_def)

section \<open>Stripping\<close>

definition lstrip :: "ustr \<Rightarrow> ustr" where
  "lstrip s = dropWhile py_space s"

definition rstrip :: "ustr \<Rightarrow> ustr" where
  "rstrip s = rev (dropWhile py_space (rev s))"

definition strip :: "ustr \<Rightarrow> ustr" where
  "strip s = rstrip (lstrip s)"

lemma lstrip_Cons [text_simps]:
  "lstrip (c # s) = (if py_space c then lstrip s else c # s)"
  by (simp add: lstrip_def)

lemma lstrip_Nil [simp, text_simps]: "lstrip [] = []"
  by (simp add: lstrip_def)

lemma rstrip_Nil [simp, text_simps]: "rstrip [] = []"
  by (simp add: rstrip_def)

lemma rstrip_snoc [text_simps]:
  "rstrip (s @ [c]) = (if py_space c then rstrip s else s @ [c])"
  by (simp add: rstrip_def)

lemma strip_Nil [simp, text_simps]: "strip [] = []"
  by (simp add: strip_def)

lemma rstrip_eq_Nil: "rstrip s = [] \<longleftrightarrow> (\<forall>c \<in> set s. py_space c)"
  by (auto simp: rstrip_def dropWhile_eq_Nil_conv)

lemma lstrip_eq_Nil: "lstrip s = [] \<longleftrightarrow> (\<forall>c \<in> set s. py_space c)"
  by (auto simp: lstrip_def dropWhile_eq_Nil_conv)

lemma rstrip_Cons [text_simps]:
  "rstrip (c # s) = (if rstrip s = [] \<and> py_space c then [] else c # rstrip s)"
proof -
  have "rstrip (c # s) = rev (dropWhile py_space (rev s @ [c]))"
    by (simp add: rstrip_def)
  also have "\<dots> = (if rstrip s = [] \<and> py_space c then [] else c # rstrip s)"
    by (auto simp: rstrip_def dropWhile_append dropWhile_eq_Nil_conv)
  finally show ?thesis .
qed

lemma strip_eq_Nil: "strip s = [] \<longleftrightarrow> (\<forall>c \<in> set s. py_space c)"
proof -
  have "(\<forall>c \<in> set (lstrip s). py_space c) \<longleftrightarrow> (\<forall>c \<in> set s. py_space c)"
    by (induction s) (auto simp: lstrip_Cons)
  then show ?thesis by (simp add: strip_def rstrip_eq_Nil)
qed

lemma strip_fix:
  assumes "s = [] \<or> \<not> py_space (hd s) \<and> \<not> py_space (last s)"
  shows "strip s = s"
proof (cases s rule: rev_cases)
  case (snoc xs x)
  have "lstrip s = s"
    using assms by (cases s) (simp_all add: lstrip_def)
  with assms snoc show ?thesis by (simp add: strip_def rstrip_snoc)
qed simp

lemma hd_lstrip: "lstrip s \<noteq> [] \<Longrightarrow> \<not> py_space (hd (lstrip s))"
  unfolding lstrip_def by (rule hd_dropWhile)

lemma last_rstrip: "rstrip s \<noteq> [] \<Longrightarrow> \<not> py_space (last (rstrip s))"
  unfolding rstrip_def by (simp add: last_rev hd_dropWhile)

lemma hd_rstrip: "rstrip s \<noteq> [] \<Longrightarrow> hd (rstrip s) = hd s"
  by (cases s) (auto simp: rstrip_Cons)

lemma strip_ends:
  "strip s \<noteq> [] \<Longrightarrow> \<not> py_space (hd (strip s)) \<and> \<not> py_space (last (strip s))"
  unfolding strip_def by (metis hd_lstrip hd_rstrip last_rstrip rstrip_Nil)

lemma strip_strip [simp]: "strip (strip s) = strip s"
  using strip_ends[of s] by (intro strip_fix) blast

lemma lstrip_space_append:
  "\<forall>c \<in> set u. py_space c \<Longrightarrow> lstrip (u @ s) = lstrip s"
  by (simp add: lstrip_def)

lemma rstrip_append_space:
  assumes "\<forall>c \<in> set u. py_space c"
  shows "rstrip (s @ u) = rstrip s"
proof -
  have "dropWhile py_space (rev u @ rev s) = dropWhile py_space (rev s)"
    using assms by (intro dropWhile_append2) simp
  then show ?thesis by (simp add: rstrip_def)
qed

lemma strip_padded:
  assumes "\<forall>c \<in> set u. py_space c" "\<forall>c \<in> set v. py_space c"
  shows "strip (u @ s @ v) = strip s"
proof -
  have "rstrip (lstrip (s @ v)) = rstrip (lstrip s)"
  proof (cases "\<forall>c \<in> set s. py_space c")
    case True
    then have "lstrip (s @ v) = lstrip v" "lstrip s = []"
      by (auto simp: lstrip_space_append lstrip_eq_Nil)
    moreover have "lstrip v = []" using assms by (simp add: lstrip_eq_Nil)
    ultimately show ?thesis by simp
  next
    case False
    then have "lstrip (s @ v) = lstrip s @ v"
      by (auto simp: lstrip_def)
    then show ?thesis by (simp add: rstrip_append_space assms)
  qed
  then show ?thesis by (simp add: strip_def lstrip_space_append assms)
qed

lemma strip_decomp:
  obtains u v where "s = u @ strip s @ v" "\<forall>c \<in> set u. py_space c" "\<forall>c \<in> set v. py_space c"
proof
  let ?u = "takeWhile py_space s" and ?v = "rev (takeWhile py_space (rev (lstrip s)))"
  have "lstrip s = rstrip (lstrip s) @ ?v"
    unfolding rstrip_def by (metis rev_append rev_rev_ident takeWhile_dropWhile_id)
  then show "s = ?u @ strip s @ ?v"
    by (metis lstrip_def strip_def takeWhile_dropWhile_id)
  show "\<forall>c \<in> set ?u. py_space c" by (auto dest: set_takeWhileD)
  show "\<forall>c \<in> set ?v. py_space c" by (auto dest: set_takeWhileD)
qed

lemma set_strip: "set (strip s) \<subseteq> set s"
  by (metis strip_decomp set_append Un_iff subsetI)

lemma length_strip: "length (strip s) \<le> length s"
  by (metis strip_decomp length_append le_add1 le_add2 le_trans)

section \<open>Searching and splitting\<close>

text \<open>\<open>needle in hay\<close> and \<open>hay.find(needle)\<close>.\<close>

fun occurs :: "ustr \<Rightarrow> ustr \<Rightarrow> bool" where
  "occurs n [] = (n = [])"
| "occurs n (c # s) = (prefix n (c # s) \<or> occurs n s)"

lemma occurs_iff: "occurs n s \<longleftrightarrow> (\<exists>u v. s = u @ n @ v)"
proof (induction s)
  case (Cons c s)
  show ?case
  proof
    assume "occurs n (c # s)"
    then show "\<exists>u v. c # s = u @ n @ v"
      using Cons.IH by (auto simp: prefix_def intro: exI[of _ "[]"]) (metis append_Cons)
  next
    assume "\<exists>u v. c # s = u @ n @ v"
    then obtain u v where uv: "c # s = u @ n @ v" by blast
    show "occurs n (c # s)"
    proof (cases u)
      case Nil
      with uv have "prefix n (c # s)" by simp
      then show ?thesis by simp
    next
      case (Cons d u')
      with uv Cons.IH show ?thesis by auto
    qed
  qed
qed auto

lemma occurs_sublist: "occurs n s \<longleftrightarrow> sublist n s"
  by (simp add: occurs_iff sublist_def)

text \<open>\<open>str.split(sep)\<close> at a single character.\<close>

fun split_on :: "uchar \<Rightarrow> ustr \<Rightarrow> ustr list" where
  "split_on sep [] = [[]]"
| "split_on sep (c # s) =
     (if c = sep then [] # split_on sep s
      else (case split_on sep s of w # ws \<Rightarrow> (c # w) # ws | [] \<Rightarrow> [[c]]))"

lemma split_on_nonempty [simp]: "split_on sep s \<noteq> []"
  by (induction s) (auto split: list.splits)

lemma split_on_no_sep: "w \<in> set (split_on sep s) \<Longrightarrow> sep \<notin> set w"
  by (induction s arbitrary: w) (auto split: if_splits list.splits)

text \<open>\<open>sep.join(parts)\<close>.\<close>

fun join :: "ustr \<Rightarrow> ustr list \<Rightarrow> ustr" where
  "join sep [] = []"
| "join sep [x] = x"
| "join sep (x # y # xs) = x @ sep @ join sep (y # xs)"

lemma join_Cons: "xs \<noteq> [] \<Longrightarrow> join sep (x # xs) = x @ sep @ join sep xs"
  by (cases xs) auto

lemma join_split_on: "join [sep] (split_on sep s) = s"
proof (induction s)
  case (Cons c s)
  obtain w ws where ws: "split_on sep s = w # ws"
    by (cases "split_on sep s") auto
  with Cons show ?case by (cases ws) auto
qed simp

text \<open>\<open>str.splitlines\<close>: a line break is one of the characters below, or CR LF together.\<close>

fun line_break :: "uchar \<Rightarrow> bool" where
  "line_break (L c) =
     (c \<in> {CHR 0x0A, CHR 0x0B, CHR 0x0C, CHR 0x0D, CHR 0x1C, CHR 0x1D, CHR 0x1E, CHR 0x85})"
| "line_break (U n) = (n + 256 = 8232 \<or> n + 256 = 8233)"

fun splitlines_from :: "ustr \<Rightarrow> ustr \<Rightarrow> ustr list" where
  "splitlines_from acc [] = (if acc = [] then [] else [rev acc])"
| "splitlines_from acc [c] = (if line_break c then [rev acc] else [rev (c # acc)])"
| "splitlines_from acc (c # d # s) =
     (if c = L CHR 0x0D \<and> d = newline then rev acc # splitlines_from [] s
      else if line_break c then rev acc # splitlines_from [] (d # s)
      else splitlines_from (c # acc) (d # s))"

definition splitlines :: "ustr \<Rightarrow> ustr list" where
  "splitlines s = splitlines_from [] s"

lemma splitlines_from_line:
  assumes "\<forall>c \<in> set v. \<not> line_break c"
  shows "splitlines_from acc (v @ newline # s) = (rev acc @ v) # splitlines_from [] s"
  using assms
proof (induction v arbitrary: acc)
  case Nil
  show ?case by (cases s) auto
next
  case (Cons c v)
  have "c \<noteq> L CHR 0x0D" using Cons.prems by auto
  with Cons show ?case by (cases v) auto
qed

lemma splitlines_from_last:
  assumes "\<forall>c \<in> set v. \<not> line_break c" "acc @ v \<noteq> []"
  shows "splitlines_from acc v = [rev acc @ v]"
  using assms
proof (induction v arbitrary: acc)
  case (Cons c v)
  have "c \<noteq> L CHR 0x0D" using Cons.prems by auto
  with Cons show ?case by (cases v) auto
qed simp

text \<open>The output of a program that prints these lines.\<close>

definition printed :: "ustr list \<Rightarrow> ustr" where
  "printed vs = concat (map (\<lambda>v. v @ [newline]) vs)"

lemma splitlines_printed: "\<forall>l \<in> set ls. \<forall>c \<in> set l. \<not> line_break c \<Longrightarrow> splitlines (printed ls) = ls"
  by (induction ls) (simp_all add: splitlines_def printed_def splitlines_from_line)

section \<open>Numbers as text\<close>

fun nat_text :: "nat \<Rightarrow> ustr" where
  "nat_text n = (if n < 10 then [digit_char n] else nat_text (n div 10) @ [digit_char (n mod 10)])"

declare nat_text.simps [simp del]

definition int_text :: "int \<Rightarrow> ustr" where
  "int_text i = (if i < 0 then lit ''-'' @ nat_text (nat (- i)) else nat_text (nat i))"

definition text_nat :: "ustr \<Rightarrow> nat" where
  "text_nat s = foldl (\<lambda>n c. 10 * n + digit_val c) 0 s"

lemma nat_text_nonempty [simp]: "nat_text n \<noteq> []"
  by (subst nat_text.simps) simp

lemma nat_text_digits: "c \<in> set (nat_text n) \<Longrightarrow> ascii_digit c"
proof (induction n rule: nat_text.induct)
  case (1 n)
  then show ?case
    by (cases "n < 10") (auto simp: nat_text.simps[of n])
qed

lemma text_nat_text [simp]: "text_nat (nat_text n) = n"
proof (induction n rule: nat_text.induct)
  case (1 n)
  show ?case
  proof (cases "n < 10")
    case True
    then show ?thesis by (simp add: nat_text.simps[of n] text_nat_def)
  next
    case False
    with "1.IH" have "text_nat (nat_text (n div 10)) = n div 10" by simp
    with False show ?thesis
      by (simp add: nat_text.simps[of n] text_nat_def)
  qed
qed

lemma nat_text_inject [simp]: "nat_text m = nat_text n \<longleftrightarrow> m = n"
  by (metis text_nat_text)

lemma hd_nat_text_zero: "hd (nat_text n) = digit_char 0 \<longleftrightarrow> n = 0"
proof (induction n rule: nat_text.induct)
  case (1 n)
  show ?case
  proof (cases "n < 10")
    case True
    then show ?thesis
      by (auto simp: nat_text.simps[of n]) (metis digit_val_char)
  next
    case False
    with "1.IH" show ?thesis by (simp add: nat_text.simps[of n])
  qed
qed

text \<open>\<open>f"{n:02d}"\<close> for a natural number.\<close>

definition pad2 :: "nat \<Rightarrow> ustr" where
  "pad2 n = (if n < 10 then lit ''0'' @ nat_text n else nat_text n)"

lemma text_nat_pad2 [simp]: "text_nat (pad2 n) = n"
proof -
  have "text_nat (lit ''0'' @ s) = text_nat s" for s
    by (simp add: text_nat_def digit_val_def)
  then show ?thesis unfolding pad2_def by simp
qed

lemma pad2_inject [simp]: "pad2 m = pad2 n \<longleftrightarrow> m = n"
  by (metis text_nat_pad2)

end
