(* ===== verification/Regex.thy ===== *)
theory Regex
  imports PyText
begin

text \<open>
  The part of Python's \<open>re\<close> module the sources use: a backtracking matcher over the regular
  expressions that occur in them, and \<open>search\<close>, \<open>match\<close>, \<open>finditer\<close>, \<open>findall\<close> and
  \<open>sub\<close> built on it. \<open>mt r st\<close> lists the ways \<open>r\<close> can match at a state, in the order
  in which the backtracking engine tries them, so the engine's result is the head of the list.
\<close>

section \<open>Syntax\<close>

text \<open>
  Every repetition in the sources repeats a single character class, so \<open>Many\<close> (\<open>X*\<close>) and
  \<open>Few\<close> (\<open>X*?\<close>) take a class.
\<close>

datatype rx =
    Eps
  | Ch "uchar \<Rightarrow> bool"
  | Seq rx rx
  | Alt rx rx
  | Many "uchar \<Rightarrow> bool"
  | Few "uchar \<Rightarrow> bool"
  | Grp nat rx
  | Bol
  | Eol

fun rx_seq :: "rx list \<Rightarrow> rx" where
  "rx_seq [] = Eps"
| "rx_seq [r] = r"
| "rx_seq (r # s # rs) = Seq r (rx_seq (s # rs))"

fun rx_lit :: "ustr \<Rightarrow> rx" where
  "rx_lit [] = Eps"
| "rx_lit (c # s) = Seq (Ch (\<lambda>d. d = c)) (rx_lit s)"

definition rx_opt :: "rx \<Rightarrow> rx" where
  "rx_opt r = Alt r Eps"

definition rx_many1 :: "(uchar \<Rightarrow> bool) \<Rightarrow> rx" where
  "rx_many1 p = Seq (Ch p) (Many p)"

definition rx_few1 :: "(uchar \<Rightarrow> bool) \<Rightarrow> rx" where
  "rx_few1 p = Seq (Ch p) (Few p)"

definition any_char :: "uchar \<Rightarrow> bool" where
  "any_char c = True"

lemma any_char: "any_char c"
  by (simp add: any_char_def)

text \<open>
  A lower-case ASCII letter \<open>x\<close> of a pattern under \<open>re.IGNORECASE\<close> matches \<open>x\<close>, its upper
  case and the code points the engine folds to it: U+017F for \<open>s\<close>, U+212A for \<open>k\<close>, U+0130
  and U+0131 for \<open>i\<close>.
\<close>

definition folds_to :: "char \<Rightarrow> uchar \<Rightarrow> bool" where
  "folds_to x d \<longleftrightarrow>
     d = L x \<or> (97 \<le> (of_char x :: nat) \<and> (of_char x :: nat) \<le> 122 \<and> ucode d + 32 = of_char x) \<or>
     x = CHR ''s'' \<and> d = uchr 383 \<or> x = CHR ''k'' \<and> d = uchr 8490 \<or>
     x = CHR ''i'' \<and> (d = uchr 304 \<or> d = uchr 305)"

lemma folds_self [simp]: "folds_to c (L c)"
  by (simp add: folds_to_def)

fun rx_ilit :: "string \<Rightarrow> rx" where
  "rx_ilit [] = Eps"
| "rx_ilit (c # s) = Seq (Ch (folds_to c)) (rx_ilit s)"

section \<open>The matcher\<close>

text \<open>A state: the position, the text from it on, and the captures, the latest first.\<close>

type_synonym caps = "(nat \<times> ustr) list"
type_synonym mstate = "nat \<times> ustr \<times> caps"

fun runs :: "(uchar \<Rightarrow> bool) \<Rightarrow> nat \<Rightarrow> ustr \<Rightarrow> caps \<Rightarrow> mstate list" where
  "runs p i [] g = [(i, [], g)]"
| "runs p i (c # s) g = (if p c then runs p (Suc i) s g @ [(i, c # s, g)] else [(i, c # s, g)])"

fun mt :: "rx \<Rightarrow> mstate \<Rightarrow> mstate list" where
  "mt Eps st = [st]"
| "mt (Ch p) (i, s, g) = (case s of [] \<Rightarrow> [] | c # s' \<Rightarrow> if p c then [(Suc i, s', g)] else [])"
| "mt (Seq a b) st = concat (map (mt b) (mt a st))"
| "mt (Alt a b) st = mt a st @ mt b st"
| "mt (Many p) (i, s, g) = runs p i s g"
| "mt (Few p) (i, s, g) = rev (runs p i s g)"
| "mt (Grp k a) (i, s, g) = map (\<lambda>(j, t, h). (j, t, (k, take (j - i) s) # h)) (mt a (i, s, g))"
| "mt Bol (i, s, g) = (if i = 0 then [(i, s, g)] else [])"
| "mt Eol (i, s, g) = (if s = [] \<or> s = [newline] then [(i, s, g)] else [])"

text \<open>A match: where it starts, where it ends and its captures.\<close>

type_synonym rmatch = "nat \<times> nat \<times> caps"

text \<open>
  \<open>rx_search r adv i s\<close>: the first match at or after position \<open>i\<close>, where \<open>s\<close> is the text from
  \<open>i\<close> on. With \<open>adv\<close> an empty match at \<open>i\<close> itself is not accepted, which is what the engine
  asks for after an empty match.
\<close>

fun rx_search :: "rx \<Rightarrow> bool \<Rightarrow> nat \<Rightarrow> ustr \<Rightarrow> (nat \<times> mstate) option" where
  "rx_search r adv i [] =
     (case filter (\<lambda>(j, _). \<not> (adv \<and> j = i)) (mt r (i, [], [])) of
        m # _ \<Rightarrow> Some (i, m)
      | [] \<Rightarrow> None)"
| "rx_search r adv i (c # s) =
     (case filter (\<lambda>(j, _). \<not> (adv \<and> j = i)) (mt r (i, c # s, [])) of
        m # _ \<Rightarrow> Some (i, m)
      | [] \<Rightarrow> rx_search r False (Suc i) s)"

section \<open>What a match consumes\<close>

text \<open>\<open>reads st st'\<close>: the matcher went from \<open>st\<close> to \<open>st'\<close> by reading a prefix of the text.\<close>

definition reads :: "mstate \<Rightarrow> mstate \<Rightarrow> bool" where
  "reads st st' \<longleftrightarrow> (case (st, st') of ((i, s, _), (j, t, _)) \<Rightarrow> \<exists>u. s = u @ t \<and> j = i + length u)"

lemma reads_refl [simp]: "reads (i, s, g) (i, s, h)"
  by (simp add: reads_def)

lemma reads_trans: "reads a b \<Longrightarrow> reads b c \<Longrightarrow> reads a c"
  by (force simp: reads_def split: prod.splits)

lemma reads_cons: "reads (Suc i, s, g) (j, t, h) \<Longrightarrow> reads (i, c # s, g') (j, t, h)"
  by (force simp: reads_def intro: exI[of _ "c # _"])

lemma readsD: "reads (i, s, g) (j, t, h) \<Longrightarrow> i \<le> j \<and> t = drop (j - i) s \<and> j - i \<le> length s"
  by (auto simp: reads_def)

lemma reads_caps [simp]: "reads (i, s, g) (j, t, h') = reads (i, s, g') (j, t, h)"
  by (simp add: reads_def)

lemma runs_reads: "st \<in> set (runs p i s g) \<Longrightarrow> reads (i, s, g) st"
proof (induction s arbitrary: i)
  case (Cons c s)
  then show ?case
    by (cases st) (auto split: if_splits intro: reads_cons)
qed simp

lemma mt_reads: "st' \<in> set (mt r st) \<Longrightarrow> reads st st'"
proof (induction r st arbitrary: st' rule: mt.induct)
  case (2 p i s g)
  then show ?case
    by (auto split: list.splits if_splits intro: reads_cons)
next
  case (3 a b st)
  then obtain m where "m \<in> set (mt a st)" and "st' \<in> set (mt b m)" by auto
  then show ?case using "3.IH" by (blast intro: reads_trans)
next
  case (5 p i s g)
  then show ?case by (simp add: runs_reads)
next
  case (6 p i s g)
  then show ?case by (simp add: runs_reads)
next
  case (7 k a i s g)
  then show ?case by (fastforce simp: reads_def)
qed (auto split: if_splits simp: reads_def)

lemma rx_search_reads:
  "rx_search r adv i s = Some (b, e, t, g) \<Longrightarrow>
   i \<le> b \<and> b \<le> e \<and> e - i \<le> length s \<and> t = drop (e - i) s \<and> (e, t, g) \<in> set (mt r (b, drop (b - i) s, [])) \<and>
   (adv \<longrightarrow> i < e)"
proof (induction r adv i s rule: rx_search.induct)
  case (1 r adv i)
  then obtain ms where m: "filter (\<lambda>(j, _). \<not> (adv \<and> j = i)) (mt r (i, [], [])) = (e, t, g) # ms"
    and "b = i" by (auto split: list.splits)
  then have mem: "(e, t, g) \<in> set (mt r (i, [], []))" and "\<not> (adv \<and> e = i)"
    by (auto dest!: filter_eq_ConsD)
  then show ?case
    using mt_reads[OF mem] \<open>b = i\<close> by (auto dest!: readsD)
next
  case (2 r adv i c s)
  show ?case
  proof (cases "filter (\<lambda>(j, _). \<not> (adv \<and> j = i)) (mt r (i, c # s, []))")
    case Nil
    with "2.prems" have "rx_search r False (Suc i) s = Some (b, e, t, g)" by simp
    from "2.IH"[OF Nil this] show ?thesis
      by (auto simp: Suc_diff_le Suc_le_eq drop_Cons' intro: Suc_leI) 
  next
    case (Cons m ms)
    with "2.prems" have m: "filter (\<lambda>(j, _). \<not> (adv \<and> j = i)) (mt r (i, c # s, [])) = (e, t, g) # ms"
      and "b = i" by auto
    then have mem: "(e, t, g) \<in> set (mt r (i, c # s, []))" and "\<not> (adv \<and> e = i)"
      by (auto dest!: filter_eq_ConsD)
    then show ?thesis
      using mt_reads[OF mem] \<open>b = i\<close> by (auto dest!: readsD)
  qed
qed

section \<open>What the matcher accepts\<close>

text \<open>
  The declarative reading of a regular expression: \<open>rx_match r st st'\<close> says that \<open>r\<close> can
  take \<open>st\<close> to \<open>st'\<close>, with no order among the ways.
\<close>

inductive rx_match :: "rx \<Rightarrow> mstate \<Rightarrow> mstate \<Rightarrow> bool" where
  m_eps: "rx_match Eps st st"
| m_ch: "p c \<Longrightarrow> rx_match (Ch p) (i, c # s, g) (Suc i, s, g)"
| m_seq: "rx_match a st st1 \<Longrightarrow> rx_match b st1 st2 \<Longrightarrow> rx_match (Seq a b) st st2"
| m_alt1: "rx_match a st st' \<Longrightarrow> rx_match (Alt a b) st st'"
| m_alt2: "rx_match b st st' \<Longrightarrow> rx_match (Alt a b) st st'"
| m_many: "\<forall>c \<in> set u. p c \<Longrightarrow> rx_match (Many p) (i, u @ s, g) (i + length u, s, g)"
| m_few: "\<forall>c \<in> set u. p c \<Longrightarrow> rx_match (Few p) (i, u @ s, g) (i + length u, s, g)"
| m_grp: "rx_match a (i, s, g) (j, t, h) \<Longrightarrow>
     rx_match (Grp k a) (i, s, g) (j, t, (k, take (j - i) s) # h)"
| m_bol: "rx_match Bol (0, s, g) (0, s, g)"
| m_eol: "s = [] \<or> s = [newline] \<Longrightarrow> rx_match Eol (i, s, g) (i, s, g)"

inductive_cases rx_match_cases:
  "rx_match Eps st st'" "rx_match (Ch p) st st'" "rx_match (Seq a b) st st'"
  "rx_match (Alt a b) st st'" "rx_match (Many p) st st'" "rx_match (Few p) st st'"
  "rx_match (Grp k a) st st'" "rx_match Bol st st'" "rx_match Eol st st'"

lemma set_runs:
  "st \<in> set (runs p i s g) \<longleftrightarrow>
   (\<exists>u t. s = u @ t \<and> (\<forall>c \<in> set u. p c) \<and> st = (i + length u, t, g))"
proof (induction s arbitrary: i)
  case (Cons c s)
  show ?case
  proof
    assume "st \<in> set (runs p i (c # s) g)"
    then consider "st = (i, c # s, g)" | "p c" "st \<in> set (runs p (Suc i) s g)"
      by (auto split: if_splits)
    then show "\<exists>u t. c # s = u @ t \<and> (\<forall>c \<in> set u. p c) \<and> st = (i + length u, t, g)"
    proof cases
      case 1
      then show ?thesis by (rule_tac x = "[]" in exI) simp
    next
      case 2
      then obtain u t where "s = u @ t" "\<forall>c \<in> set u. p c" "st = (Suc i + length u, t, g)"
        using Cons.IH by blast
      with 2 show ?thesis by (rule_tac x = "c # u" in exI) simp
    qed
  next
    assume "\<exists>u t. c # s = u @ t \<and> (\<forall>c \<in> set u. p c) \<and> st = (i + length u, t, g)"
    then obtain u t where u: "c # s = u @ t" "\<forall>c \<in> set u. p c" "st = (i + length u, t, g)"
      by blast
    show "st \<in> set (runs p i (c # s) g)"
    proof (cases u)
      case (Cons d u')
      with u have "st \<in> set (runs p (Suc i) s g)" using Cons.IH by auto
      with u Cons show ?thesis by simp
    next
      case Nil
      with u have "st = (i, c # s, g)" by simp
      then show ?thesis by simp
    qed
  qed
qed auto

theorem mt_iff_match: "st' \<in> set (mt r st) \<longleftrightarrow> rx_match r st st'"
proof (induction r arbitrary: st st')
  case (Ch p)
  show ?case
    by (cases st) (auto elim!: rx_match_cases intro: m_ch split: list.splits if_splits)
next
  case (Seq a b)
  have "st' \<in> set (mt (Seq a b) st) \<longleftrightarrow> (\<exists>m. rx_match a st m \<and> rx_match b m st')"
    by (simp add: Seq.IH Bex_def del: split_paired_Ex)
  then show ?case by (blast elim: rx_match_cases intro: m_seq)
next
  case (Alt a b)
  then show ?case by (auto elim!: rx_match_cases intro: m_alt1 m_alt2)
next
  case (Many p)
  show ?case
    by (cases st) (auto simp: set_runs elim!: rx_match_cases intro: m_many)
next
  case (Few p)
  show ?case
    by (cases st) (auto simp: set_runs elim!: rx_match_cases intro: m_few)
next
  case (Grp k a)
  then show ?case
    by (cases st) (force elim!: rx_match_cases intro: m_grp)
next
  case Eps
  show ?case by (auto elim!: rx_match_cases intro: m_eps)
next
  case Bol
  show ?case by (cases st) (auto elim!: rx_match_cases intro: m_bol)
next
  case Eol
  show ?case by (cases st) (auto elim!: rx_match_cases intro: m_eol)
qed

section \<open>Iterating over the matches\<close>

function rx_iter :: "rx \<Rightarrow> bool \<Rightarrow> nat \<Rightarrow> ustr \<Rightarrow> rmatch list" where
  "rx_iter r adv i s =
     (case rx_search r adv i s of
        None \<Rightarrow> []
      | Some (b, e, t, g) \<Rightarrow> (b, e, g) # rx_iter r (b = e) e t)"
  by pat_completeness auto
termination
proof (relation "measure (\<lambda>(r, adv, i, s). 2 * length s + (if adv then 0 else 1))", goal_cases)
  case (2 r adv i s m b x e y t g)
  then have "rx_search r adv i s = Some (b, e, t, g)" by simp
  from rx_search_reads[OF this] show ?case by auto
qed simp

declare rx_iter.simps [simp del]

definition finditer :: "rx \<Rightarrow> ustr \<Rightarrow> rmatch list" where
  "finditer r s = rx_iter r False 0 s"

definition re_search :: "rx \<Rightarrow> ustr \<Rightarrow> rmatch option" where
  "re_search r s = map_option (\<lambda>(b, e, t, g). (b, e, g)) (rx_search r False 0 s)"

definition re_match :: "rx \<Rightarrow> ustr \<Rightarrow> rmatch option" where
  "re_match r s = (case mt r (0, s, []) of (e, t, g) # _ \<Rightarrow> Some (0, e, g) | [] \<Rightarrow> None)"

text \<open>\<open>m.group(k)\<close>, for a group that took part in the match.\<close>

definition group :: "nat \<Rightarrow> rmatch \<Rightarrow> ustr" where
  "group k m = (case map_of (snd (snd m)) k of Some s \<Rightarrow> s | None \<Rightarrow> [])"

text \<open>\<open>re.findall\<close> for a pattern with one group.\<close>

definition findall :: "rx \<Rightarrow> ustr \<Rightarrow> ustr list" where
  "findall r s = map (group 1) (finditer r s)"

text \<open>\<open>re.sub\<close> with a replacement that has no back-references.\<close>

fun splice :: "ustr \<Rightarrow> nat \<Rightarrow> ustr \<Rightarrow> rmatch list \<Rightarrow> ustr" where
  "splice w i s [] = s"
| "splice w i s ((b, e, _) # ms) = take (b - i) s @ w @ splice w e (drop (e - i) s) ms"

definition re_sub :: "rx \<Rightarrow> ustr \<Rightarrow> ustr \<Rightarrow> ustr" where
  "re_sub r w s = splice w 0 s (finditer r s)"

section \<open>Patterns that never match the empty text\<close>

text \<open>
  The interface between the engine and its clients. A client that iterates over the matches of
  a pattern relies on one law of it, that a match reads at least one character; what follows
  is that the matches are in order, disjoint and inside the text, and that \<open>re.sub\<close> with the
  empty replacement removes exactly them.
\<close>

fun spans_ok :: "nat \<Rightarrow> nat \<Rightarrow> (nat \<times> nat) list \<Rightarrow> bool" where
  "spans_ok lo hi [] = (lo \<le> hi)"
| "spans_ok lo hi ((b, e) # ss) = (lo \<le> b \<and> b < e \<and> spans_ok e hi ss)"

lemma spans_ok_mono: "spans_ok lo hi ss \<Longrightarrow> lo' \<le> lo \<Longrightarrow> spans_ok lo' hi ss"
  by (cases ss) auto

lemma spans_ok_le: "spans_ok lo hi ss \<Longrightarrow> lo \<le> hi"
  by (induction lo hi ss rule: spans_ok.induct) auto

lemma spans_ok_mem:
  "spans_ok lo hi ss \<Longrightarrow> (b, e) \<in> set ss \<Longrightarrow> lo \<le> b \<and> b < e \<and> e \<le> hi"
  by (induction lo hi ss rule: spans_ok.induct) (auto dest: spans_ok_le)

definition match_span :: "rmatch \<Rightarrow> nat \<times> nat" where
  "match_span m = (fst m, fst (snd m))"

locale nonempty_pattern =
  fixes pat :: rx
  assumes reads_some: "(j, t, h) \<in> set (mt pat (i, s, [])) \<Longrightarrow> i < j"
begin

lemma search_reads:
  assumes "rx_search pat adv i s = Some (b, e, t, g)"
  shows "i \<le> b" "b < e" "e \<le> i + length s" "t = drop (e - i) s"
    "(e, t, g) \<in> set (mt pat (b, drop (b - i) s, []))"
  using rx_search_reads[OF assms] reads_some by auto

lemma iter_spans: "spans_ok i (i + length s) (map match_span (rx_iter pat adv i s))"
proof (induction "length s" arbitrary: adv i s rule: less_induct)
  case less
  show ?case
  proof (cases "rx_search pat adv i s")
    case None
    then show ?thesis by (simp add: rx_iter.simps[of pat adv i s])
  next
    case (Some m)
    obtain b e t g where m: "m = (b, e, t, g)" by (cases m) auto
    note r = search_reads[OF Some[unfolded m]]
    then have "length t < length s" and "e + length t = i + length s" by auto
    with less[of t e "b = e"] r Some m show ?thesis
      by (simp add: rx_iter.simps[of pat adv i s] match_span_def add.commute)
  qed
qed

lemma finditer_spans: "spans_ok 0 (length s) (map match_span (finditer pat s))"
  using iter_spans[of 0 s False] by (simp add: finditer_def)

lemma finditer_mem:
  assumes "(b, e, g) \<in> set (finditer pat s)"
  shows "b < e \<and> e \<le> length s"
proof -
  have "(b, e) \<in> set (map match_span (finditer pat s))"
    using assms by (force simp: match_span_def)
  from spans_ok_mem[OF finditer_spans this] show ?thesis by simp
qed

lemma length_splice:
  "spans_ok i (i + length s) (map match_span ms) \<Longrightarrow>
   length (splice [] i s ms) + (\<Sum>(b, e, _) \<leftarrow> ms. e - b) = length s"
proof (induction ms arbitrary: i s)
  case (Cons m ms)
  obtain b e g where m: "m = (b, e, g)" by (cases m) auto
  have sp: "i \<le> b" "b < e" "spans_ok e (i + length s) (map match_span ms)"
    using Cons.prems unfolding m by (simp_all add: match_span_def[of "(b, e, g)"])
  then have "e \<le> i + length s" by (auto dest: spans_ok_le)
  with sp have "spans_ok e (e + length (drop (e - i) s)) (map match_span ms)"
    by (simp add: add.commute)
  from Cons.IH[OF this] show ?case
    using sp \<open>e \<le> i + length s\<close> by (simp add: m)
qed simp

lemma length_sub: "length (re_sub pat [] s) + (\<Sum>(b, e, _) \<leftarrow> finditer pat s. e - b) = length s"
  unfolding re_sub_def using finditer_spans by (intro length_splice) simp

lemma length_sub_le: "length (re_sub pat [] s) \<le> length s"
  using length_sub[of s] by linarith

lemma sub_id_iff: "re_sub pat [] s = s \<longleftrightarrow> finditer pat s = []"
proof
  assume "re_sub pat [] s = s"
  then have z: "(\<Sum>(b, e, _) \<leftarrow> finditer pat s. e - b) = 0"
    using length_sub[of s] by simp
  show "finditer pat s = []"
  proof (cases "finditer pat s")
    case (Cons m ms)
    obtain b e g where m: "m = (b, e, g)" by (cases m) auto
    with Cons have "b < e" using finditer_mem[of b e g s] by simp
    with z Cons m show ?thesis by simp
  qed simp
qed (simp add: re_sub_def)

end

section \<open>Literals and runs\<close>

lemma mt_lit: "mt (rx_lit w) (i, s, g) =
    (if prefix w s then [(i + length w, drop (length w) s, g)] else [])"
proof (induction w arbitrary: i s)
  case (Cons c w)
  show ?case
    by (cases s) (auto simp: Cons.IH)
qed simp

lemma mt_lit_append [simp]: "mt (rx_lit w) (i, w @ s, g) = [(i + length w, s, g)]"
  by (simp add: mt_lit)

lemma runs_append:
  assumes "\<forall>c \<in> set u. p c" "s = [] \<or> \<not> p (hd s)"
  shows "\<exists>ms. runs p i (u @ s) g = (i + length u, s, g) # ms"
  using assms
proof (induction u arbitrary: i)
  case Nil
  then show ?case by (cases s) auto
next
  case (Cons c u)
  have "\<exists>ms. runs p (Suc i) (u @ s) g = (Suc i + length u, s, g) # ms"
    using Cons.prems by (intro Cons.IH) auto
  then obtain ms where "runs p (Suc i) (u @ s) g = (Suc i + length u, s, g) # ms" by blast
  with Cons.prems show ?case by simp
qed

lemma runs_all:
  assumes "\<And>c. p c"
  shows "runs p i s g = map (\<lambda>k. (i + k, drop k s, g)) (rev [0..<Suc (length s)])"
proof (induction s arbitrary: i)
  case (Cons c s)
  have "[0..<Suc (Suc (length s))] = 0 # map Suc [0..<Suc (length s)]"
    by (simp only: map_Suc_upt) (rule upt_conv_Cons, simp)
  moreover have "p c" by (rule assms)
  ultimately show ?case
    by (simp add: Cons.IH rev_map comp_def del: upt_Suc)
qed simp

lemmas runs_any = runs_all[of any_char, OF any_char]

lemma concat_map_skip:
  "(\<And>x. x \<in> set xs \<Longrightarrow> f x = []) \<Longrightarrow> concat (map f (xs @ y # ys)) = f y @ concat (map f ys)"
  by (induction xs) auto

section \<open>Searching past text that does not match\<close>

lemma search_after_gap:
  assumes "\<And>u v. gap = u @ v \<Longrightarrow> v \<noteq> [] \<Longrightarrow> mt r (i + length u, v @ s, []) = []"
    and "mt r (i + length gap, s, []) = (e, t, h) # ms"
  shows "rx_search r False i (gap @ s) = Some (i + length gap, e, t, h)"
  using assms
proof (induction gap arbitrary: i)
  case Nil
  then show ?case by (cases s) simp_all
next
  case (Cons c gap)
  have "mt r (i, c # gap @ s, []) = []" using Cons.prems(1)[of "[]" "c # gap"] by simp
  moreover have "mt r (Suc i + length u, v @ s, []) = []" if "gap = u @ v" "v \<noteq> []" for u v
    using Cons.prems(1)[of "c # u" v] that by simp
  ultimately show ?case using Cons.IH[of "Suc i"] Cons.prems(2) by simp
qed

lemma search_none:
  assumes "\<And>u v. s = u @ v \<Longrightarrow> mt r (i + length u, v, []) = []"
  shows "rx_search r adv i s = None"
  using assms
proof (induction s arbitrary: i adv)
  case Nil
  then show ?case using Nil[of "[]" "[]"] by simp
next
  case (Cons c s)
  have "mt r (i, c # s, []) = []" using Cons.prems[of "[]" "c # s"] by simp
  moreover have "mt r (Suc i + length u, v, []) = []" if "s = u @ v" for u v
    using Cons.prems[of "c # u" v] that by simp
  ultimately show ?case using Cons.IH[of "Suc i" False] by simp
qed

text \<open>The shortest run up to a closing text.\<close>

lemma mt_up_to:
  assumes "cl \<noteq> []" "\<not> occurs cl (body @ butlast cl)"
  shows "\<exists>ms. mt (Seq (Grp k (Few any_char)) (rx_lit cl)) (i, body @ cl @ rest, g) =
    (i + length body + length cl, rest, (k, body) # g) # ms"
proof -
  let ?T = "body @ cl @ rest" and ?F = "\<lambda>j. (i + j, drop j (body @ cl @ rest), (k, take j (body @ cl @ rest)) # g)"
  have grp: "mt (Grp k (Few any_char)) (i, ?T, g) =
      map ?F ([0..<length body] @ length body # [Suc (length body)..<Suc (length ?T)])"
  proof -
    have "mt (Grp k (Few any_char)) (i, ?T, g) = map ?F [0..<Suc (length ?T)]"
      by (simp add: runs_any comp_def rev_map[symmetric] case_prod_unfold del: upt_Suc)
    also have "[0..<Suc (length ?T)] = [0..<length body] @ length body # [Suc (length body)..<Suc (length ?T)]"
      using upt_add_eq_append[of 0 "length body" "Suc (length ?T) - length body"]
        upt_conv_Cons[of "length body" "Suc (length ?T)"] by (simp del: upt_Suc)
    finally show ?thesis .
  qed
  have skip: "mt (rx_lit cl) (?F j) = []" if "j \<in> set [0..<length body]" for j
  proof -
    have j: "j < length body" using that by simp
    have "\<not> prefix cl (drop j ?T)"
    proof
      assume "prefix cl (drop j ?T)"
      then obtain z where z: "drop j body @ cl @ rest = cl @ z" using j by (auto simp: prefix_def)
      have "drop j body @ butlast cl = cl @ drop (length cl) (drop j body @ butlast cl)"
      proof -
        have "take (length cl) (drop j body @ cl @ rest) = cl" by (simp add: z)
        moreover have "cl = butlast cl @ [last cl]" using assms(1) by simp
        moreover have "length cl \<le> length (drop j body @ butlast cl)" using j by simp
        ultimately have "take (length cl) (drop j body @ butlast cl) = cl"
          by (metis (no_types, lifting) append_assoc take_append diff_is_0_eq take_0 append_Nil2)
        then show ?thesis by (metis append_take_drop_id)
      qed
      then have "body @ butlast cl = take j body @ cl @ drop (length cl) (drop j body @ butlast cl)"
        by (metis append_assoc append_take_drop_id)
      with assms(2) show False by (metis occurs_iff)
    qed
    then show ?thesis by (simp add: mt_lit)
  qed
  have "mt (Seq (Grp k (Few any_char)) (rx_lit cl)) (i, ?T, g) =
      concat (map (\<lambda>j. mt (rx_lit cl) (?F j)) ([0..<length body] @ length body # [Suc (length body)..<Suc (length ?T)]))"
    by (simp only: mt.simps(3) grp map_map comp_def)
  also have "\<dots> = mt (rx_lit cl) (?F (length body)) @
      concat (map (\<lambda>j. mt (rx_lit cl) (?F j)) [Suc (length body)..<Suc (length ?T)])"
    by (rule concat_map_skip) (erule skip)
  finally show ?thesis by (simp del: upt_Suc)
qed

section \<open>What the engine tries first\<close>

definition first :: "rx \<Rightarrow> mstate \<Rightarrow> mstate \<Rightarrow> bool" where
  "first r st st' \<longleftrightarrow> (\<exists>ms. mt r st = st' # ms)"

lemma first_seq: "first a st st1 \<Longrightarrow> first b st1 st2 \<Longrightarrow> first (Seq a b) st st2"
  by (auto simp: first_def)

lemma first_lit: "first (rx_lit w) (i, w @ s, g) (i + length w, s, g)"
  by (simp add: first_def)

lemma first_ch: "p c \<Longrightarrow> first (Ch p) (i, c # s, g) (Suc i, s, g)"
  by (simp add: first_def)

lemma first_many: "\<forall>c \<in> set u. p c \<Longrightarrow> s = [] \<or> \<not> p (hd s) \<Longrightarrow> first (Many p) (i, u @ s, g) (i + length u, s, g)"
  using runs_append[of u p s i g] by (auto simp: first_def)

lemma first_many1:
  "u \<noteq> [] \<Longrightarrow> \<forall>c \<in> set u. p c \<Longrightarrow> s = [] \<or> \<not> p (hd s) \<Longrightarrow> first (rx_many1 p) (i, u @ s, g) (i + length u, s, g)"
  using first_seq[OF first_ch[of p "hd u" i "tl u @ s" g] first_many[of "tl u" p s "Suc i" g]]
  by (cases u) (auto simp: rx_many1_def)

lemma first_grp: "first a (i, s, g) (j, t, h) \<Longrightarrow> first (Grp k a) (i, s, g) (j, t, (k, take (j - i) s) # h)"
  by (auto simp: first_def)

text \<open>\<open>takes r u s h\<close>: on the text \<open>u @ s\<close> the engine first tries to read just \<open>u\<close>, capturing \<open>h\<close>.\<close>

definition takes :: "rx \<Rightarrow> ustr \<Rightarrow> ustr \<Rightarrow> caps \<Rightarrow> bool" where
  "takes r u s h \<longleftrightarrow> (\<forall>i g. first r (i, u @ s, g) (i + length u, s, h @ g))"

lemma takes_ch: "p c \<Longrightarrow> takes (Ch p) [c] s []"
  by (simp add: takes_def first_def)

lemma takes_seq: "takes a u (v @ s) h \<Longrightarrow> takes b v s h' \<Longrightarrow> takes (Seq a b) (u @ v) s (h' @ h)"
  unfolding takes_def by (auto intro!: first_seq simp: add.assoc[symmetric])

lemma takes_first: "takes r u s h \<Longrightarrow> \<exists>ms. mt r (i, u @ s, g) = (i + length u, s, h @ g) # ms"
  by (simp add: takes_def first_def)

lemma takesI: "(\<And>i g. \<exists>ms. mt r (i, u @ s, g) = (i + length u, s, h @ g) # ms) \<Longrightarrow> takes r u s h"
  by (simp add: takes_def first_def)

lemma takes_seq_plain: "takes a u (v @ s) [] \<Longrightarrow> takes b v s h \<Longrightarrow> takes (Seq a b) (u @ v) s h"
  using takes_seq[of a u v s "[]" b h] by simp

lemma takes_grp: "takes a u s h \<Longrightarrow> takes (Grp k a) u s ((k, u) # h)"
proof (rule takesI)
  fix i g assume "takes a u s h"
  from takes_first[OF this, of i g]
  show "\<exists>ms. mt (Grp k a) (i, u @ s, g) = (i + length u, s, ((k, u) # h) @ g) # ms" by auto
qed

lemma takes_alt_left: "takes a u s h \<Longrightarrow> takes (Alt a b) u s h"
proof (rule takesI)
  fix i g assume "takes a u s h"
  from takes_first[OF this, of i g] show "\<exists>ms. mt (Alt a b) (i, u @ s, g) = (i + length u, s, h @ g) # ms" by auto
qed

lemma takes_opt: "takes r u s h \<Longrightarrow> takes (rx_opt r) u s h"
  unfolding rx_opt_def by (rule takes_alt_left)

lemma takes_many: "\<forall>c \<in> set u. p c \<Longrightarrow> s = [] \<or> \<not> p (hd s) \<Longrightarrow> takes (Many p) u s []"
  by (simp add: takes_def first_many)

lemma takes_many1: "u \<noteq> [] \<Longrightarrow> \<forall>c \<in> set u. p c \<Longrightarrow> s = [] \<or> \<not> p (hd s) \<Longrightarrow> takes (rx_many1 p) u s []"
  by (simp add: takes_def first_many1)

lemma takes_ilit: "takes (rx_ilit v) (lit v) s []"
proof (induction v)
  case (Cons c v)
  from takes_seq_plain[OF takes_ch[of "folds_to c" "L c"] Cons] show ?case by simp
qed (simp add: takes_def first_def)

lemma takes_alt_right: "(\<And>i g. mt a (i, u @ s, g) = []) \<Longrightarrow> takes b u s h \<Longrightarrow> takes (Alt a b) u s h"
  by (simp add: takes_def first_def)

text \<open>A pattern that has to read a character of a kind matches nothing in a text without one.\<close>

fun needs :: "(uchar \<Rightarrow> bool) \<Rightarrow> rx \<Rightarrow> bool" where
  "needs p (Ch q) = (\<forall>c. q c \<longrightarrow> p c)"
| "needs p (Seq a b) = (needs p a \<or> needs p b)"
| "needs p (Alt a b) = (needs p a \<and> needs p b)"
| "needs p (Grp k a) = needs p a"
| "needs p _ = False"

lemma reads_subset: "st' \<in> set (mt r (i, s, g)) \<Longrightarrow> set (fst (snd st')) \<subseteq> set s"
  using mt_reads[of st' r "(i, s, g)"] by (cases st') (auto simp: reads_def)

lemma mt_needs: "needs p r \<Longrightarrow> \<forall>c \<in> set s. \<not> p c \<Longrightarrow> mt r (i, s, g) = []"
proof (induction r arbitrary: i s g)
  case (Ch q)
  then show ?case by (cases s) auto
next
  case (Seq a b)
  show ?case
  proof (cases "needs p a")
    case True
    with Seq show ?thesis by simp
  next
    case False
    with Seq.prems have "needs p b" by simp
    moreover have "\<forall>c \<in> set t. \<not> p c" if "(j, t, h) \<in> set (mt a (i, s, g))" for j t h
      using reads_subset[OF that] Seq.prems(2) by auto
    ultimately show ?thesis using Seq.IH(2) by auto
  qed
qed auto

lemma needs_ilit: "x \<in> set w \<Longrightarrow> needs (folds_to x) (rx_ilit w)"
  by (induction w) auto

end
