(* ===== verification/PyVal.thy ===== *)
theory PyVal
  imports PyText "HOL-Library.List_Lexorder"
begin

text \<open>
  The Python values that pass through the programs: what \<open>json.loads\<close> and
  \<open>ast.literal_eval\<close> return, and objects with attributes (the chat-completion models of the
  proxy). A dictionary is the list of its items in insertion order, its keys distinct.
\<close>

section \<open>Values\<close>

text \<open>A float is known by its \<open>repr\<close>.\<close>

datatype pyval =
    PNone
  | PBool bool
  | PInt int
  | PFloat ustr
  | PStr ustr
  | PBytes ustr
  | PList "pyval list"
  | PTuple "pyval list"
  | PSet "pyval list"
  | PDict "(pyval \<times> pyval) list"
  | PObj "(ustr \<times> pyval) list"

text \<open>
  What the interpreter supplies and no file of the repository defines: the conversion of a
  number's text to the \<open>repr\<close> of the nearest double, \<open>ast.literal_eval\<close> (\<open>None\<close> when it
  raises) and \<open>str()\<close> of a value that is not serialisable.
\<close>

record pyenv =
  env_float :: "ustr \<Rightarrow> ustr"
  env_literal_eval :: "ustr \<Rightarrow> pyval option"
  env_str :: "pyval \<Rightarrow> ustr"

text \<open>An environment for examples: no number is rewritten, no literal evaluates.\<close>

definition plain_env :: pyenv where
  "plain_env = \<lparr>env_float = (\<lambda>s. s), env_literal_eval = (\<lambda>_. None), env_str = (\<lambda>_. [])\<rparr>"

fun truthy :: "pyval \<Rightarrow> bool" where
  "truthy PNone = False"
| "truthy (PBool b) = b"
| "truthy (PInt i) = (i \<noteq> 0)"
| "truthy (PFloat r) = (r \<noteq> lit ''0.0'' \<and> r \<noteq> lit ''-0.0'')"
| "truthy (PStr s) = (s \<noteq> [])"
| "truthy (PBytes s) = (s \<noteq> [])"
| "truthy (PList xs) = (xs \<noteq> [])"
| "truthy (PTuple xs) = (xs \<noteq> [])"
| "truthy (PSet xs) = (xs \<noteq> [])"
| "truthy (PDict d) = (d \<noteq> [])"
| "truthy (PObj a) = True"

text \<open>\<open>a or b\<close>.\<close>

definition py_or :: "pyval \<Rightarrow> pyval \<Rightarrow> pyval" where
  "py_or a b = (if truthy a then a else b)"

section \<open>Dictionaries\<close>

text \<open>\<open>d[k] = v\<close>: a key keeps the place it was first inserted at.\<close>

fun dict_set :: "('k \<times> 'v) list \<Rightarrow> 'k \<Rightarrow> 'v \<Rightarrow> ('k \<times> 'v) list" where
  "dict_set [] k v = [(k, v)]"
| "dict_set ((k', v') # d) k v = (if k' = k then (k, v) # d else (k', v') # dict_set d k v)"

lemma map_of_dict_set: "map_of (dict_set d k v) = (map_of d)(k \<mapsto> v)"
  by (induction d k v rule: dict_set.induct) (auto simp: fun_eq_iff)

lemma keys_dict_set:
  "map fst (dict_set d k v) = (if k \<in> fst ` set d then map fst d else map fst d @ [k])"
  by (induction d k v rule: dict_set.induct) auto

lemma distinct_dict_set: "distinct (map fst d) \<Longrightarrow> distinct (map fst (dict_set d k v))"
  by (auto simp: keys_dict_set)

lemma dict_set_new: "k \<notin> fst ` set d \<Longrightarrow> dict_set d k v = d @ [(k, v)]"
  by (induction d k v rule: dict_set.induct) auto

lemma dict_set_present:
  "map_of d k = Some v \<Longrightarrow> dict_set d k v = d"
  by (induction d k v rule: dict_set.induct) (auto split: if_splits)

text \<open>\<open>d.get(key, default)\<close> for a string key.\<close>

definition dict_get :: "(pyval \<times> pyval) list \<Rightarrow> ustr \<Rightarrow> pyval \<Rightarrow> pyval" where
  "dict_get d k dflt = (case map_of d (PStr k) of Some v \<Rightarrow> v | None \<Rightarrow> dflt)"

text \<open>
  \<open>getattr(v, key, default)\<close>. The built-in types have none of the attributes the programs ask
  for, so only an object answers.
\<close>

fun attr_get :: "pyval \<Rightarrow> ustr \<Rightarrow> pyval \<Rightarrow> pyval" where
  "attr_get (PObj a) k dflt = (case map_of a k of Some v \<Rightarrow> v | None \<Rightarrow> dflt)"
| "attr_get _ k dflt = dflt"

section \<open>Sequences\<close>

fun py_len :: "pyval \<Rightarrow> nat res" where
  "py_len (PStr s) = Inr (length s)"
| "py_len (PBytes s) = Inr (length s)"
| "py_len (PList xs) = Inr (length xs)"
| "py_len (PTuple xs) = Inr (length xs)"
| "py_len (PSet xs) = Inr (length xs)"
| "py_len (PDict d) = Inr (length d)"
| "py_len _ = Inl TypeError"

text \<open>A key of a dictionary that equals the number 0, and \<open>v[0]\<close>.\<close>

definition is_zero_key :: "pyval \<Rightarrow> bool" where
  "is_zero_key k \<longleftrightarrow>
     k = PInt 0 \<or> k = PBool False \<or> k = PFloat (lit ''0.0'') \<or> k = PFloat (lit ''-0.0'')"

definition hd_res :: "'a list \<Rightarrow> 'a res" where
  "hd_res xs = (case xs of [] \<Rightarrow> Inl IndexError | x # _ \<Rightarrow> Inr x)"

fun py_first :: "pyval \<Rightarrow> pyval res" where
  "py_first (PStr s) = bind_res (hd_res s) (\<lambda>c. Inr (PStr [c]))"
| "py_first (PBytes s) = bind_res (hd_res s) (\<lambda>c. Inr (PInt (int (ucode c))))"
| "py_first (PList xs) = hd_res xs"
| "py_first (PTuple xs) = hd_res xs"
| "py_first (PDict d) =
     (case filter (\<lambda>(k, _). is_zero_key k) d of (_, v) # _ \<Rightarrow> Inr v | [] \<Rightarrow> Inl KeyError)"
| "py_first _ = Inl TypeError"

text \<open>The elements a \<open>for\<close> loop visits, and those \<open>reversed()\<close> visits (it wants a sequence).\<close>

fun py_iter :: "pyval \<Rightarrow> pyval list res" where
  "py_iter (PStr s) = Inr (map (\<lambda>c. PStr [c]) s)"
| "py_iter (PBytes s) = Inr (map (\<lambda>c. PInt (int (ucode c))) s)"
| "py_iter (PList xs) = Inr xs"
| "py_iter (PTuple xs) = Inr xs"
| "py_iter (PSet xs) = Inr xs"
| "py_iter (PDict d) = Inr (map fst d)"
| "py_iter _ = Inl TypeError"

fun py_reversed :: "pyval \<Rightarrow> pyval list res" where
  "py_reversed (PSet xs) = Inl TypeError"
| "py_reversed v = bind_res (py_iter v) (\<lambda>xs. Inr (rev xs))"

text \<open>\<open>v.get(key, default)\<close> and \<open>v[key]\<close>.\<close>

definition py_get :: "pyval \<Rightarrow> string \<Rightarrow> pyval \<Rightarrow> pyval res" where
  "py_get v k dflt = (case v of PDict d \<Rightarrow> Inr (dict_get d (lit k) dflt) | _ \<Rightarrow> Inl AttributeError)"

definition py_item :: "pyval \<Rightarrow> string \<Rightarrow> pyval res" where
  "py_item v k =
     (case v of
        PDict d \<Rightarrow> (case map_of d (PStr (lit k)) of Some x \<Rightarrow> Inr x | None \<Rightarrow> Inl KeyError)
      | _ \<Rightarrow> Inl TypeError)"

section \<open>Keys and formatting\<close>

fun hashable :: "pyval \<Rightarrow> bool" where
  "hashable (PList _) = False"
| "hashable (PDict _) = False"
| "hashable (PSet _) = False"
| "hashable (PTuple vs) = list_all hashable vs"
| "hashable _ = True"

text \<open>A value in an f-string or in \<open>str.format\<close>, without a format specification.\<close>

definition py_text :: "pyenv \<Rightarrow> pyval \<Rightarrow> ustr" where
  "py_text env v = (case v of PStr s \<Rightarrow> s | PInt i \<Rightarrow> int_text i | _ \<Rightarrow> env_str env v)"

end
