(* ===== verification/Json.thy ===== *)
theory Json
  imports PyVal "HOL-Library.Multiset"
begin

text \<open>
  \<open>json.dumps\<close> and \<open>json.loads\<close> of the standard library, as the programs call them: the
  default separators, \<open>ensure_ascii\<close>, strict strings; \<open>None\<close> is a raised exception. The
  interpreter's limits on recursion depth and on the digits of an integer are not modelled.
  The last part proves that parsing undoes printing and gives the normal form that printing
  with sorted keys computes.
\<close>

section \<open>Printing\<close>

definition hex_char :: "nat \<Rightarrow> uchar" where
  "hex_char d = (if d < 10 then uchr (48 + d) else uchr (87 + d))"

definition hex4 :: "nat \<Rightarrow> ustr" where
  "hex4 n = [hex_char (n div 4096 mod 16), hex_char (n div 256 mod 16),
             hex_char (n div 16 mod 16), hex_char (n mod 16)]"

definition u_escape :: "nat \<Rightarrow> ustr" where
  "u_escape n = lit [CHR 0x5C, CHR ''u''] @ hex4 n"

definition json_char :: "uchar \<Rightarrow> ustr" where
  "json_char c =
     (if c = quote then lit [CHR 0x5C, CHR 0x22]
      else if c = L CHR 0x5C then lit [CHR 0x5C, CHR 0x5C]
      else if c = newline then lit [CHR 0x5C, CHR ''n'']
      else if c = L CHR 0x0D then lit [CHR 0x5C, CHR ''r'']
      else if c = L CHR 0x09 then lit [CHR 0x5C, CHR ''t'']
      else if c = L CHR 0x0C then lit [CHR 0x5C, CHR ''f'']
      else if c = L CHR 0x08 then lit [CHR 0x5C, CHR ''b'']
      else if 32 \<le> ucode c \<and> ucode c \<le> 126 then [c]
      else if ucode c < 65536 then u_escape (ucode c)
      else u_escape (55296 + (ucode c - 65536) div 1024) @
           u_escape (56320 + (ucode c - 65536) mod 1024))"

definition json_str :: "ustr \<Rightarrow> ustr" where
  "json_str s = quote # concat (map json_char s) @ [quote]"

definition float_json :: "ustr \<Rightarrow> ustr" where
  "float_json r =
     (if r = lit ''nan'' then lit ''NaN''
      else if r = lit ''inf'' then lit ''Infinity''
      else if r = lit ''-inf'' then lit ''-Infinity'' else r)"

fun key_text :: "pyval \<Rightarrow> ustr option" where
  "key_text (PStr s) = Some s"
| "key_text (PBool b) = Some (if b then lit ''true'' else lit ''false'')"
| "key_text PNone = Some (lit ''null'')"
| "key_text (PInt i) = Some (int_text i)"
| "key_text (PFloat r) = Some (float_json r)"
| "key_text _ = None"

text \<open>
  \<open>sort_keys\<close>: strings compare with strings and numbers with numbers; other mixtures raise.
  (Float keys, which no JSON text produces, are left out.)
\<close>

fun str_key :: "pyval \<Rightarrow> ustr option" where
  "str_key (PStr s) = Some s"
| "str_key _ = None"

fun num_key :: "pyval \<Rightarrow> int option" where
  "num_key (PInt i) = Some i"
| "num_key (PBool b) = Some (if b then 1 else 0)"
| "num_key _ = None"

definition sort_items :: "(pyval \<times> ustr) list \<Rightarrow> (pyval \<times> ustr) list option" where
  "sort_items kvs =
     (if length kvs \<le> 1 then Some kvs
      else if \<forall>(k, _) \<in> set kvs. str_key k \<noteq> None
        then Some (sort_key (\<lambda>(k, _). the (str_key k)) kvs)
      else if \<forall>(k, _) \<in> set kvs. num_key k \<noteq> None
        then Some (sort_key (\<lambda>(k, _). the (num_key k)) kvs)
      else None)"

definition brackets :: "string \<Rightarrow> ustr list \<Rightarrow> string \<Rightarrow> ustr" where
  "brackets l ts r = lit l @ join (lit '', '') ts @ lit r"

fun dumps :: "bool \<Rightarrow> pyval \<Rightarrow> ustr option"
  and dumps_list :: "bool \<Rightarrow> pyval list \<Rightarrow> ustr list option"
  and dumps_items :: "bool \<Rightarrow> (pyval \<times> pyval) list \<Rightarrow> (pyval \<times> ustr) list option"
where
  "dumps srt PNone = Some (lit ''null'')"
| "dumps srt (PBool b) = Some (if b then lit ''true'' else lit ''false'')"
| "dumps srt (PInt i) = Some (int_text i)"
| "dumps srt (PFloat r) = Some (float_json r)"
| "dumps srt (PStr s) = Some (json_str s)"
| "dumps srt (PBytes s) = None"
| "dumps srt (PList vs) = map_option (\<lambda>ts. brackets ''['' ts '']'') (dumps_list srt vs)"
| "dumps srt (PTuple vs) = map_option (\<lambda>ts. brackets ''['' ts '']'') (dumps_list srt vs)"
| "dumps srt (PSet vs) = None"
| "dumps srt (PDict kvs) =
     map_option (\<lambda>its. brackets ''{'' (map snd its) ''}'')
       (Option.bind (dumps_items srt kvs) (\<lambda>its. if srt then sort_items its else Some its))"
| "dumps srt (PObj a) = None"
| "dumps_list srt [] = Some []"
| "dumps_list srt (v # vs) =
     Option.bind (dumps srt v) (\<lambda>t. map_option (\<lambda>ts. t # ts) (dumps_list srt vs))"
| "dumps_items srt [] = Some []"
| "dumps_items srt ((k, v) # kvs) =
     Option.bind (key_text k) (\<lambda>kt. Option.bind (dumps srt v) (\<lambda>t.
       map_option (\<lambda>its. (k, json_str kt @ lit '': '' @ t) # its) (dumps_items srt kvs)))"

section \<open>Parsing\<close>

definition json_space :: "uchar \<Rightarrow> bool" where
  "json_space c \<longleftrightarrow> c \<in> {L CHR 0x20, L CHR 0x09, L CHR 0x0A, L CHR 0x0D}"

definition jws :: "ustr \<Rightarrow> ustr" where
  "jws s = dropWhile json_space s"

definition hex_val :: "uchar \<Rightarrow> nat option" where
  "hex_val c =
     (if 48 \<le> ucode c \<and> ucode c \<le> 57 then Some (ucode c - 48)
      else if 97 \<le> ucode c \<and> ucode c \<le> 102 then Some (ucode c - 87)
      else if 65 \<le> ucode c \<and> ucode c \<le> 70 then Some (ucode c - 55)
      else None)"

definition hex4_val :: "uchar \<Rightarrow> uchar \<Rightarrow> uchar \<Rightarrow> uchar \<Rightarrow> nat option" where
  "hex4_val a b c d =
     (case (hex_val a, hex_val b, hex_val c, hex_val d) of
        (Some w, Some x, Some y, Some z) \<Rightarrow> Some (4096 * w + 256 * x + 16 * y + z)
      | _ \<Rightarrow> None)"

definition esc_char :: "uchar \<Rightarrow> uchar option" where
  "esc_char e =
     (if e = quote then Some quote
      else if e = L CHR 0x5C then Some (L CHR 0x5C)
      else if e = L CHR ''/'' then Some (L CHR ''/'')
      else if e = L CHR ''b'' then Some (L CHR 0x08)
      else if e = L CHR ''f'' then Some (L CHR 0x0C)
      else if e = L CHR ''n'' then Some newline
      else if e = L CHR ''r'' then Some (L CHR 0x0D)
      else if e = L CHR ''t'' then Some (L CHR 0x09)
      else None)"

definition cons_fst :: "uchar \<Rightarrow> (ustr \<times> ustr) option \<Rightarrow> (ustr \<times> ustr) option" where
  "cons_fst c r = map_option (\<lambda>(x, s). (c # x, s)) r"

text \<open>\<open>unicode_esc h r\<close>: the code point of an escape with value \<open>h\<close>, given the text after it.\<close>

definition unicode_esc :: "nat \<Rightarrow> ustr \<Rightarrow> nat \<times> ustr" where
  "unicode_esc h r =
     (case r of
        b # u # a # a' # a'' # a''' # r' \<Rightarrow>
          (if 55296 \<le> h \<and> h < 56320 \<and> b = L CHR 0x5C \<and> u = L CHR ''u'' then
             (case hex4_val a a' a'' a''' of
                Some l \<Rightarrow> if 56320 \<le> l \<and> l < 57344
                          then (65536 + (h - 55296) * 1024 + (l - 56320), r') else (h, r)
              | None \<Rightarrow> (h, r))
           else (h, r))
      | _ \<Rightarrow> (h, r))"

lemma length_unicode_esc [termination_simp]: "(k, r') = unicode_esc h r \<Longrightarrow> length r' \<le> length r"
  by (auto simp: unicode_esc_def split: list.splits if_splits option.splits)

fun jstr :: "ustr \<Rightarrow> (ustr \<times> ustr) option" where
  "jstr [] = None"
| "jstr (c # s) =
     (if c = quote then Some ([], s)
      else if c = L CHR 0x5C then
        (case s of
           [] \<Rightarrow> None
         | e # s' \<Rightarrow>
             if e = L CHR ''u'' then
               (case s' of
                  a # a' # a'' # a''' # r \<Rightarrow>
                    (case hex4_val a a' a'' a''' of
                       None \<Rightarrow> None
                     | Some h \<Rightarrow> let (k, r') = unicode_esc h r in cons_fst (uchr k) (jstr r'))
                | _ \<Rightarrow> None)
             else (case esc_char e of None \<Rightarrow> None | Some x \<Rightarrow> cons_fst x (jstr s')))
      else if ucode c < 32 then None
      else cons_fst c (jstr s))"

text \<open>
  Numbers: an integer part, then a fraction and an exponent if they are complete.
\<close>

definition jfrac :: "ustr \<Rightarrow> ustr \<times> ustr" where
  "jfrac s =
     (case s of
        d # q \<Rightarrow> if d = L CHR ''.'' \<and> takeWhile ascii_digit q \<noteq> []
                 then (d # takeWhile ascii_digit q, dropWhile ascii_digit q) else ([], s)
      | [] \<Rightarrow> ([], s))"

definition jexp :: "ustr \<Rightarrow> ustr \<times> ustr" where
  "jexp s =
     (case s of
        x # q \<Rightarrow>
          (if x = L CHR ''e'' \<or> x = L CHR ''E'' then
             (let sg = (case q of y # _ \<Rightarrow> if y = L CHR ''+'' \<or> y = L CHR ''-'' then [y] else [] | [] \<Rightarrow> []);
                  q' = drop (length sg) q
              in if takeWhile ascii_digit q' \<noteq> []
                 then (x # sg @ takeWhile ascii_digit q', dropWhile ascii_digit q') else ([], s))
           else ([], s))
      | [] \<Rightarrow> ([], s))"

definition jint :: "ustr \<Rightarrow> (ustr \<times> ustr) option" where
  "jint s =
     (case s of
        [] \<Rightarrow> None
      | c # r \<Rightarrow>
          if c = L CHR ''0'' then Some ([c], r)
          else if ascii_digit c then Some (takeWhile ascii_digit s, dropWhile ascii_digit s)
          else None)"

definition jnum :: "pyenv \<Rightarrow> ustr \<Rightarrow> (pyval \<times> ustr) option" where
  "jnum env s =
     (let neg = (case s of c # _ \<Rightarrow> c = L CHR ''-'' | [] \<Rightarrow> False);
          sg = (if neg then lit ''-'' else [])
      in case jint (drop (length sg) s) of
           None \<Rightarrow> None
         | Some (ds, r) \<Rightarrow>
             (let (fr, r1) = jfrac r; (ex, r2) = jexp r1
              in Some (if fr = [] \<and> ex = []
                       then PInt (if neg then - int (text_nat ds) else int (text_nat ds))
                       else PFloat (env_float env (sg @ ds @ fr @ ex)), r2)))"

definition jword :: "pyenv \<Rightarrow> ustr \<Rightarrow> (pyval \<times> ustr) option" where
  "jword env s =
     (if prefix (lit ''null'') s then Some (PNone, drop 4 s)
      else if prefix (lit ''true'') s then Some (PBool True, drop 4 s)
      else if prefix (lit ''false'') s then Some (PBool False, drop 5 s)
      else if prefix (lit ''NaN'') s then Some (PFloat (lit ''nan''), drop 3 s)
      else if prefix (lit ''Infinity'') s then Some (PFloat (lit ''inf''), drop 8 s)
      else if prefix (lit ''-Infinity'') s then Some (PFloat (lit ''-inf''), drop 9 s)
      else jnum env s)"

fun jval :: "pyenv \<Rightarrow> nat \<Rightarrow> ustr \<Rightarrow> (pyval \<times> ustr) option"
  and jelems :: "pyenv \<Rightarrow> nat \<Rightarrow> pyval list \<Rightarrow> ustr \<Rightarrow> (pyval \<times> ustr) option"
  and jmembers :: "pyenv \<Rightarrow> nat \<Rightarrow> (pyval \<times> pyval) list \<Rightarrow> ustr \<Rightarrow> (pyval \<times> ustr) option"
where
  "jval env 0 s = None"
| "jval env (Suc n) s =
     (case s of
        [] \<Rightarrow> None
      | c # r \<Rightarrow>
          if c = quote then map_option (\<lambda>(x, r'). (PStr x, r')) (jstr r)
          else if c = L CHR ''{'' then
            (case jws r of
               [] \<Rightarrow> None
             | d # r' \<Rightarrow> if d = L CHR ''}'' then Some (PDict [], r') else jmembers env n [] (d # r'))
          else if c = L CHR ''['' then
            (case jws r of
               [] \<Rightarrow> None
             | d # r' \<Rightarrow> if d = L CHR '']'' then Some (PList [], r') else jelems env n [] (d # r'))
          else jword env s)"
| "jelems env 0 acc s = None"
| "jelems env (Suc n) acc s =
     (case jval env n s of
        None \<Rightarrow> None
      | Some (v, r) \<Rightarrow>
          (case jws r of
             [] \<Rightarrow> None
           | d # r' \<Rightarrow>
               if d = L CHR '']'' then Some (PList (acc @ [v]), r')
               else if d = L CHR '','' then jelems env n (acc @ [v]) (jws r')
               else None))"
| "jmembers env 0 acc s = None"
| "jmembers env (Suc n) acc s =
     (case s of
        [] \<Rightarrow> None
      | q # r \<Rightarrow>
          if q \<noteq> quote then None else
          (case jstr r of
             None \<Rightarrow> None
           | Some (k, r1) \<Rightarrow>
               (case jws r1 of
                  [] \<Rightarrow> None
                | c # r2 \<Rightarrow>
                    if c \<noteq> L CHR '':'' then None else
                    (case jval env n (jws r2) of
                       None \<Rightarrow> None
                     | Some (v, r3) \<Rightarrow>
                         (case jws r3 of
                            [] \<Rightarrow> None
                          | d # r4 \<Rightarrow>
                              if d = L CHR ''}'' then Some (PDict (dict_set acc (PStr k) v), r4)
                              else if d = L CHR '','' then jmembers env n (dict_set acc (PStr k) v) (jws r4)
                              else None)))))"

definition json_loads :: "pyenv \<Rightarrow> ustr \<Rightarrow> pyval option" where
  "json_loads env s =
     (if prefix [uchr 65279] s then None
      else case jval env (2 * length s + 2) (jws s) of
             Some (v, r) \<Rightarrow> if jws r = [] then Some v else None
           | None \<Rightarrow> None)"

section \<open>Parsing undoes printing: strings and integers\<close>

lemma hex_val_char: "d < 16 \<Longrightarrow> hex_val (hex_char d) = Some d"
  by (auto simp: hex_val_def hex_char_def)

lemma hex4_digits:
  assumes "n < 65536"
  shows "4096 * (n div 4096 mod 16) + 256 * (n div 256 mod 16) + 16 * (n div 16 mod 16) + n mod 16 = (n::nat)"
proof -
  have "n div 16 div 16 = n div 256" "n div 256 div 16 = n div 4096"
    by (simp_all flip: div_mult2_eq)
  then have "n = 16 * (n div 16) + n mod 16" "n div 16 = 16 * (n div 256) + n div 16 mod 16"
    "n div 256 = 16 * (n div 4096) + n div 256 mod 16"
    by (metis mult_div_mod_eq)+
  moreover have "n div 4096 mod 16 = n div 4096" using assms by simp
  ultimately show ?thesis by linarith
qed

lemma hex4_val_hex4:
  assumes "n < 65536"
  obtains a b c d where "hex4 n = [a, b, c, d]" "hex4_val a b c d = Some n"
proof
  show "hex4 n = [hex_char (n div 4096 mod 16), hex_char (n div 256 mod 16),
      hex_char (n div 16 mod 16), hex_char (n mod 16)]" by (rule hex4_def)
  show "hex4_val (hex_char (n div 4096 mod 16)) (hex_char (n div 256 mod 16))
      (hex_char (n div 16 mod 16)) (hex_char (n mod 16)) = Some n"
    unfolding hex4_val_def
    by (simp only: hex_val_char mod_less_divisor zero_less_numeral hex4_digits[OF assms] prod.case option.case)
qed

text \<open>A code point that is not half of a surrogate pair.\<close>

definition scalar :: "uchar \<Rightarrow> bool" where
  "scalar c \<longleftrightarrow> ucode c < 55296 \<or> 57344 \<le> ucode c \<and> ucode c < 1114112"

lemma jstr_u_escape:
  assumes "n < 65536"
  shows "jstr (u_escape n @ t) =
    (let (k, r) = unicode_esc n t in cons_fst (uchr k) (jstr r))"
  using assms by (rule hex4_val_hex4) (simp add: u_escape_def quote_def)

lemma unicode_esc_bmp: "n < 55296 \<or> 57344 \<le> n \<Longrightarrow> unicode_esc n t = (n, t)"
  by (auto simp: unicode_esc_def split: list.splits)

lemma unicode_esc_pair:
  assumes "l < 1024" "h < 1024"
  shows "unicode_esc (55296 + h) (u_escape (56320 + l) @ t) = (65536 + h * 1024 + l, t)"
proof -
  have "56320 + l < 65536" using assms by simp
  then obtain a b c d where "hex4 (56320 + l) = [a, b, c, d]" "hex4_val a b c d = Some (56320 + l)"
    by (rule hex4_val_hex4)
  with assms show ?thesis by (simp add: unicode_esc_def u_escape_def)
qed

lemma jstr_char:
  assumes "scalar c"
  shows "jstr (json_char c @ t) = cons_fst c (jstr t)"
proof -
  have "json_char c =
     (if 32 \<le> ucode c \<and> ucode c \<le> 126 then [c]
      else if ucode c < 65536 then u_escape (ucode c)
      else u_escape (55296 + (ucode c - 65536) div 1024) @ u_escape (56320 + (ucode c - 65536) mod 1024))"
    if "c \<notin> {quote, L CHR 0x5C, newline, L CHR 0x0D, L CHR 0x09, L CHR 0x0C, L CHR 0x08}"
    using that by (simp add: json_char_def)
  then consider (named) "c \<in> {quote, L CHR 0x5C, newline, L CHR 0x0D, L CHR 0x09, L CHR 0x0C, L CHR 0x08}"
    | (plain) "c \<noteq> quote" "c \<noteq> L CHR 0x5C" "json_char c = [c]" "32 \<le> ucode c"
    | (bmp) "json_char c = u_escape (ucode c)" "ucode c < 65536"
    | (astral) "65536 \<le> ucode c"
       "json_char c = u_escape (55296 + (ucode c - 65536) div 1024) @ u_escape (56320 + (ucode c - 65536) mod 1024)"
    by (cases "32 \<le> ucode c \<and> ucode c \<le> 126"; cases "ucode c < 65536"; force)
  then show ?thesis
  proof cases
    case named
    then show ?thesis by (auto simp: json_char_def quote_def esc_char_def)
  next
    case plain
    then show ?thesis by simp
  next
    case bmp
    with assms show ?thesis by (simp add: jstr_u_escape unicode_esc_bmp scalar_def)
  next
    case astral
    let ?h = "(ucode c - 65536) div 1024" and ?l = "(ucode c - 65536) mod 1024"
    have h: "?h < 1024" using assms astral by (simp add: scalar_def) 
    moreover have "65536 + ?h * 1024 + ?l = ucode c"
      using astral(1) div_mult_mod_eq[of "ucode c - 65536" 1024] by linarith
    ultimately show ?thesis
      using astral by (simp add: jstr_u_escape unicode_esc_pair)
  qed
qed

lemma jstr_json_str:
  "\<forall>c \<in> set s. scalar c \<Longrightarrow> jstr (concat (map json_char s) @ quote # t) = Some (s, t)"
  by (induction s) (auto simp: jstr_char cons_fst_def)

lemma length_jws: "length (jws s) \<le> length s"
  by (simp add: jws_def length_dropWhile_le)

lemma jws_id: "s = [] \<or> \<not> json_space (hd s) \<Longrightarrow> jws s = s"
  by (cases s) (auto simp: jws_def)

lemma jws_Cons [simp]: "jws (c # s) = (if json_space c then jws s else c # s)"
  by (simp add: jws_def)

lemma jws_Nil [simp]: "jws [] = []"
  by (simp add: jws_def)

lemma length_jstr: "jstr s = Some (k, r) \<Longrightarrow> length r < length s"
proof (induction s arbitrary: k r rule: jstr.induct)
  case (2 c s)
  show ?case
  proof (cases "c = quote \<or> c \<noteq> L CHR 0x5C")
    case True
    with 2 show ?thesis by (fastforce simp: cons_fst_def split: if_splits)
  next
    case False
    with "2.prems" obtain e s' where s: "s = e # s'" by (auto split: list.splits)
    show ?thesis
    proof (cases "e = L CHR ''u''")
      case True
      with False "2.prems" s obtain a1 a2 a3 a4 t h where
        t: "s' = a1 # a2 # a3 # a4 # t" and h: "hex4_val a1 a2 a3 a4 = Some h"
        by (auto split: list.splits option.splits)
      obtain k' r' where u: "unicode_esc h t = (k', r')" by fastforce
      with False True "2.prems" s t h obtain x where "jstr r' = Some (x, r)"
        by (auto simp: cons_fst_def)
      with "2.IH"(1) False True s t h u have "length r < length r'" by fastforce
      with length_unicode_esc[OF u[symmetric]] s t show ?thesis by simp
    next
      case e: False
      with False "2.prems" s obtain x y where "esc_char e = Some x" "jstr s' = Some (y, r)"
        by (auto simp: cons_fst_def split: option.splits)
      with "2.IH"(2) False e s show ?thesis by fastforce
    qed
  qed
qed simp

text \<open>What may follow a value in a text.\<close>

definition follows :: "ustr \<Rightarrow> bool" where
  "follows t \<longleftrightarrow> t = [] \<or> hd t \<in> {L CHR '','', L CHR '']'', L CHR ''}''}"

lemma span_digits:
  assumes "\<forall>c \<in> set ds. ascii_digit c" "follows t"
  shows "takeWhile ascii_digit (ds @ t) = ds" "dropWhile ascii_digit (ds @ t) = t"
proof -
  have "takeWhile ascii_digit t = []" "dropWhile ascii_digit t = t"
    using assms(2) by (cases t; auto simp: follows_def ascii_digit_def)+
  then show "takeWhile ascii_digit (ds @ t) = ds" "dropWhile ascii_digit (ds @ t) = t"
    using assms(1) by (auto simp: takeWhile_append2 dropWhile_append2)
qed

lemma jnum_tail: "follows t \<Longrightarrow> jfrac t = ([], t) \<and> jexp t = ([], t)"
  by (cases t) (auto simp: follows_def jfrac_def jexp_def)

lemma digit_char_0: "digit_char 0 = L CHR ''0''"
  by code_simp

lemma jint_nat_text:
  assumes "follows t"
  shows "jint (nat_text n @ t) = Some (nat_text n, t)"
proof (cases "n = 0")
  case True
  then show ?thesis by (simp add: jint_def nat_text.simps[of 0] digit_char_0)
next
  case False
  obtain c ds where c: "nat_text n = c # ds" by (cases "nat_text n") auto
  have "c \<noteq> digit_char 0" using hd_nat_text_zero[of n] False c by simp
  then have "c \<noteq> L CHR ''0''" by (simp add: digit_char_0)
  moreover have "ascii_digit c" using nat_text_digits[of c n] c by simp
  moreover have "\<forall>x \<in> set (nat_text n). ascii_digit x" by (auto dest: nat_text_digits)
  ultimately show ?thesis
    using span_digits[of "nat_text n" t] assms by (simp add: jint_def c)
qed

lemma jnum_int_text:
  assumes "follows t"
  shows "jnum env (int_text i @ t) = Some (PInt i, t)"
proof (cases "i < 0")
  case True
  then have "int_text i @ t = L CHR ''-'' # nat_text (nat (- i)) @ t" by (simp add: int_text_def)
  with True assms show ?thesis
    by (simp add: jnum_def jint_nat_text jnum_tail)
next
  case False
  obtain c ds where c: "nat_text (nat i) = c # ds" by (cases "nat_text (nat i)") auto
  then have "ascii_digit c" using nat_text_digits[of c "nat i"] by simp
  then have "c \<noteq> L CHR ''-''" by (auto simp: ascii_digit_def)
  with False assms c jint_nat_text[of t "nat i"] text_nat_text[of "nat i"] show ?thesis
    by (simp add: jnum_def int_text_def jnum_tail)
qed

section \<open>Enough fuel\<close>

lemma length_jfrac: "length (snd (jfrac s)) \<le> length s"
  by (auto simp: jfrac_def length_dropWhile_le le_SucI split: list.splits)

lemma length_jexp: "length (snd (jexp s)) \<le> length s"
proof (cases s)
  case (Cons x q)
  have "length (dropWhile ascii_digit (drop k q)) \<le> Suc (length q)" for k
    using length_dropWhile_le[of ascii_digit "drop k q"] by simp
  with Cons show ?thesis by (simp add: jexp_def Let_def)
qed (simp add: jexp_def)

lemma length_jint: "jint s = Some (ds, r) \<Longrightarrow> length r < length s"
  by (auto simp: jint_def length_dropWhile_le less_Suc_eq_le split: list.splits if_splits)

lemma length_jnum:
  assumes "jnum env s = Some (v, r)"
  shows "length r < length s"
proof -
  obtain k ds r0 where 0: "jint (drop k s) = Some (ds, r0)" "r = snd (jexp (snd (jfrac r0)))"
    using assms by (auto simp: jnum_def Let_def split: option.splits prod.splits)
  have "length r \<le> length r0"
    using length_jexp[of "snd (jfrac r0)"] length_jfrac[of r0] 0 by simp
  then show ?thesis using length_jint[OF 0(1)] by simp
qed

lemma length_jword: "jword env s = Some (v, r) \<Longrightarrow> length r < length s"
  by (auto simp: jword_def prefix_def dest: length_jnum split: if_splits)

lemma jval_consumes:
  "jval env n s = Some (v, r) \<Longrightarrow> length r < length s"
  "jelems env n acc s = Some (v, r) \<Longrightarrow> length r < length s"
  "jmembers env n kvs s = Some (v, r) \<Longrightarrow> length r < length s"
proof (induction env n s and env n acc s and env n kvs s arbitrary: v r and v r and v r
    rule: jval_jelems_jmembers.induct)
  case (2 env n s)
  then obtain c q where s: "s = c # q" by (auto split: list.splits)
  have "length (jws q) \<le> length q" by (rule length_jws)
  with 2 s show ?case
    by (auto dest!: length_jstr length_jword split: if_splits list.splits) fastforce+
next
  case (4 env n acc s)
  then obtain u q d q' where q: "jval env n s = Some (u, q)" "jws q = d # q'"
    by (auto split: option.splits list.splits)
  have "length (jws q) \<le> length q" "length (jws q') \<le> length q'" by (rule length_jws)+
  with 4 q show ?case by (fastforce split: if_splits)
next
  case (6 env n acc s)
  then obtain q where s: "s = quote # q" by (auto split: list.splits if_splits)
  with "6.prems" obtain k r1 r2 where 1: "jstr q = Some (k, r1)" "jws r1 = L CHR '':'' # r2"
    by (auto split: list.splits option.splits if_splits)
  with "6.prems" s obtain u r3 d r4 where 2: "jval env n (jws r2) = Some (u, r3)" "jws r3 = d # r4"
    by (auto split: list.splits option.splits)
  have "length r3 < length (jws r2)" using 6 s 1 2 by simp
  moreover have "length (jws r4) \<le> length r4" "length (jws r3) \<le> length r3"
     "length (jws r2) \<le> length r2" "length (jws r1) \<le> length r1" by (rule length_jws)+
  moreover have "length r1 < length q" using 1 by (simp add: length_jstr)
  ultimately have small: "length (jws r4) < length q" "length r4 < length q" using 1 2 by simp_all
  show ?case
  proof (cases "d = L CHR ''}''")
    case True
    with "6.prems" s 1 2 small show ?thesis by simp
  next
    case False
    with "6.prems" s 1 2 have d: "d = L CHR '',''"
      and "jmembers env n (dict_set acc (PStr k) u) (jws r4) = Some (v, r)"
      by (auto split: if_splits)
    with "6.IH" s 1 2 False have "length r < length (jws r4)" by simp
    with s small show ?thesis by simp
  qed
qed simp_all

lemma fuel_step:
  "(\<forall>s. 2 * length s + 2 \<le> n \<longrightarrow> jval env (Suc n) s = jval env n s) \<and>
   (\<forall>acc s. 2 * length s + 3 \<le> n \<longrightarrow> jelems env (Suc n) acc s = jelems env n acc s) \<and>
   (\<forall>acc s. 2 * length s + 3 \<le> n \<longrightarrow> jmembers env (Suc n) acc s = jmembers env n acc s)"
proof (induction n)
  case (Suc n)
  then have IH: "2 * length s + 2 \<le> n \<Longrightarrow> jval env (Suc n) s = jval env n s"
    "2 * length s + 3 \<le> n \<Longrightarrow> jelems env (Suc n) acc s = jelems env n acc s"
    "2 * length s + 3 \<le> n \<Longrightarrow> jmembers env (Suc n) kvs s = jmembers env n kvs s" for s acc kvs
    by blast+
  have "jval env (Suc (Suc n)) s = jval env (Suc n) s" if len: "2 * length s + 2 \<le> Suc n" for s
  proof (cases s)
    case (Cons c q)
    have "jmembers env (Suc n) [] (d # q') = jmembers env n [] (d # q')"
      "jelems env (Suc n) [] (d # q') = jelems env n [] (d # q')" if "jws q = d # q'" for d q'
      using IH length_jws[of q] that len Cons by (simp_all del: jval.simps jelems.simps jmembers.simps)
    then show ?thesis
      unfolding jval.simps(2)[of env "Suc n"] jval.simps(2)[of env n] Cons
      by (simp split: list.splits del: jval.simps jelems.simps jmembers.simps)
  qed simp
  moreover have "jelems env (Suc (Suc n)) acc s = jelems env (Suc n) acc s"
    if len: "2 * length s + 3 \<le> Suc n" for acc s
  proof -
    have v: "jval env (Suc n) s = jval env n s" using len by (intro IH) (simp del: jval.simps jelems.simps jmembers.simps)
    have e: "jelems env (Suc n) acc' (jws q') = jelems env n acc' (jws q')"
      if "jval env n s = Some (u, q)" "jws q = d # q'" for acc' u q d q'
    proof -
      have "length (jws q') < length s"
        using length_jws[of q'] length_jws[of q] that jval_consumes(1)[of env n s u q] by simp
      then show ?thesis using len by (intro IH) (simp del: jval.simps jelems.simps jmembers.simps)
    qed
    show ?thesis
      unfolding jelems.simps(2)[of env "Suc n" acc s] jelems.simps(2)[of env n acc s] v
      by (simp add: e split: option.splits list.splits del: jval.simps jelems.simps jmembers.simps)
  qed
  moreover have "jmembers env (Suc (Suc n)) acc s = jmembers env (Suc n) acc s"
    if len: "2 * length s + 3 \<le> Suc n" for acc s
  proof (cases s)
    case (Cons x q)
    have v: "jval env (Suc n) (jws r2) = jval env n (jws r2)"
      if "jstr q = Some (k, r1)" "jws r1 = c # r2" for k r1 c r2
    proof -
      have "length (jws r2) < length s"
        using length_jws[of r2] length_jws[of r1] length_jstr[OF that(1)] that Cons by simp
      then show ?thesis using len by (intro IH) (simp del: jval.simps jelems.simps jmembers.simps)
    qed
    have e: "jmembers env (Suc n) acc' (jws r4) = jmembers env n acc' (jws r4)"
      if "jstr q = Some (k, r1)" "jws r1 = c # r2" "jval env n (jws r2) = Some (u, r3)" "jws r3 = d # r4"
      for k r1 c r2 acc' u r3 d r4
    proof -
      have "length (jws r4) < length s"
        using length_jws[of r4] length_jws[of r3] length_jws[of r2] length_jws[of r1]
          length_jstr[OF that(1)] jval_consumes(1)[OF that(3)] that Cons by simp
      then show ?thesis using len by (intro IH) (simp del: jval.simps jelems.simps jmembers.simps)
    qed
    show ?thesis
      unfolding jmembers.simps(2)[of env "Suc n" acc "x # q"] jmembers.simps(2)[of env n acc "x # q"] Cons
      by (simp add: v e split: option.splits list.splits del: jval.simps jelems.simps jmembers.simps)
  qed simp
  ultimately show ?case by blast
qed simp

lemma fuel_enough:
  assumes "2 * length s + 2 \<le> n" "n \<le> m"
  shows "jval env m s = jval env n s"
  using assms(2)
proof (induction rule: dec_induct)
  case (step k)
  then show ?case using fuel_step[of k env] assms(1) by simp
qed simp

section \<open>Round trip\<close>

text \<open>The values that survive printing and parsing: string keys, no floats, no tuples.\<close>

fun jsonable :: "pyval \<Rightarrow> bool" where
  "jsonable PNone = True"
| "jsonable (PBool b) = True"
| "jsonable (PInt i) = True"
| "jsonable (PStr s) = (\<forall>c \<in> set s. scalar c)"
| "jsonable (PList vs) = (\<forall>v \<in> set vs. jsonable v)"
| "jsonable (PDict kvs) =
     (distinct (map fst kvs) \<and> (\<forall>(k, v) \<in> set kvs. str_key k \<noteq> None \<and> (\<forall>c \<in> set (the (str_key k)). scalar c) \<and> jsonable v))"
| "jsonable _ = False"

text \<open>\<open>parses env t v\<close>: the text \<open>t\<close> reads as the value \<open>v\<close> wherever a value may stand.\<close>

definition parses :: "pyenv \<Rightarrow> ustr \<Rightarrow> pyval \<Rightarrow> bool" where
  "parses env t v \<longleftrightarrow>
     (\<exists>c q. t = c # q \<and> \<not> json_space c \<and> c \<notin> {L CHR '']'', L CHR ''}'', uchr 65279}) \<and>
     (\<forall>rest. follows rest \<longrightarrow> (\<exists>N. \<forall>n \<ge> N. jval env n (t @ rest) = Some (v, rest)))"

lemma parsesE:
  assumes "parses env t v"
  obtains c q where "t = c # q" "\<not> json_space c" "c \<noteq> L CHR '']''" "c \<noteq> L CHR ''}''" "c \<noteq> uchr 65279"
  using assms by (auto simp: parses_def)

lemma parses_at:
  assumes "parses env t v" "follows rest"
  obtains N where "\<And>n. N \<le> n \<Longrightarrow> jval env n (t @ rest) = Some (v, rest)"
  using assms unfolding parses_def by blast

lemma parsesI:
  assumes "t = c # q" "\<not> json_space c" "c \<notin> {L CHR '']'', L CHR ''}'', uchr 65279}"
    and "\<And>n rest. follows rest \<Longrightarrow> N \<le> n \<Longrightarrow> jval env (Suc n) (t @ rest) = Some (v, rest)"
  shows "parses env t v"
proof -
  have "jval env n (t @ rest) = Some (v, rest)" if "follows rest" "Suc N \<le> n" for n rest
    using assms(4)[of rest "n - 1"] that by (cases n) auto
  with assms(1-3) show ?thesis unfolding parses_def by blast
qed

lemma uchr_65279: "uchr 65279 = U 65023"
  by (simp add: uchr_def)

lemma quote_facts:
  "\<not> json_space quote" "quote \<noteq> L CHR '']''" "quote \<noteq> L CHR ''}''" "quote \<noteq> uchr 65279"
  by (simp_all add: quote_def json_space_def uchr_65279)

lemma parses_str:
  assumes "\<forall>c \<in> set s. scalar c"
  shows "parses env (json_str s) (PStr s)"
  unfolding json_str_def
  by (rule parsesI[where N = 0, OF refl])
    (use assms in \<open>auto simp: jstr_json_str quote_facts\<close>)

lemma parses_word:
  "parses env (lit ''null'') PNone" "parses env (lit ''true'') (PBool True)"
  "parses env (lit ''false'') (PBool False)"
  by (rule parsesI[where N = 0 and c = "L CHR ''n''"] parsesI[where N = 0 and c = "L CHR ''t''"]
      parsesI[where N = 0 and c = "L CHR ''f''"], simp,
      simp_all add: json_space_def uchr_65279 quote_def jword_def)+

lemma digit_not:
  assumes "ascii_digit c"
  shows "c \<noteq> L CHR ''n''" "c \<noteq> L CHR ''t''" "c \<noteq> L CHR ''f''" "c \<noteq> L CHR ''N''"
    "c \<noteq> L CHR ''I''" "c \<noteq> L CHR ''-''"
  using assms by (auto simp: ascii_digit_def)

lemma jword_num:
  assumes "ascii_digit c \<or> c = L CHR ''-'' \<and> (\<exists>d q'. q = d # q' \<and> ascii_digit d)"
  shows "jword env (c # q) = jnum env (c # q)"
  using assms
proof (elim disjE conjE exE)
  assume "ascii_digit c"
  from digit_not[OF this] show ?thesis by (simp add: jword_def eq_commute[of _ c])
next
  fix d q' assume cd: "c = L CHR ''-''" "q = d # q'" "ascii_digit d"
  from digit_not[OF cd(3)] show ?thesis by (simp add: cd jword_def eq_commute[of _ d])
qed

lemma num_start_not:
  assumes "ascii_digit c \<or> c = L CHR ''-''"
  shows "\<not> json_space c" "c \<noteq> quote" "c \<noteq> L CHR ''{''" "c \<noteq> L CHR ''[''"
    "c \<notin> {L CHR '']'', L CHR ''}'', uchr 65279}"
  using assms by (auto simp: json_space_def ascii_digit_def quote_def uchr_65279)

lemma parses_int: "parses env (int_text i) (PInt i)"
proof -
  obtain c q where c: "int_text i = c # q" and
    d: "ascii_digit c \<or> c = L CHR ''-'' \<and> (\<exists>d q'. q = d # q' \<and> ascii_digit d)"
  proof (cases "i < 0")
    case True
    obtain d ds where ds: "nat_text (nat (- i)) = d # ds" by (cases "nat_text (nat (- i))") auto
    then have "ascii_digit d" using nat_text_digits[of d "nat (- i)"] by simp
    moreover have "int_text i = L CHR ''-'' # d # ds" using True ds by (simp add: int_text_def)
    ultimately show ?thesis by (intro that[of "L CHR ''-''" "d # ds"]) simp_all
  next
    case False
    obtain d ds where ds: "nat_text (nat i) = d # ds" by (cases "nat_text (nat i)") auto
    then have "ascii_digit d" using nat_text_digits[of d "nat i"] by simp
    moreover have "int_text i = d # ds" using False ds by (simp add: int_text_def)
    ultimately show ?thesis by (intro that[of d ds]) simp_all
  qed
  show ?thesis
  proof (rule parsesI[where N = 0, OF c])
    have c_cases: "ascii_digit c \<or> c = L CHR ''-''" using d by blast
    note start = num_start_not[OF c_cases]
    show "\<not> json_space c" "c \<notin> {L CHR '']'', L CHR ''}'', uchr 65279}"
      by (fact start)+
    fix n rest assume "follows rest"
    have w: "jword env (c # q @ rest) = jnum env (c # q @ rest)"
      using d by (intro jword_num) auto
    show "jval env (Suc n) (int_text i @ rest) = Some (PInt i, rest)"
      using jnum_int_text[OF \<open>follows rest\<close>, of env i] start(2-4)
      unfolding c append_Cons jval.simps list.case w by simp
  qed
qed

lemma jelems_join:
  assumes "list_all2 (parses env) ts vs" "ts \<noteq> []"
  shows "\<exists>N. \<forall>n \<ge> N. jelems env n acc (join (lit '', '') ts @ L CHR '']'' # rest) = Some (PList (acc @ vs), rest)"
  using assms
proof (induction ts vs arbitrary: acc rule: list_all2_induct)
  case (Cons t ts v vs)
  show ?case
  proof (cases ts)
    case Nil
    with Cons have [simp]: "vs = []" by simp
    have "follows (L CHR '']'' # rest)" by (simp add: follows_def)
    then obtain N where N: "\<And>n. N \<le> n \<Longrightarrow> jval env n (t @ L CHR '']'' # rest) = Some (v, L CHR '']'' # rest)"
      using parses_at[OF Cons.hyps(1)] by metis
    have "jelems env n acc (t @ L CHR '']'' # rest) = Some (PList (acc @ [v]), rest)" if "Suc N \<le> n" for n
      using N[of "n - 1"] that by (cases n) (auto simp: json_space_def)
    with Nil show ?thesis by auto
  next
    case (Cons t' ts')
    then obtain v' vs' where vs: "vs = v' # vs'" "parses env t' v'"
      using Cons.hyps(2) by (auto simp: list_all2_Cons1)
    let ?tl = "join (lit '', '') ts @ L CHR '']'' # rest"
    have "follows (lit '', '' @ ?tl)" by (simp add: follows_def)
    then obtain N where N: "\<And>n. N \<le> n \<Longrightarrow> jval env n (t @ lit '', '' @ ?tl) = Some (v, lit '', '' @ ?tl)"
      using parses_at[OF Cons.hyps(1)] by metis
    obtain M where M: "\<And>n. M \<le> n \<Longrightarrow> jelems env n (acc @ [v]) ?tl = Some (PList ((acc @ [v]) @ vs), rest)"
      using Cons.IH[of "acc @ [v]"] Cons by blast
    have tl: "jws ?tl = ?tl"
    proof -
      obtain c q where "t' = c # q" "\<not> json_space c" using vs(2) by (rule parsesE)
      with Cons show ?thesis by (cases ts') auto
    qed
    have "jelems env n acc (t @ lit '', '' @ ?tl) = Some (PList (acc @ v # vs), rest)"
      if n: "Suc (max N M) \<le> n" for n
    proof -
      obtain m where m: "n = Suc m" "N \<le> m" "M \<le> m" using n by (cases n) auto
      have "jelems env m (acc @ [v]) (jws (L CHR '' '' # ?tl)) = Some (PList (acc @ v # vs), rest)"
        using M[OF m(3)] tl by (simp add: json_space_def)
      then show ?thesis using N[OF m(2)] m(1) by (simp add: json_space_def)
    qed
    with Cons show ?thesis by auto
  qed
qed simp

lemma parses_list:
  assumes "list_all2 (parses env) ts vs"
  shows "parses env (brackets ''['' ts '']'') (PList vs)"
proof (cases ts)
  case Nil
  with assms show ?thesis unfolding brackets_def
    by (intro parsesI[where N = 0]) (auto simp: json_space_def uchr_65279 quote_def)
next
  case (Cons t ts')
  then obtain v vs' where "parses env t v" "vs = v # vs'" using assms by (auto simp: list_all2_Cons1)
  then obtain c q where c: "t = c # q" "\<not> json_space c" "c \<noteq> L CHR '']''" by (auto elim: parsesE)
  have j: "\<exists>q'. join (lit '', '') ts = c # q'" using c Cons by (cases ts') auto
  have "\<exists>N. \<forall>n \<ge> N. jval env n (brackets ''['' ts '']'' @ rest) = Some (PList vs, rest)" for rest
  proof -
    obtain N where N: "\<And>n. N \<le> n \<Longrightarrow> jelems env n [] (join (lit '', '') ts @ L CHR '']'' # rest) = Some (PList vs, rest)"
      using jelems_join[OF assms, of "[]" rest] Cons by auto
    have "jval env n (brackets ''['' ts '']'' @ rest) = Some (PList vs, rest)" if "Suc N \<le> n" for n
      using N[of "n - 1"] that j c by (cases n) (auto simp: brackets_def quote_def)
    then show ?thesis by blast
  qed
  then show ?thesis
    by (auto simp: parses_def brackets_def json_space_def uchr_65279)
qed

definition item_text :: "ustr \<Rightarrow> ustr \<Rightarrow> ustr" where
  "item_text k t = json_str k @ lit '': '' @ t"

lemma jmembers_item:
  assumes "\<forall>c \<in> set k. scalar c" "parses env t v" "follows rest"
  obtains N where "\<And>n acc. N \<le> n \<Longrightarrow> jmembers env (Suc n) acc (item_text k t @ rest) =
     (case jws rest of
        [] \<Rightarrow> None
      | d # r4 \<Rightarrow>
          if d = L CHR ''}'' then Some (PDict (dict_set acc (PStr k) v), r4)
          else if d = L CHR '','' then jmembers env n (dict_set acc (PStr k) v) (jws r4)
          else None)"
proof -
  obtain N where N: "\<And>n. N \<le> n \<Longrightarrow> jval env n (t @ rest) = Some (v, rest)"
    using parses_at[OF assms(2,3)] by metis
  obtain c q where t: "t = c # q" "\<not> json_space c" using assms(2) by (rule parsesE)
  have ws: "jws (L CHR '' '' # t @ rest) = t @ rest"
    using t by (simp add: json_space_def)
  have col: "\<not> json_space (L CHR '':'')" by (simp add: json_space_def)
  have "jmembers env (Suc n) acc (item_text k t @ rest) =
     (case jws rest of
        [] \<Rightarrow> None
      | d # r4 \<Rightarrow>
          if d = L CHR ''}'' then Some (PDict (dict_set acc (PStr k) v), r4)
          else if d = L CHR '','' then jmembers env n (dict_set acc (PStr k) v) (jws r4)
          else None)" if n: "N \<le> n" for n acc
    unfolding item_text_def json_str_def
    using jstr_json_str[OF assms(1), of "lit '': '' @ t @ rest"] N[OF n] ws col
    by (simp del: jval.simps)
  then show thesis by (rule that)
qed

lemma jmembers_join:
  assumes "list_all2 (\<lambda>(k, t) (k', v). k' = PStr k \<and> (\<forall>c \<in> set k. scalar c) \<and> parses env t v) its kvs"
    "its \<noteq> []" "distinct (map fst (acc @ kvs))"
  shows "\<exists>N. \<forall>n \<ge> N. jmembers env n acc (join (lit '', '') (map (\<lambda>(k, t). item_text k t) its) @ L CHR ''}'' # rest)
    = Some (PDict (acc @ kvs), rest)"
  using assms
proof (induction its kvs arbitrary: acc rule: list_all2_induct)
  case (Cons it its kv kvs)
  obtain k t where it: "it = (k, t)" by fastforce
  obtain v where kv: "kv = (PStr k, v)" and k: "\<forall>c \<in> set k. scalar c" and t: "parses env t v"
    using Cons.hyps(1) it by (auto split: prod.splits)
  have new: "dict_set acc (PStr k) v = acc @ [kv]"
    unfolding kv using Cons.prems(2) kv by (intro dict_set_new) auto
  show ?case
  proof (cases its)
    case Nil
    with Cons have [simp]: "kvs = []" by simp
    have "follows (L CHR ''}'' # rest)" by (simp add: follows_def)
    from jmembers_item[OF k t this] obtain N where
      N: "\<And>n acc. N \<le> n \<Longrightarrow> jmembers env (Suc n) acc (item_text k t @ L CHR ''}'' # rest) =
        Some (PDict (dict_set acc (PStr k) v), rest)"
      by (force simp: json_space_def)
    have "jmembers env n acc (item_text k t @ L CHR ''}'' # rest) = Some (PDict (acc @ [kv]), rest)"
      if n: "Suc N \<le> n" for n
      using N[of "n - 1" acc] n new by (cases n) auto
    with Nil it show ?thesis by auto
  next
    case (Cons it' its')
    let ?tl = "join (lit '', '') (map (\<lambda>(k, t). item_text k t) its) @ L CHR ''}'' # rest"
    have "follows (lit '', '' @ ?tl)" by (simp add: follows_def)
    from jmembers_item[OF k t this] obtain N where
      N: "\<And>n acc. N \<le> n \<Longrightarrow> jmembers env (Suc n) acc (item_text k t @ lit '', '' @ ?tl) =
        jmembers env n (dict_set acc (PStr k) v) (jws (L CHR '' '' # ?tl))"
      by (force simp: json_space_def)
    obtain M where M: "\<And>n. M \<le> n \<Longrightarrow> jmembers env n (acc @ [kv]) ?tl = Some (PDict ((acc @ [kv]) @ kvs), rest)"
      using Cons.IH[of "acc @ [kv]"] Cons.prems(2) Cons by auto
    obtain c q where "?tl = c # q" "c = quote"
      using Cons by (cases it'; cases its') (auto simp: item_text_def json_str_def)
    then have tl: "jws (L CHR '' '' # ?tl) = ?tl" by (simp add: json_space_def quote_def)
    have "jmembers env n acc (item_text k t @ lit '', '' @ ?tl) = Some (PDict (acc @ kv # kvs), rest)"
      if n: "Suc (max N M) \<le> n" for n
    proof -
      obtain m where m: "n = Suc m" "N \<le> m" "M \<le> m" using n by (cases n) auto
      show ?thesis using N[OF m(2), of acc] M[OF m(3)] new m(1) unfolding tl by simp
    qed
    with Cons it show ?thesis by auto
  qed
qed simp

lemma parses_dict:
  assumes "list_all2 (\<lambda>(k, t) (k', v). k' = PStr k \<and> (\<forall>c \<in> set k. scalar c) \<and> parses env t v) its kvs"
    "distinct (map fst kvs)"
  shows "parses env (brackets ''{'' (map (\<lambda>(k, t). item_text k t) its) ''}'') (PDict kvs)"
proof (cases its)
  case Nil
  with assms show ?thesis unfolding brackets_def
    by (intro parsesI[where N = 0]) (auto simp: json_space_def uchr_65279 quote_def)
next
  case (Cons it its')
  have j: "\<exists>q'. join (lit '', '') (map (\<lambda>(k, t). item_text k t) its) = quote # q'"
    using Cons by (cases it; cases its') (auto simp: item_text_def json_str_def)
  have "\<exists>N. \<forall>n \<ge> N. jval env n (brackets ''{'' (map (\<lambda>(k, t). item_text k t) its) ''}'' @ rest) = Some (PDict kvs, rest)" for rest
  proof -
    obtain N where N: "\<And>n. N \<le> n \<Longrightarrow>
        jmembers env n [] (join (lit '', '') (map (\<lambda>(k, t). item_text k t) its) @ L CHR ''}'' # rest) = Some (PDict kvs, rest)"
      using jmembers_join[OF assms(1), of "[]" rest] assms(2) Cons by auto
    have "jval env n (brackets ''{'' (map (\<lambda>(k, t). item_text k t) its) ''}'' @ rest) = Some (PDict kvs, rest)" if n: "Suc N \<le> n" for n
      using N[of "n - 1"] n j by (cases n) (auto simp: brackets_def quote_def json_space_def)
    then show ?thesis by blast
  qed
  then show ?thesis
    by (auto simp: parses_def brackets_def json_space_def uchr_65279)
qed

lemma dumps_parses:
  "\<not> srt \<Longrightarrow> jsonable v \<Longrightarrow> \<exists>t. dumps srt v = Some t \<and> parses env t v"
  "\<not> srt \<Longrightarrow> \<forall>v \<in> set vs. jsonable v \<Longrightarrow> \<exists>ts. dumps_list srt vs = Some ts \<and> list_all2 (parses env) ts vs"
  "\<not> srt \<Longrightarrow> \<forall>(k, v) \<in> set kvs. str_key k \<noteq> None \<and> (\<forall>c \<in> set (the (str_key k)). scalar c) \<and> jsonable v \<Longrightarrow>
     \<exists>its. dumps_items srt kvs = Some (map (\<lambda>(k, t). (PStr k, item_text k t)) its) \<and>
       list_all2 (\<lambda>(k, t) (k', v). k' = PStr k \<and> (\<forall>c \<in> set k. scalar c) \<and> parses env t v) its kvs"
proof (induction srt v and srt vs and srt kvs rule: dumps_dumps_list_dumps_items.induct)
  case (10 srt kvs)
  then obtain its where i: "dumps_items srt kvs = Some (map (\<lambda>(k, t). (PStr k, item_text k t)) its)"
    "list_all2 (\<lambda>(k, t) (k', v). k' = PStr k \<and> (\<forall>c \<in> set k. scalar c) \<and> parses env t v) its kvs"
    by auto
  have "dumps srt (PDict kvs) = Some (brackets ''{'' (map (\<lambda>(k, t). item_text k t) its) ''}'')"
    using i(1) "10.prems" by (simp add: comp_def case_prod_unfold)
  moreover have "distinct (map fst kvs)" using "10.prems" by simp
  ultimately show ?case using parses_dict[OF i(2)] by blast
next
  case (15 srt k v kvs)
  obtain s where k: "k = PStr s" using "15.prems" by (cases k) auto
  obtain t where t: "dumps srt v = Some t" "parses env t v"
    using "15.IH"(1)[of s] "15.prems" k by auto
  obtain its where "dumps_items srt kvs = Some (map (\<lambda>(k, t). (PStr k, item_text k t)) its)"
    "list_all2 (\<lambda>(k, t) (k', v). k' = PStr k \<and> (\<forall>c \<in> set k. scalar c) \<and> parses env t v) its kvs"
    using "15.IH"(2)[of s t] "15.prems" k t(1) by auto
  with k t "15.prems" show ?case
    by (intro exI[of _ "(s, t) # its"]) (simp add: item_text_def)
qed (auto simp: parses_str parses_int parses_word[simplified] parses_list)

theorem json_roundtrip:
  assumes "jsonable v"
  shows "\<exists>t. dumps False v = Some t \<and> json_loads env t = Some v"
proof -
  obtain t where t: "dumps False v = Some t" "parses env t v"
    using dumps_parses(1)[of False v env] assms by auto
  obtain c q where c: "t = c # q" "\<not> json_space c" "c \<noteq> uchr 65279"
    using t(2) by (auto elim: parsesE)
  have "follows []" by (simp add: follows_def)
  then obtain N where N: "\<And>n. N \<le> n \<Longrightarrow> jval env n t = Some (v, [])"
    using parses_at[OF t(2)] by (metis append_Nil2)
  have "jval env (max N (2 * length t + 2)) t = jval env (2 * length t + 2) t"
    by (intro fuel_enough) simp_all
  then have "jval env (2 * length t + 2) t = Some (v, [])" using N by simp
  then have "json_loads env t = Some v"
    using c by (simp add: json_loads_def del: jval.simps)
  with t(1) show ?thesis by blast
qed


section \<open>The normal form of sorted printing\<close>

text \<open>\<open>jnorm v\<close>: the items of every dictionary of \<open>v\<close> in the order of their keys.\<close>

definition key_of :: "pyval \<times> 'a \<Rightarrow> ustr" where
  "key_of kv = the (str_key (fst kv))"

fun jnorm :: "pyval \<Rightarrow> pyval" where
  "jnorm (PList vs) = PList (map jnorm vs)"
| "jnorm (PDict kvs) = PDict (sort_key key_of (map (\<lambda>(k, v). (k, jnorm v)) kvs))"
| "jnorm v = v"

lemma insort_key_map: "insort_key f (g x) (map g xs) = map g (insort_key (\<lambda>x. f (g x)) x xs)"
  by (induction xs) auto

lemma sort_key_map: "sort_key f (map g xs) = map g (sort_key (\<lambda>x. f (g x)) xs)"
  by (induction xs) (simp_all add: insort_key_map)

lemma dumps_items_str:
  assumes "\<And>k v. (k, v) \<in> set kvs \<Longrightarrow> str_key k \<noteq> None \<and> dumps srt v = Some (h v)"
  shows "dumps_items srt kvs = Some (map (\<lambda>(k, v). (k, item_text (the (str_key k)) (h v))) kvs)"
  using assms
proof (induction kvs)
  case (Cons kv kvs)
  obtain k v where kv: "kv = (k, v)" by fastforce
  obtain s where "k = PStr s" using Cons.prems[of k v] kv by (cases k) auto
  moreover have "dumps_items srt kvs = Some (map (\<lambda>(k, v). (k, item_text (the (str_key k)) (h v))) kvs)"
    by (rule Cons.IH) (use Cons.prems in auto)
  moreover have "dumps srt v = Some (h v)" using Cons.prems[of k v] kv by simp
  ultimately show ?case by (simp add: kv item_text_def)
qed simp

lemma dumps_list_map:
  assumes "\<And>v. v \<in> set vs \<Longrightarrow> dumps srt v = Some (h v)"
  shows "dumps_list srt vs = Some (map h vs)"
  using assms by (induction vs) auto

lemma sort_items_str:
  assumes "\<forall>(k, _) \<in> set its. str_key k \<noteq> None"
  shows "sort_items its = Some (sort_key key_of its)"
proof -
  have "(\<lambda>(k, _). the (str_key k)) = (key_of :: pyval \<times> ustr \<Rightarrow> ustr)"
    by (auto simp: key_of_def fun_eq_iff)
  moreover have "sort_key key_of its = its" if "length its \<le> 1"
    using that by (cases its) auto
  ultimately show ?thesis using assms by (simp add: sort_items_def)
qed

lemma jsonable_jnorm: "jsonable v \<Longrightarrow> jsonable (jnorm v)"
proof (induction v rule: jnorm.induct)
  case (2 kvs)
  let ?m = "map (\<lambda>(k, v). (k, jnorm v)) kvs"
  have "mset (map fst (sort_key key_of ?m)) = mset (map fst kvs)"
    by (simp add: mset_map multiset.map_comp comp_def case_prod_unfold)
  then have "distinct (map fst (sort_key key_of ?m))"
    using "2.prems" by (metis distinct_count_atmost_1 jsonable.simps(6) mset_eq_imp_distinct_iff)
  with 2 show ?case by fastforce
qed auto

lemma dumps_jnorm:
  "jsonable v \<Longrightarrow> \<exists>t. dumps True v = Some t \<and> dumps False (jnorm v) = Some t"
proof (induction v rule: jnorm.induct)
  case (1 vs)
  then have "\<forall>v. \<exists>t. v \<in> set vs \<longrightarrow> dumps True v = Some t \<and> dumps False (jnorm v) = Some t" by auto
  then obtain h where h: "\<And>v. v \<in> set vs \<Longrightarrow> dumps True v = Some (h v) \<and> dumps False (jnorm v) = Some (h v)"
    by metis
  have "dumps_list False (map jnorm vs) = Some (map h vs)"
    using h by (induction vs) auto
  moreover have "dumps_list True vs = Some (map h vs)" using h by (intro dumps_list_map) auto
  ultimately show ?case by simp
next
  case (2 kvs)
  then have "\<forall>v. \<exists>t. v \<in> snd ` set kvs \<longrightarrow> dumps True v = Some t \<and> dumps False (jnorm v) = Some t" by auto
  then obtain h where h: "\<And>v. v \<in> snd ` set kvs \<Longrightarrow> dumps True v = Some (h v) \<and> dumps False (jnorm v) = Some (h v)"
    by metis
  let ?it = "\<lambda>(k, v). (k, item_text (the (str_key k)) (h v))"
  let ?srt = "sort_key key_of kvs"
  have ko: "(\<lambda>x. key_of (?it x)) = key_of" "(\<lambda>x. key_of ((\<lambda>(k, v). (k, jnorm v)) x)) = key_of"
    by (auto simp: key_of_def fun_eq_iff)
  have strs: "str_key k \<noteq> None" if "(k, v) \<in> set kvs" for k v using "2.prems" that by fastforce
  have "dumps_items True kvs = Some (map ?it kvs)"
    using h strs by (intro dumps_items_str) force
  moreover have "sort_items (map ?it kvs) = Some (map ?it ?srt)"
    using strs by (subst sort_items_str) (auto simp: sort_key_map ko simp del: not_None_eq)
  moreover have "dumps_items False (map (\<lambda>(k, v). (k, jnorm v)) ?srt) = Some (map ?it ?srt)"
  proof -
    have "dumps_items False (map (\<lambda>(k, v). (k, jnorm v)) xs) = Some (map ?it xs)" if "set xs \<subseteq> set kvs" for xs
      using that
    proof (induction xs)
      case (Cons x xs)
      obtain k v where x: "x = (k, v)" by fastforce
      with Cons.prems have "str_key k \<noteq> None" "v \<in> snd ` set kvs" using strs by (auto intro: rev_image_eqI)
      moreover then obtain s where "k = PStr s" by (cases k) auto
      ultimately show ?case using Cons x h[of v] by (simp add: item_text_def)
    qed simp
    then show ?thesis by simp
  qed
  ultimately show ?case by (simp add: sort_key_map ko)
qed auto

theorem sorted_dumps_eq_iff:
  assumes "jsonable v" "jsonable w"
  shows "dumps True v = dumps True w \<longleftrightarrow> jnorm v = jnorm w"
proof
  assume "dumps True v = dumps True w"
  moreover obtain t where "dumps True v = Some t" "dumps False (jnorm v) = Some t"
    using dumps_jnorm[OF assms(1)] by blast
  moreover obtain u where "dumps True w = Some u" "dumps False (jnorm w) = Some u"
    using dumps_jnorm[OF assms(2)] by blast
  ultimately show "jnorm v = jnorm w"
    using json_roundtrip[OF jsonable_jnorm[OF assms(1)]] json_roundtrip[OF jsonable_jnorm[OF assms(2)]]
    by (metis option.inject)
next
  assume "jnorm v = jnorm w"
  then show "dumps True v = dumps True w"
    using dumps_jnorm[OF assms(1)] dumps_jnorm[OF assms(2)] by auto
qed

end
