(* ===== verification/ObjectScan.thy ===== *)
theory ObjectScan
  imports ToolExtract
begin

text \<open>
  Facts on the brace scanner \<open>_balanced_object_spans\<close> of \<open>litellm/fix_tool_messages.py\<close>: the
  spans lie in order inside the text, each from an opening to a closing brace, and an object
  printed as JSON, whatever its strings contain, is found whole.
\<close>

section \<open>The scanner: objects in order, inside the text\<close>

lemma scan_append:
  "scan i (s @ t) st =
     (let (st1, ys) = scan i s st; (st2, zs) = scan (i + length s) t st1 in (st2, ys @ zs))"
  by (induction i s st rule: scan.induct) (auto simp: Let_def split: prod.splits)

definition scan_inv :: "nat \<Rightarrow> ustr \<Rightarrow> scan_state \<Rightarrow> bool" where
  "scan_inv lo p st \<longleftrightarrow> lo \<le> length p \<and>
     (start st = - 1 \<or>
      int lo \<le> start st \<and> start st < int (length p) \<and> p ! nat (start st) = L CHR ''{'')"

lemma scan_inv_keep:
  "scan_inv lo p st \<Longrightarrow> start st' = start st \<Longrightarrow> scan_inv lo (p @ [c]) st'"
  by (auto simp: scan_inv_def nth_append)

lemma scan_step_inv:
  assumes "scan_inv lo p st" "scan_step (length p) c st = (st', ys)"
  shows "(ys = [] \<and> scan_inv lo (p @ [c]) st') \<or>
    (\<exists>b. ys = [(b, Suc (length p))] \<and> lo \<le> b \<and> b \<le> length p \<and> (p @ [c]) ! b = L CHR ''{'' \<and>
       c = L CHR ''}'' \<and> scan_inv (Suc (length p)) (p @ [c]) st')"
proof (cases "escape st \<or> in_str st \<or> (c \<noteq> L CHR ''{'' \<and> c \<noteq> L CHR ''}'')")
  case True
  then have "ys = [] \<and> start st' = start st"
    using assms(2) by (auto simp: scan_step_def split: if_splits)
  with scan_inv_keep[OF assms(1)] show ?thesis by simp
next
  case False
  show ?thesis
  proof (cases "c = L CHR ''{''")
    case True
    with False assms(2) have "ys = []" "start st' = (if depth st = 0 then int (length p) else start st)"
      by (auto simp: scan_step_def quote_def split: if_splits)
    with assms(1) True show ?thesis by (auto simp: scan_inv_def nth_append)
  next
    case close: False
    with False have c: "c = L CHR ''}''" by simp
    with False assms(2) have step: "(if depth st - 1 = 0 \<and> 0 \<le> start st
        then start st' = - 1 \<and> ys = [(nat (start st), Suc (length p))]
        else start st' = start st \<and> ys = [])"
      by (auto simp: scan_step_def quote_def Let_def)
    show ?thesis
    proof (cases "depth st - 1 = 0 \<and> 0 \<le> start st")
      case True
      with step assms(1) c show ?thesis
        by (auto simp: scan_inv_def nth_append intro!: exI[of _ "nat (start st)"])
    next
      case False
      with step scan_inv_keep[OF assms(1)] show ?thesis by auto
    qed
  qed
qed

text \<open>What a span found in \<open>t\<close> is: it opens with a brace and closes with one.\<close>

definition braced :: "ustr \<Rightarrow> nat \<times> nat \<Rightarrow> bool" where
  "braced t be \<longleftrightarrow> (case be of (b, e) \<Rightarrow> t ! b = L CHR ''{'' \<and> t ! (e - 1) = L CHR ''}'')"

lemma scan_spans:
  assumes "scan_inv lo p st"
  shows "spans_ok lo (length p + length s) (snd (scan (length p) s st)) \<and>
    (\<forall>be \<in> set (snd (scan (length p) s st)). braced (p @ s) be)"
  using assms
proof (induction s arbitrary: lo p st)
  case Nil
  then show ?case by (auto simp: scan_inv_def)
next
  case (Cons c s)
  obtain st1 ys where s1: "scan_step (length p) c st = (st1, ys)" by fastforce
  obtain st2 zs where s2: "scan (Suc (length p)) s st1 = (st2, zs)" by fastforce
  have IH: "spans_ok lo' (length p + length (c # s)) zs \<and> (\<forall>be \<in> set zs. braced (p @ c # s) be)"
    if "scan_inv lo' (p @ [c]) st1" for lo'
    using Cons.IH[OF that] s2 by simp
  from scan_step_inv[OF Cons.prems s1] show ?case
  proof
    assume "ys = [] \<and> scan_inv lo (p @ [c]) st1"
    with IH s1 s2 show ?thesis by auto
  next
    assume "\<exists>b. ys = [(b, Suc (length p))] \<and> lo \<le> b \<and> b \<le> length p \<and> (p @ [c]) ! b = L CHR ''{'' \<and>
       c = L CHR ''}'' \<and> scan_inv (Suc (length p)) (p @ [c]) st1"
    then obtain b where b: "ys = [(b, Suc (length p))]" "lo \<le> b" "b \<le> length p"
      "(p @ [c]) ! b = L CHR ''{''" "c = L CHR ''}''" "scan_inv (Suc (length p)) (p @ [c]) st1"
      by blast
    have "(p @ c # s) ! b = (p @ [c]) ! b" using b(3) by (simp add: nth_append)
    then have "braced (p @ c # s) (b, Suc (length p))" using b by (simp add: braced_def nth_append)
    with IH[OF b(6)] b s1 s2 show ?thesis by simp
  qed
qed

lemma balanced_object_spans_ok:
  "spans_ok 0 (length s) (balanced_object_spans s)"
  "be \<in> set (balanced_object_spans s) \<Longrightarrow> braced s be"
  using scan_spans[of 0 "[]" scan_init s]
  by (auto simp: balanced_object_spans_def scan_inv_def scan_init_def)

section \<open>The scanner: printed objects are found whole\<close>

text \<open>Outside any string; text the scanner passes over inside an object; text it ignores.\<close>

definition outside :: "scan_state \<Rightarrow> bool" where
  "outside st \<longleftrightarrow> \<not> in_str st \<and> \<not> escape st"

definition inert :: "ustr \<Rightarrow> bool" where
  "inert t \<longleftrightarrow>
     (\<forall>i st. outside st \<and> 1 \<le> depth st \<longrightarrow> (\<exists>q. scan i t st = (st\<lparr>str_quote := q\<rparr>, [])))"

definition plain_char :: "uchar \<Rightarrow> bool" where
  "plain_char c \<longleftrightarrow> c \<noteq> quote \<and> c \<notin> {L CHR 0x27, L CHR ''{'', L CHR ''}''}"

lemma scan_plain:
  "\<forall>c \<in> set s. plain_char c \<Longrightarrow> outside st \<Longrightarrow> scan i s st = (st, [])"
  by (induction s arbitrary: i) (auto simp: scan_step_def plain_char_def outside_def)

lemma str_quote_same: "(st :: scan_state) = st\<lparr>str_quote := str_quote st\<rparr>"
  by simp

lemma inert_plain: "\<forall>c \<in> set s. plain_char c \<Longrightarrow> inert s"
  unfolding inert_def using scan_plain str_quote_same by metis

lemma inert_Nil [simp]: "inert []"
  by (rule inert_plain) simp

lemma inert_append:
  assumes "inert s" "inert t"
  shows "inert (s @ t)"
  unfolding inert_def
proof (intro allI impI)
  fix i and st :: scan_state assume st: "outside st \<and> 1 \<le> depth st"
  with assms(1) obtain q where q: "scan i s st = (st\<lparr>str_quote := q\<rparr>, [])"
    unfolding inert_def by blast
  have "outside (st\<lparr>str_quote := q\<rparr>) \<and> 1 \<le> depth (st\<lparr>str_quote := q\<rparr>)"
    using st by (simp add: outside_def)
  with assms(2) obtain q' where
    "scan (i + length s) t (st\<lparr>str_quote := q\<rparr>) = (st\<lparr>str_quote := q\<rparr>\<lparr>str_quote := q'\<rparr>, [])"
    unfolding inert_def by blast
  with q show "\<exists>q. scan i (s @ t) st = (st\<lparr>str_quote := q\<rparr>, [])"
    by (auto simp: scan_append Let_def)
qed

lemma inert_join: "(\<And>t. t \<in> set ts \<Longrightarrow> inert t) \<Longrightarrow> inert sep \<Longrightarrow> inert (join sep ts)"
  by (induction sep ts rule: join.induct) (auto intro: inert_append)

lemma hex_char_not: "d < 16 \<Longrightarrow> hex_char d \<noteq> quote \<and> hex_char d \<noteq> L CHR 0x5C"
proof -
  assume "d < 16"
  then have "hex_val (hex_char d) = Some d" by (rule hex_val_char)
  moreover have "hex_val quote = None" "hex_val (L CHR 0x5C) = None" by code_simp+
  ultimately show ?thesis by auto
qed

lemma scan_json_char:
  assumes "in_str st" "\<not> escape st" "str_quote st = Some quote"
  shows "scan i (json_char c) st = (st, [])"
proof -
  have plain: "scan i s st = (st, [])" if "\<forall>c \<in> set s. c \<noteq> quote \<and> c \<noteq> L CHR 0x5C" for i s
    using that assms by (induction s arbitrary: i) (auto simp: scan_step_def)
  have same: "st\<lparr>escape := False\<rparr> = st" using assms by (cases st) simp
  have esc: "scan i (L CHR 0x5C # d # s) st = (st, [])" if "\<forall>c \<in> set s. c \<noteq> quote \<and> c \<noteq> L CHR 0x5C" for i d s
    using plain[OF that] assms by (simp add: scan_step_def same)
  have hex: "scan i (u_escape n) st = (st, [])" for i n
  proof -
    have "scan i (L CHR 0x5C # L CHR ''u'' # hex4 n) st = (st, [])"
      by (rule esc) (simp add: hex4_def hex_char_not)
    then show ?thesis by (simp add: u_escape_def del: scan.simps)
  qed
  show ?thesis
    using esc[of "[]"] hex plain[of "[c]"]
    by (simp add: json_char_def scan_append del: scan.simps)
qed

lemma inert_json_str: "inert (json_str s)"
  unfolding inert_def
proof (intro allI impI)
  fix i and st :: scan_state assume st: "outside st \<and> 1 \<le> depth st"
  let ?st = "st\<lparr>in_str := True, str_quote := Some quote\<rparr>"
  have body: "scan i (concat (map json_char s)) ?st = (?st, [])" for i
    using st by (induction s arbitrary: i) (simp_all add: scan_append scan_json_char outside_def)
  have "scan_step i quote st = (?st, [])" "\<And>i. scan_step i quote ?st = (st\<lparr>str_quote := Some quote\<rparr>, [])"
    using st by (auto simp: scan_step_def outside_def quote_def)
  with body show "\<exists>q. scan i (json_str s) st = (st\<lparr>str_quote := q\<rparr>, [])"
    by (auto simp: json_str_def scan_append intro: exI[where x = "Some quote"])
qed

lemma inert_object:
  assumes "inert t"
  shows "inert (lit ''{'' @ t @ lit ''}'')"
  unfolding inert_def
proof (intro allI impI)
  fix i and st :: scan_state assume st: "outside st \<and> 1 \<le> depth st"
  let ?st = "st\<lparr>depth := depth st + 1\<rparr>"
  have "scan_step i (L CHR ''{'') st = (?st, [])"
    using st by (simp add: scan_step_def outside_def quote_def)
  moreover obtain q where "scan (Suc i) t ?st = (?st\<lparr>str_quote := q\<rparr>, [])"
    using assms st unfolding inert_def by (force simp: outside_def)
  moreover have "scan_step j (L CHR ''}'') (?st\<lparr>str_quote := q\<rparr>) = (st\<lparr>str_quote := q\<rparr>, [])" for j
    using st by (simp add: scan_step_def outside_def quote_def Let_def)
  ultimately show "\<exists>q. scan i (lit ''{'' @ t @ lit ''}'') st = (st\<lparr>str_quote := q\<rparr>, [])"
    by (auto simp: scan_append)
qed

lemma scan_object:
  assumes "inert t" "outside st" "depth st = 0"
  shows "\<exists>st'. scan i (lit ''{'' @ t @ lit ''}'') st = (st', [(i, i + length t + 2)]) \<and>
    outside st' \<and> depth st' = 0"
proof -
  let ?st = "st\<lparr>start := int i, depth := 1\<rparr>"
  have "scan_step i (L CHR ''{'') st = (?st, [])"
    using assms by (simp add: scan_step_def outside_def quote_def)
  moreover obtain q where "scan (Suc i) t ?st = (?st\<lparr>str_quote := q\<rparr>, [])"
    using assms unfolding inert_def by (force simp: outside_def)
  moreover have "scan_step j (L CHR ''}'') (?st\<lparr>str_quote := q\<rparr>) =
      (?st\<lparr>str_quote := q, depth := 0, start := - 1\<rparr>, [(i, j + 1)])" for j
    using assms by (simp add: scan_step_def outside_def quote_def Let_def)
  ultimately show ?thesis using assms by (auto simp: scan_append outside_def)
qed

section \<open>Printed values\<close>

lemma inert_int: "inert (int_text i)"
proof (rule inert_plain, intro ballI)
  fix c assume "c \<in> set (int_text i)"
  then have "ascii_digit c \<or> c = L CHR ''-''"
    by (auto simp: int_text_def dest: nat_text_digits split: if_splits)
  then show "plain_char c"
    by (auto simp: plain_char_def ascii_digit_def quote_def)
qed

lemma inert_sep: "inert (lit '', '')" "inert (lit '': '')"
  by (rule inert_plain, simp add: plain_char_def quote_def)+

lemma inert_item: "inert t \<Longrightarrow> inert (item_text k t)"
  unfolding item_text_def by (intro inert_append inert_json_str inert_sep)

lemma inert_brackets: "(\<And>t. t \<in> set ts \<Longrightarrow> inert t) \<Longrightarrow> inert (brackets ''['' ts '']'')"
  unfolding brackets_def
  by (intro inert_append inert_join inert_sep) (auto intro: inert_plain simp: plain_char_def quote_def)

lemma inert_words: "inert (lit ''null'')" "inert (lit ''true'')" "inert (lit ''false'')"
  by (rule inert_plain, simp add: plain_char_def quote_def)+

lemma inert_dumps:
  "\<not> srt \<Longrightarrow> jsonable v \<Longrightarrow> dumps srt v = Some t \<Longrightarrow> inert t"
  "\<not> srt \<Longrightarrow> \<forall>v \<in> set vs. jsonable v \<Longrightarrow> dumps_list srt vs = Some ts \<Longrightarrow> \<forall>t \<in> set ts. inert t"
  "\<not> srt \<Longrightarrow> \<forall>(k, v) \<in> set kvs. jsonable v \<Longrightarrow> dumps_items srt kvs = Some its \<Longrightarrow>
     \<forall>it \<in> set its. inert (snd it)"
proof (induction srt v and srt vs and srt kvs arbitrary: t and ts and its
    rule: dumps_dumps_list_dumps_items.induct)
  case (10 srt kvs)
  then obtain its where i: "dumps_items srt kvs = Some its"
    "t = lit ''{'' @ join (lit '', '') (map snd its) @ lit ''}''"
    by (auto simp: brackets_def)
  moreover have "\<forall>(k, v) \<in> set kvs. jsonable v" using "10.prems"(2) by fastforce
  ultimately have "\<forall>it \<in> set its. inert (snd it)" using "10.IH" "10.prems"(1) by blast
  then show ?case unfolding i(2) by (intro inert_object inert_join inert_sep) auto
next
  case (15 srt k v kvs)
  from "15.prems"(3) obtain kt t its' where s: "key_text k = Some kt" "dumps srt v = Some t"
    "dumps_items srt kvs = Some its'" "its = (k, item_text kt t) # its'"
    by (auto simp: bind_eq_Some_conv item_text_def)
  with 15 show ?case by (auto intro: inert_item)
qed (auto simp: inert_words[simplified] inert_json_str inert_int bind_eq_Some_conv intro: inert_brackets)


section \<open>Objects woven into plain text\<close>

definition object_text :: "ustr \<Rightarrow> bool" where
  "object_text t \<longleftrightarrow> (\<exists>u. t = lit ''{'' @ u @ lit ''}'' \<and> inert u)"

lemma object_text_dumps:
  assumes "jsonable (PDict d)" "dumps False (PDict d) = Some t"
  shows "object_text t"
proof -
  from assms(2) obtain its where i: "dumps_items False d = Some its"
    "t = lit ''{'' @ join (lit '', '') (map snd its) @ lit ''}''"
    by (auto simp: brackets_def)
  moreover have "\<forall>(k, v) \<in> set d. jsonable v" using assms(1) by fastforce
  ultimately have "\<forall>it \<in> set its. inert (snd it)" using inert_dumps(3)[of False d its] by blast
  then have "inert (join (lit '', '') (map snd its))" by (intro inert_join inert_sep) auto
  with i(2) show ?thesis unfolding object_text_def by blast
qed

definition woven :: "(ustr \<times> ustr) list \<Rightarrow> ustr \<Rightarrow> ustr" where
  "woven segs post = concat (map (\<lambda>(g, t). g @ t) segs) @ post"

lemma woven_simps [simp]:
  "woven [] post = post" "woven ((g, t) # segs) post = g @ t @ woven segs post"
  by (simp_all add: woven_def)

fun woven_spans :: "nat \<Rightarrow> (ustr \<times> ustr) list \<Rightarrow> (nat \<times> nat) list" where
  "woven_spans i [] = []"
| "woven_spans i ((g, t) # segs) =
     (i + length g, i + length g + length t) # woven_spans (i + length g + length t) segs"

definition plain :: "ustr \<Rightarrow> bool" where
  "plain s \<longleftrightarrow> (\<forall>c \<in> set s. plain_char c)"

lemma scan_woven:
  assumes "\<forall>(g, t) \<in> set segs. plain g \<and> object_text t" "plain post" "outside st" "depth st = 0"
  shows "snd (scan i (woven segs post) st) = woven_spans i segs"
  using assms
proof (induction segs arbitrary: i st)
  case Nil
  then show ?case by (simp add: scan_plain plain_def)
next
  case (Cons seg segs)
  obtain g t where seg: "seg = (g, t)" by fastforce
  then obtain u where u: "t = lit ''{'' @ u @ lit ''}''" "inert u"
    using Cons.prems by (auto simp: object_text_def)
  obtain st' where st': "scan (i + length g) t st = (st', [(i + length g, i + length g + length u + 2)])"
    "outside st'" "depth st' = 0"
    using scan_object[OF u(2) Cons.prems(3,4), of "i + length g"] u(1) by auto
  have "length t = length u + 2" using u(1) by simp
  moreover have "scan i g st = (st, [])"
    using Cons.prems seg by (intro scan_plain) (auto simp: plain_def)
  moreover have "snd (scan (i + length g + length t) (woven segs post) st') =
      woven_spans (i + length g + length t) segs"
    using Cons.prems st' by (intro Cons.IH) auto
  ultimately show ?case
    using st' by (simp add: seg scan_append[of i g] scan_append[of _ t] Let_def case_prod_unfold)
qed

lemma woven_slices:
  "i = length p \<Longrightarrow> map (\<lambda>(b, e). slice b e (p @ woven segs post)) (woven_spans i segs) = map snd segs"
proof (induction segs arbitrary: i p)
  case (Cons seg segs)
  obtain g t where seg: "seg = (g, t)" by fastforce
  have "map (\<lambda>(b, e). slice b e ((p @ g @ t) @ woven segs post))
      (woven_spans (length p + length g + length t) segs) = map snd segs"
    by (rule Cons.IH) simp
  moreover have "slice (length p + length g) (length p + length g + length t)
      (p @ g @ t @ woven segs post) = t"
    by (simp add: slice_def)
  ultimately show ?case using Cons.prems by (simp add: seg)
qed simp

lemma balanced_woven:
  assumes "\<forall>(g, t) \<in> set segs. plain g \<and> object_text t" "plain post"
  shows "map (\<lambda>(b, e). slice b e (woven segs post)) (balanced_object_spans (woven segs post)) = map snd segs"
proof -
  have "balanced_object_spans (woven segs post) = woven_spans 0 segs"
    unfolding balanced_object_spans_def
    using assms by (intro scan_woven) (auto simp: scan_init_def outside_def)
  with woven_slices[of 0 "[]" segs post] show ?thesis by simp
qed

end
