(* ===== verification/ExtractFacts.thy ===== *)
theory ExtractFacts
  imports ObjectScan
begin

text \<open>
  What the extraction of \<open>litellm/fix_tool_messages.py\<close> guarantees: tagged calls and bare
  objects are all read, in order; every call read was written in the reply; arguments survive
  the trip. The pairs of tags share one locale.
\<close>

section \<open>Blocks between tags\<close>

lemma few1_any:
  assumes "s \<noteq> []"
  shows "mt (Grp n (rx_few1 any_char)) (i, s, g) =
    map (\<lambda>k. (i + k, drop k s, (n, take k s) # g)) [1..<Suc (length s)]"
proof (cases s)
  case (Cons c s')
  have "[1..<Suc (length s)] = map Suc [0..<Suc (length s')]"
    by (simp only: Cons list.size add_Suc_right add_0_right map_Suc_upt One_nat_def)
  then show ?thesis
    by (simp add: Cons rx_few1_def any_char runs_any rev_map comp_def del: upt_Suc)
qed (use assms in simp)

text \<open>
  An opening and a closing tag: each starts with the one \<open><\<close> it has, and the closing one has
  no white space.
\<close>

locale tag_pair =
  fixes op cl :: string and op' cl' :: string
  assumes op: "op = CHR ''<'' # op'" and cl: "cl = CHR ''<'' # cl'"
    and cl_one: "CHR ''<'' \<notin> set cl'" and cl_nospace: "\<forall>c \<in> set (lit cl). \<not> py_space c"
begin

abbreviation pat :: rx where
  "pat \<equiv> tag_rx op cl"

abbreviation lt :: uchar where
  "lt \<equiv> L CHR ''<''"

text \<open>The closing tag does not begin inside a text without it, nor in the white space after.\<close>

lemma no_early_close:
  assumes "\<not> occurs (lit cl) t" "\<forall>c \<in> set ws. py_space c" "j < length t + length ws"
  shows "\<not> prefix (lit cl) (drop j (t @ ws @ lit cl @ rest))"
proof
  assume p: "prefix (lit cl) (drop j (t @ ws @ lit cl @ rest))"
  have at: "(t @ ws @ lit cl @ rest) ! (j + k) = lit cl ! k" if "k < length cl" for k
  proof -
    obtain v where v: "drop j (t @ ws @ lit cl @ rest) = lit cl @ v" using p by (auto simp: prefix_def)
    then have "drop j (t @ ws @ lit cl @ rest) ! k = lit cl ! k" using that by (simp add: nth_append)
    moreover have "drop j (t @ ws @ lit cl @ rest) ! k = (t @ ws @ lit cl @ rest) ! (j + k)"
      using assms(3) by (intro nth_drop) simp
    ultimately show ?thesis by simp
  qed
  show False
  proof (cases "j + length cl \<le> length t")
    case True
    have "take (length cl) (drop j t) = lit cl"
      by (rule nth_equalityI) (use True at in \<open>auto simp: nth_append\<close>)
    then have "t = take j t @ lit cl @ drop (length cl) (drop j t)"
      by (metis append_take_drop_id)
    with assms(1) show False by (metis occurs_iff)
  next
    case False
    show False
    proof (cases "ws = []")
      case True
      let ?k = "length t - j"
      have "?k < length cl" "0 < ?k" using False assms(3) True by auto
      then obtain m where m: "?k = Suc m" "m < length cl'" using cl by (cases ?k) auto
      have "lit cl ! ?k = lt" using at[of ?k] \<open>?k < length cl\<close> \<open>0 < ?k\<close> True cl by (simp add: nth_append)
      then have "cl' ! m = CHR ''<''" using m cl by simp
      with m cl_one show False by (metis nth_mem)
    next
      case ws: False
      show False
      proof (cases "length t \<le> j")
        case True
        have "j - length t < length ws" using assms(3) True by simp
        then have "lit cl ! 0 = ws ! (j - length t)" using at[of 0] cl True by (simp add: nth_append)
        moreover have "py_space (ws ! (j - length t))" using assms(2,3) True by simp
        ultimately show False using cl_nospace cl by simp
      next
        case jt: False
        let ?k = "length t - j"
        have k: "?k < length cl" using False jt by simp
        have "lit cl ! ?k = ws ! 0" using at[OF k] ws jt by (simp add: nth_append)
        moreover have "py_space (ws ! 0)" using ws assms(2) by simp
        moreover have "lit cl ! ?k \<in> set (lit cl)" using k by (intro nth_mem) simp
        ultimately show False using cl_nospace by metis
      qed
    qed
  qed
qed

lemma close_skips:
  assumes "\<not> occurs (lit cl) t" "\<forall>c \<in> set ws. py_space c" "t \<noteq> []" "\<not> py_space (last t)" "k < length t"
  shows "mt (Seq (Many py_space) (rx_lit (lit cl))) (i, drop k (t @ ws @ lit cl @ rest), g) = []"
proof -
  let ?T = "t @ ws @ lit cl @ rest"
  have "mt (rx_lit (lit cl)) st = []" if st: "st \<in> set (runs py_space i (drop k ?T) g)" for st
  proof -
    from st obtain u v where u: "drop k ?T = u @ v" "\<forall>c \<in> set u. py_space c" "st = (i + length u, v, g)"
      by (auto simp: set_runs)
    have "k + length u < length t"
    proof (rule ccontr)
      assume "\<not> k + length u < length t"
      then have "length t - 1 - k < length u" using assms(3,5) by linarith
      then have "u ! (length t - 1 - k) = (u @ v) ! (length t - 1 - k)" "u ! (length t - 1 - k) \<in> set u"
        by (simp_all add: nth_append)
      moreover have "drop k ?T ! (length t - 1 - k) = last t"
      proof -
        have "drop k ?T ! (length t - 1 - k) = ?T ! (k + (length t - 1 - k))"
          by (rule nth_drop) (use assms(5) in simp)
        also have "k + (length t - 1 - k) = length t - 1" using assms(5) by simp
        finally show ?thesis using assms(3) by (simp add: nth_append last_conv_nth)
      qed
      ultimately show False using u(1,2) assms(4) by metis
    qed
    then have "\<not> prefix (lit cl) (drop (length u + k) ?T)"
      by (intro no_early_close[OF assms(1,2)]) simp
    moreover have "v = drop (length u + k) ?T" using u(1) by (metis append_eq_conv_conj drop_drop)
    ultimately show ?thesis using u(3) by (simp add: mt_lit)
  qed
  then show ?thesis by simp
qed

lemma match_block:
  assumes "\<forall>c \<in> set ws. py_space c" "\<forall>c \<in> set ws'. py_space c" "\<not> occurs (lit cl) t"
    and "t \<noteq> []" "\<not> py_space (hd t)" "\<not> py_space (last t)"
  shows "\<exists>ms. mt pat (i, lit op @ ws @ t @ ws' @ lit cl @ rest, []) =
    (i + length (lit op @ ws @ t @ ws' @ lit cl), rest, [(1, t)]) # ms"
proof -
  let ?T = "t @ ws' @ lit cl @ rest"
  let ?fin = "Seq (Many py_space) (rx_lit (lit cl))"
  let ?i = "i + length op + length ws"
  obtain ms1 where r1: "runs py_space (i + length op) (ws @ ?T) [] = (?i, ?T, []) # ms1"
    using runs_append[of ws py_space ?T "i + length op" "[]"] assms by auto
  have "mt (Grp 1 (rx_few1 any_char)) (?i, ?T, []) =
      map (\<lambda>k. (?i + k, drop k ?T, [(1, take k ?T)])) [1..<Suc (length ?T)]"
    by (rule few1_any) (use assms in auto)
  also have "[1..<Suc (length ?T)] = [1..<length t] @ length t # [Suc (length t)..<Suc (length ?T)]"
    by (rule upt_split) (use assms(4) in \<open>auto simp: Suc_le_eq\<close>)
  finally have g: "mt (Grp 1 (rx_few1 any_char)) (?i, ?T, []) =
      map (\<lambda>k. (?i + k, drop k ?T, [(1, take k ?T)])) [1..<length t] @
      (?i + length t, ws' @ lit cl @ rest, [(1, t)]) #
      map (\<lambda>k. (?i + k, drop k ?T, [(1, take k ?T)])) [Suc (length t)..<Suc (length ?T)]"
    by simp
  have skip: "mt ?fin st = []" if "st \<in> set (map (\<lambda>k. (?i + k, drop k ?T, [(1::nat, take k ?T)])) [1..<length t])" for st
    using that close_skips[OF assms(3,2,4,6)] by fastforce
  obtain ms2 where "runs py_space (?i + length t) (ws' @ lit cl @ rest) [(1, t)] =
      (?i + length t + length ws', lit cl @ rest, [(1, t)]) # ms2"
    using runs_append[of ws' py_space "lit cl @ rest" "?i + length t" "[(1, t)]"] assms(2) cl_nospace cl by auto
  then obtain ms3 where fin: "mt ?fin (?i + length t, ws' @ lit cl @ rest, [(1, t)]) =
      (?i + length t + length ws' + length (lit cl), rest, [(1, t)]) # ms3"
    by (simp del: mt.simps add: mt.simps(3,5)) 
  let ?F = "\<lambda>k. (?i + k, drop k ?T, [(1::nat, take k ?T)])"
  have "concat (map (mt ?fin) (map ?F [1..<length t] @ (?i + length t, ws' @ lit cl @ rest, [(1, t)]) #
        map ?F [Suc (length t)..<Suc (length ?T)])) =
      mt ?fin (?i + length t, ws' @ lit cl @ rest, [(1, t)]) @
      concat (map (mt ?fin) (map ?F [Suc (length t)..<Suc (length ?T)]))"
    by (rule concat_map_skip) (erule skip)
  then have "\<exists>ms. mt (Seq (Grp 1 (rx_few1 any_char)) ?fin) (?i, ?T, []) =
      (?i + length t + length ws' + length (lit cl), rest, [(1, t)]) # ms"
    by (simp only: mt.simps(3)[of "Grp 1 (rx_few1 any_char)"] g fin append_Cons) blast
  then obtain ms where ms: "mt (Seq (Grp 1 (rx_few1 any_char)) ?fin) (?i, ?T, []) =
      (?i + length t + length ws' + length (lit cl), rest, [(1, t)]) # ms" by blast
  have "mt pat (i, lit op @ ws @ ?T, []) =
      mt (Seq (Many py_space) (Seq (Grp 1 (rx_few1 any_char)) ?fin)) (i + length op, ws @ ?T, [])"
    by (simp only: tag_rx_def rx_seq.simps mt.simps(3)[of "rx_lit (lit op)"] mt_lit_append list.map concat.simps
        append_Nil2 length_map)
  also have "\<dots> = mt (Seq (Grp 1 (rx_few1 any_char)) ?fin) (?i, ?T, []) @
      concat (map (mt (Seq (Grp 1 (rx_few1 any_char)) ?fin)) ms1)"
    by (simp only: mt.simps(3)[of "Many py_space"] mt.simps(5) r1 list.map concat.simps)
  finally have "mt pat (i, lit op @ ws @ ?T, []) =
      (?i + length t + length ws' + length (lit cl), rest, [(1, t)]) #
      (ms @ concat (map (mt (Seq (Grp 1 (rx_few1 any_char)) ?fin)) ms1))"
    by (simp only: ms append_Cons)
  then show ?thesis by (simp add: add.assoc del: mt.simps)
qed

lemma search_block:
  assumes "lt \<notin> set gap" "\<forall>c \<in> set ws. py_space c" "\<forall>c \<in> set ws'. py_space c" "\<not> occurs (lit cl) t"
    and "t \<noteq> []" "\<not> py_space (hd t)" "\<not> py_space (last t)"
  shows "rx_search pat False i (gap @ lit op @ ws @ t @ ws' @ lit cl @ rest) =
    Some (i + length gap, i + length gap + length (lit op @ ws @ t @ ws' @ lit cl), rest, [(1, t)])"
  using assms(1)
proof (induction gap arbitrary: i)
  case Nil
  obtain ms where "mt pat (i, lit op @ ws @ t @ ws' @ lit cl @ rest, []) =
      (i + length (lit op @ ws @ t @ ws' @ lit cl), rest, [(1, t)]) # ms"
    using match_block[OF assms(2-7)] by blast
  moreover have "lit op @ s = lt # lit op' @ s" for s using op by simp
  ultimately show ?case by (simp del: mt.simps)
next
  case (Cons c gap)
  then have "\<not> prefix (lit op) (c # gap @ s)" for s using op by auto
  then have "mt pat (i, c # gap @ s, []) = []" for s
    unfolding tag_rx_def by (rule mt_needs_literal)
  moreover have "rx_search pat False (Suc i) (gap @ lit op @ ws @ t @ ws' @ lit cl @ rest) =
    Some (Suc i + length gap, Suc i + length gap + length (lit op @ ws @ t @ ws' @ lit cl), rest, [(1, t)])"
    using Cons by simp
  ultimately show ?case by (simp del: mt.simps)
qed

text \<open>A reply made of such blocks: the text before a block, the white space inside, the payload.\<close>

definition block :: "ustr \<times> ustr \<times> ustr \<times> ustr \<Rightarrow> ustr" where
  "block = (\<lambda>(gap, ws, t, ws'). gap @ lit op @ ws @ t @ ws' @ lit cl)"

definition block_ok :: "ustr \<times> ustr \<times> ustr \<times> ustr \<Rightarrow> bool" where
  "block_ok = (\<lambda>(gap, ws, t, ws'). lt \<notin> set gap \<and> (\<forall>c \<in> set (ws @ ws'). py_space c) \<and>
     \<not> occurs (lit cl) t \<and> t \<noteq> [] \<and> strip t = t)"

lemma iter_blocks:
  assumes "\<forall>b \<in> set bs. block_ok b" "lt \<notin> set post"
  shows "map (group 1) (rx_iter pat False i (concat (map block bs) @ post)) = map (\<lambda>(_, _, t, _). t) bs \<and>
    splice [] i (concat (map block bs) @ post) (rx_iter pat False i (concat (map block bs) @ post)) =
      concat (map fst bs) @ post"
  using assms(1)
proof (induction bs arbitrary: i)
  case Nil
  have "\<not> occurs (lit op) post" using assms(2) op by (auto simp: occurs_iff)
  then have "rx_search pat False i post = None"
    unfolding tag_rx_def by (rule search_needs_literal)
  then show ?case by (simp add: rx_iter.simps)
next
  case (Cons b bs)
  obtain gap ws t ws' where b: "b = (gap, ws, t, ws')" by (cases b)
  let ?rest = "concat (map block bs) @ post"
  let ?n = "length (lit op @ ws @ t @ ws' @ lit cl)"
  have ok: "lt \<notin> set gap" "\<forall>c \<in> set ws. py_space c" "\<forall>c \<in> set ws'. py_space c" "\<not> occurs (lit cl) t"
    "t \<noteq> []" "strip t = t"
    using Cons.prems b by (auto simp: block_ok_def)
  have "\<not> py_space (hd t)" "\<not> py_space (last t)" using strip_ends[of t] ok by auto
  note s = search_block[OF ok(1-5) this, of i ?rest]
  have neq: "(i + length gap = i + length gap + ?n) = False" by (simp add: op)
  have it: "rx_iter pat False i (gap @ lit op @ ws @ t @ ws' @ lit cl @ ?rest) =
      (i + length gap, i + length gap + ?n, [(1, t)]) # rx_iter pat False (i + length gap + ?n) ?rest"
    by (subst rx_iter.simps) (simp only: s option.case prod.case neq)
  have whole: "concat (map block (b # bs)) @ post = gap @ lit op @ ws @ t @ ws' @ lit cl @ ?rest"
    by (simp add: b block_def)
  show ?case
    unfolding whole it using Cons.IH[of "i + length gap + ?n"] Cons.prems b
    by (simp add: group_def)
qed

end

interpretation tool_call_pair: tag_pair "''<tool_call>''" "''</tool_call>''" "''tool_call>''" "''/tool_call>''"
  by unfold_locales (simp_all add: latin_space_def)

interpretation tools_pair: tag_pair "''<tools>''" "''</tools>''" "''tools>''" "''/tools>''"
  by unfold_locales (simp_all add: latin_space_def)


section \<open>The extraction on the three forms of a reply\<close>

lemma spans_ok_sorted: "spans_ok lo hi (map match_span ms) \<Longrightarrow> sorted (map fst ms) \<and> (\<forall>m \<in> set ms. lo \<le> fst m)"
proof (induction ms arbitrary: lo)
  case (Cons m ms)
  obtain b e g where m: "m = (b, e, g)" by (cases m) auto
  with Cons.prems have "lo \<le> b" "b \<le> e" "spans_ok e hi (map match_span ms)"
    by (auto simp: match_span_def[of "(b, e, g)"])
  with Cons.IH[of e] m show ?case by fastforce
qed simp

lemma tag_calls_eq:
  assumes "sorted (map fst (finditer r work))"
  shows "tag_calls env r work = List.map_filter (read_call env) (map (group 1) (finditer r work))"
proof -
  have "sorted (map fst (map (\<lambda>m. (fst m, fst (snd m), group 1 m)) (finditer r work)))"
    using assms by (simp add: comp_def)
  then show ?thesis
    unfolding tag_calls_def by (simp add: sort_key_id_if_sorted List.map_filter_def filter_map comp_def case_prod_unfold)
qed

lemma tool_call_sorted: "sorted (map fst (finditer TOOL_CALL_TAG s))"
  using spans_ok_sorted[OF tool_call_tag.finditer_spans] by blast

lemma tools_sorted: "sorted (map fst (finditer TOOLS_WRAP_TAG s))"
  using spans_ok_sorted[OF tools_tag.finditer_spans] by blast

text \<open>A JSON object as the payload reads back as the call it describes.\<close>

lemma dict_text_ends:
  assumes "dumps False (PDict d) = Some t"
  shows "t \<noteq> []" "strip t = t"
proof -
  obtain u where "t = lit ''{'' @ u @ lit ''}''" using assms by (auto simp: brackets_def)
  then show "t \<noteq> []" "strip t = t"
    by (auto simp: latin_space_def intro!: strip_fix)
qed

lemma read_call_dumps:
  assumes "jsonable (PDict d)" "dumps False (PDict d) = Some t"
  shows "read_call env t = normalize_call (PDict d)"
proof -
  have "json_loads env t = Some (PDict d)" using json_roundtrip[OF assms(1), of env] assms(2) by auto
  then show ?thesis
    using dict_text_ends[OF assms(2)] by (simp add: read_call_def try_parse_obj_def)
qed

text \<open>\<open>call_object d\<close>: the dictionary \<open>d\<close> describes a call.\<close>

definition call_object :: "(pyval \<times> pyval) list \<Rightarrow> bool" where
  "call_object d \<longleftrightarrow> jsonable (PDict d) \<and>
     PStr (lit ''name'') \<in> fst ` set d \<and> PStr (lit ''arguments'') \<in> fst ` set d"

definition described :: "(pyval \<times> pyval) list \<Rightarrow> call" where
  "described d = the (normalize_call (PDict d))"

definition object_json :: "(pyval \<times> pyval) list \<Rightarrow> ustr" where
  "object_json d = the (dumps False (PDict d))"

lemma call_object_reads:
  assumes "call_object d"
  shows "dumps False (PDict d) = Some (object_json d)" "read_call env (object_json d) = Some (described d)"
proof -
  have j: "jsonable (PDict d)" using assms by (simp add: call_object_def)
  from json_roundtrip[OF this] show o: "dumps False (PDict d) = Some (object_json d)"
    by (metis object_json_def option.sel)
  obtain n where n: "map_of d (PStr (lit ''name'')) = Some n"
    using assms unfolding call_object_def by (metis map_of_eq_None_iff not_None_eq)
  obtain a where a: "map_of d (PStr (lit ''arguments'')) = Some a"
    using assms unfolding call_object_def by (metis map_of_eq_None_iff not_None_eq)
  have "jsonable a" using map_of_SomeD[OF a] j by fastforce
  from json_roundtrip[OF this] obtain u where "dumps False a = Some u" by blast
  with n a have "normalize_call (PDict d) = Some (described d)"
    unfolding described_def by (cases a) (auto simp: normalize_call_def)
  with read_call_dumps[OF j o] show "read_call env (object_json d) = Some (described d)" by simp
qed

text \<open>The three forms: tagged, bare, and nothing to extract.\<close>

lemma extract_tagged:
  fixes blocks :: "(ustr \<times> ustr \<times> (pyval \<times> pyval) list \<times> ustr) list"
  assumes "\<forall>(gap, ws, d, ws') \<in> set blocks. L CHR ''<'' \<notin> set gap \<and> (\<forall>c \<in> set (ws @ ws'). py_space c) \<and>
      call_object d \<and> \<not> occurs (lit ''</tool_call>'') (object_json d)"
    and "L CHR ''<'' \<notin> set post"
    and work: "work = concat (map (\<lambda>(gap, ws, d, ws').
      gap @ lit ''<tool_call>'' @ ws @ object_json d @ ws' @ lit ''</tool_call>'') blocks) @ post"
  shows "tag_calls env TOOL_CALL_TAG work = map (\<lambda>(_, _, d, _). described d) blocks"
    and "re_sub TOOL_CALL_TAG [] work = concat (map fst blocks) @ post"
proof -
  let ?bs = "map (\<lambda>(gap, ws, d, ws'). (gap, ws, object_json d, ws')) blocks"
  have ok: "\<forall>b \<in> set ?bs. tool_call_pair.block_ok b"
    using assms(1) dict_text_ends call_object_reads(1)
    by (fastforce simp: tool_call_pair.block_ok_def)
  have w: "work = concat (map tool_call_pair.block ?bs) @ post"
    unfolding work by (simp add: tool_call_pair.block_def comp_def case_prod_unfold)
  note it = tool_call_pair.iter_blocks[OF ok assms(2), of 0, folded w TOOL_CALL_TAG_def finditer_def]
  have "tag_calls env TOOL_CALL_TAG work =
      List.map_filter (read_call env) (map (\<lambda>(_, _, d, _). object_json d) blocks)"
    using it by (simp add: tag_calls_eq[OF tool_call_sorted] comp_def case_prod_unfold)
  also have "\<dots> = map (\<lambda>(_, _, d, _). described d) blocks"
    unfolding map_filter_comp using assms(1) call_object_reads(2) by (intro map_filter_total) fastforce
  finally show "tag_calls env TOOL_CALL_TAG work = map (\<lambda>(_, _, d, _). described d) blocks" .
  show "re_sub TOOL_CALL_TAG [] work = concat (map fst blocks) @ post"
    using it by (simp add: re_sub_def comp_def case_prod_unfold)
qed

lemma call_object_text: "call_object d \<Longrightarrow> object_text (object_json d)"
  using object_text_dumps[OF _ call_object_reads(1)] by (simp add: call_object_def del: jsonable.simps)

lemma span_calls_eq:
  "span_calls env s = List.map_filter (read_call env) (map (\<lambda>(b, e). slice b e s) (balanced_object_spans s))"
  by (simp add: span_calls_def map_filter_comp case_prod_unfold)

lemma span_calls_woven:
  assumes "\<forall>(g, d) \<in> set segs. plain g \<and> call_object d" "plain post"
  shows "span_calls env (woven (map (\<lambda>(g, d). (g, object_json d)) segs) post) = map (\<lambda>(_, d). described d) segs"
proof -
  let ?ts = "map (\<lambda>(g, d). (g, object_json d)) segs"
  have "plain (fst gt) \<and> object_text (snd gt)" if "gt \<in> set ?ts" for gt
    using that assms(1) call_object_text by auto
  then have "\<forall>(g, t) \<in> set ?ts. plain g \<and> object_text t" unfolding case_prod_unfold by blast
  from balanced_woven[OF this assms(2)]
  have "span_calls env (woven ?ts post) = List.map_filter (read_call env) (map snd ?ts)"
    by (simp only: span_calls_eq)
  also have "\<dots> = map (\<lambda>(_, d). described d) segs"
    unfolding map_filter_comp
    by (rule map_filter_total) (use assms(1) call_object_reads(2) in \<open>auto split: prod.splits\<close>)
  finally show ?thesis .
qed

text \<open>What the model wrote as the arguments is what the extracted call carries.\<close>

lemma described_call:
  assumes "map_of d (PStr (lit ''name'')) = Some n" "map_of d (PStr (lit ''arguments'')) = Some a"
    and "jsonable (PDict d)"
  shows "described d = (n, case a of PStr s \<Rightarrow> s | _ \<Rightarrow> the (dumps False a))"
proof -
  have "jsonable a" using map_of_SomeD[OF assms(2)] assms(3) by fastforce
  from json_roundtrip[OF this] obtain u where "dumps False a = Some u" by blast
  with assms show ?thesis unfolding described_def by (cases a) (auto simp: normalize_call_def)
qed

section \<open>Every extracted call was written in the reply\<close>

lemma mt_caps:
  assumes "st' \<in> set (mt r st)" "p \<in> set (snd (snd st'))"
  shows "p \<in> set (snd (snd st)) \<or> sublist (snd p) (fst (snd st))"
  using assms
proof (induction r st arbitrary: st' rule: mt.induct)
  case (3 a b st)
  then obtain st1 where st1: "st1 \<in> set (mt a st)" "st' \<in> set (mt b st1)" by auto
  from 3(2)[OF st1(1) st1(2) 3(4)] show ?case
  proof
    assume "p \<in> set (snd (snd st1))"
    from 3(1)[OF st1(1) this] show ?thesis .
  next
    obtain i s g j t h where e: "st = (i, s, g)" "st1 = (j, t, h)" by (cases st; cases st1)
    with mt_reads[OF st1(1)] have "sublist t s" by (auto dest!: readsD intro: sublist_drop)
    moreover assume "sublist (snd p) (fst (snd st1))"
    ultimately show ?thesis using e by (auto intro: sublist_order.order_trans)
  qed
next
  case (7 k a i s g)
  then obtain j t h where m: "(j, t, h) \<in> set (mt a (i, s, g))" "st' = (j, t, (k, take (j - i) s) # h)" by auto
  with "7.prems"(2) have "p = (k, take (j - i) s) \<or> p \<in> set h" by auto
  then show ?case using 7(1)[OF m(1)] by auto
qed (auto simp: set_runs split: list.splits if_splits)

lemma search_caps:
  assumes "rx_search r adv i s = Some (b, e, t, g)" "p \<in> set g"
  shows "sublist (snd p) s"
proof -
  from rx_search_reads[OF assms(1)] have "(e, t, g) \<in> set (mt r (b, drop (b - i) s, []))" by blast
  from mt_caps[OF this] assms(2) have "sublist (snd p) (drop (b - i) s)" by simp
  then show ?thesis using sublist_drop sublist_order.order_trans by blast
qed

lemma iter_caps:
  "m \<in> set (rx_iter r adv i s) \<Longrightarrow> p \<in> set (snd (snd m)) \<Longrightarrow> sublist (snd p) s"
proof (induction r adv i s rule: rx_iter.induct)
  case (1 r adv i s)
  show ?case
  proof (cases "rx_search r adv i s")
    case None
    with 1(2) show ?thesis by (simp add: rx_iter.simps[of r adv i s])
  next
    case (Some q)
    obtain b e t g where q: "q = (b, e, t, g)" by (cases q)
    have "m = (b, e, g) \<or> m \<in> set (rx_iter r (b = e) e t)"
      using 1(2) Some q by (simp add: rx_iter.simps[of r adv i s])
    then show ?thesis
    proof
      assume "m = (b, e, g)"
      with search_caps[of r adv i s b e t g p] Some q 1(3) show ?thesis by simp
    next
      assume "m \<in> set (rx_iter r (b = e) e t)"
      then have "sublist (snd p) t" using 1(1) 1(3) Some q by blast
      moreover have "sublist t s" using rx_search_reads[of r adv i s b e t g] Some q by auto
      ultimately show ?thesis by (rule sublist_order.order_trans)
    qed
  qed
qed

lemma group_sublist: "m \<in> set (finditer r s) \<Longrightarrow> sublist (group k m) s"
  unfolding finditer_def group_def
  by (auto split: option.splits dest!: map_of_SomeD dest: iter_caps)

lemma slice_sublist: "sublist (slice i j s) s"
  unfolding slice_def by (meson sublist_drop sublist_take sublist_order.order_trans)

lemma strip_sublist: "sublist (strip s) s"
  by (metis strip_decomp sublist_appendI)

lemma span_call_written:
  "c \<in> set (span_calls env s) \<Longrightarrow> \<exists>w. sublist w s \<and> read_call env w = Some c"
  unfolding span_calls_eq map_filter_mem using slice_sublist by fastforce

lemma tag_call_written:
  "c \<in> set (tag_calls env r s) \<Longrightarrow> \<exists>w. sublist w s \<and> read_call env w = Some c"
  by (auto simp: tag_calls_def map_filter_mem dest: group_sublist)

lemma fence_call_written:
  assumes "c \<in> set (fence_calls env s)"
  shows "\<exists>w. sublist w s \<and> read_call env w = Some c"
proof -
  from assms obtain m where m: "m \<in> set (finditer FENCE s)" "c \<in> set (span_calls env (strip (group 1 m)))"
    by (auto simp: fence_calls_def)
  then obtain w where "sublist w (strip (group 1 m))" "read_call env w = Some c"
    using span_call_written by blast
  moreover have "sublist (strip (group 1 m)) s"
    using strip_sublist group_sublist[OF m(1)] sublist_order.order_trans by blast
  ultimately show ?thesis using sublist_order.order_trans by blast
qed

lemma extract_text_cases:
  obtains (tool) "extract_text env s = (tag_calls env TOOL_CALL_TAG s, strip (re_sub TOOL_CALL_TAG [] s))"
      "tag_calls env TOOL_CALL_TAG s \<noteq> []"
    | (tools) "extract_text env s = (tag_calls env TOOLS_WRAP_TAG s, strip (re_sub TOOLS_WRAP_TAG [] s))"
      "tag_calls env TOOL_CALL_TAG s = []" "tag_calls env TOOLS_WRAP_TAG s \<noteq> []"
    | (fence) "extract_text env s = (fence_calls env s, [])" "tag_calls env TOOL_CALL_TAG s = []"
      "tag_calls env TOOLS_WRAP_TAG s = []" "fence_calls env s \<noteq> []"
    | (bare) "extract_text env s = (span_calls env s, [])" "tag_calls env TOOL_CALL_TAG s = []"
      "tag_calls env TOOLS_WRAP_TAG s = []" "fence_calls env s = []" "span_calls env s \<noteq> []"
    | (none) "extract_text env s = ([], s)" "tag_calls env TOOL_CALL_TAG s = []"
      "tag_calls env TOOLS_WRAP_TAG s = []" "fence_calls env s = []" "span_calls env s = []"
  unfolding extract_text_def Let_def by (auto split: if_splits)


lemma extract_tool_calls_Str:
  "strip s \<noteq> [] \<Longrightarrow> extract_tool_calls env (PStr s) = (fst (extract_text env s), PStr (snd (extract_text env s)))"
  by (simp add: extract_tool_calls_def case_prod_unfold)

lemma strip_some: "c \<in> set s \<Longrightarrow> \<not> py_space c \<Longrightarrow> strip s \<noteq> []"
  by (auto simp: strip_eq_Nil)

lemma lt_not_space: "\<not> py_space (L CHR ''<'')" "\<not> py_space (L CHR ''{'')"
  by (simp_all add: latin_space_def)

section \<open>The extraction as a whole\<close>

lemma extract_blocks:
  fixes blocks :: "(ustr \<times> ustr \<times> (pyval \<times> pyval) list \<times> ustr) list"
  assumes "\<forall>(gap, ws, d, ws') \<in> set blocks. L CHR ''<'' \<notin> set gap \<and> (\<forall>c \<in> set (ws @ ws'). py_space c) \<and>
      call_object d \<and> \<not> occurs (lit ''</tool_call>'') (object_json d)"
    and "L CHR ''<'' \<notin> set post" and "blocks \<noteq> []"
  shows "extract_tool_calls env (PStr (concat (map (\<lambda>(gap, ws, d, ws').
      gap @ lit ''<tool_call>'' @ ws @ object_json d @ ws' @ lit ''</tool_call>'') blocks) @ post)) =
    (map (\<lambda>(_, _, d, _). described d) blocks, PStr (strip (concat (map fst blocks) @ post)))"
proof -
  let ?w = "concat (map (\<lambda>(gap, ws, d, ws').
      gap @ lit ''<tool_call>'' @ ws @ object_json d @ ws' @ lit ''</tool_call>'') blocks) @ post"
  note ex = extract_tagged(1)[OF assms(1,2) refl, of env] extract_tagged(2)[OF assms(1,2) refl]
  have "L CHR ''<'' \<in> set ?w" using assms(3) by (cases blocks) (auto split: prod.splits)
  from strip_some[OF this lt_not_space(1)] have ne: "strip ?w \<noteq> []" .
  have "map (\<lambda>(_, _, d, _). described d) blocks \<noteq> []" using assms(3) by simp
  with ex have "extract_text env ?w =
      (map (\<lambda>(_, _, d, _). described d) blocks, strip (concat (map fst blocks) @ post))"
    by (simp only: extract_text_def Let_def if_True simp_thms)
  with extract_tool_calls_Str[OF ne] show ?thesis by (simp only: fst_conv snd_conv)
qed

definition sample_call :: "(pyval \<times> pyval) list" where
  "sample_call =
     [(PStr (lit ''name''), PStr (lit ''run'')),
      (PStr (lit ''arguments''), PDict [(PStr (lit ''cmd''), PStr (lit ''ls''))])]"

lemma sample_ok: "call_object sample_call" "\<not> occurs (lit ''</tool_call>'') (object_json sample_call)"
  by code_simp+

lemma sample_extracted:
  "extract_tool_calls env (PStr (lit ''<tool_call>'' @ object_json sample_call @ lit ''</tool_call>'')) =
     ([described sample_call], PStr [])"
  using extract_blocks[of "[([], [], sample_call, [])]" "[]" env] sample_ok by simp

text \<open>
  C2: a reply made of tagged calls (any white space around the payload, any text without \<open><\<close>
  between them) gives all the calls, in their order, and what remains is the text around them.
\<close>

theorem tagged_calls_extracted:
  fixes blocks :: "(ustr \<times> ustr \<times> (pyval \<times> pyval) list \<times> ustr) list"
  assumes "\<forall>(gap, ws, d, ws') \<in> set blocks. L CHR ''<'' \<notin> set gap \<and> (\<forall>c \<in> set (ws @ ws'). py_space c) \<and>
      call_object d \<and> \<not> occurs (lit ''</tool_call>'') (object_json d)"
    and "L CHR ''<'' \<notin> set post" and "blocks \<noteq> []"
  shows "extract_tool_calls env (PStr (concat (map (\<lambda>(gap, ws, d, ws').
      gap @ lit ''<tool_call>'' @ ws @ object_json d @ ws' @ lit ''</tool_call>'') blocks) @ post)) =
    (map (\<lambda>(_, _, d, _). described d) blocks, PStr (strip (concat (map fst blocks) @ post)))"
  by (rule extract_blocks[OF assms])

theorem tagged_calls_extracted_witness:
  "extract_tool_calls plain_env (PStr (lit ''ok <tool_call> '' @ object_json sample_call @ lit ''</tool_call>'')) =
    ([(PStr (lit ''run''), lit ''{'' @ json_str (lit ''cmd'') @ lit '': '' @ json_str (lit ''ls'') @ lit ''}'')],
     PStr (lit ''ok''))"
proof -
  have h: "\<forall>(gap, ws, d, ws') \<in> set [(lit ''ok '', lit '' '', sample_call, [])]. L CHR ''<'' \<notin> set gap \<and>
      (\<forall>c \<in> set (ws @ ws'). py_space c) \<and>
      call_object d \<and> \<not> occurs (lit ''</tool_call>'') (object_json d)"
    using sample_ok by (simp add: latin_space_def)
  have v: "described sample_call =
      (PStr (lit ''run''), lit ''{'' @ json_str (lit ''cmd'') @ lit '': '' @ json_str (lit ''ls'') @ lit ''}'')"
    "strip (lit ''ok '') = lit ''ok''"
    by code_simp+
  from tagged_calls_extracted[OF h, of "[]" plain_env] v show ?thesis by simp
qed

text \<open>
  C6: a reply without any tag or fence, whose calls stand as bare JSON objects in text free of
  quotes and braces, gives all the calls in their order, and the reply is emptied.
\<close>

theorem bare_calls_extracted:
  fixes segs :: "(ustr \<times> (pyval \<times> pyval) list) list"
  assumes "\<forall>(gap, d) \<in> set segs. plain gap \<and> call_object d" and "plain post" and "segs \<noteq> []"
    and work: "work = woven (map (\<lambda>(gap, d). (gap, object_json d)) segs) post"
    and "\<not> occurs (lit ''<tool_call>'') work" "\<not> occurs (lit ''<tools>'') work" "\<not> occurs (lit fence) work"
  shows "extract_tool_calls env (PStr work) = (map (\<lambda>(_, d). described d) segs, PStr [])"
proof -
  have "finditer TOOL_CALL_TAG work = []" "finditer TOOLS_WRAP_TAG work = []" "finditer FENCE work = []"
    unfolding TOOL_CALL_TAG_def TOOLS_WRAP_TAG_def FENCE_def tag_rx_def
    by (rule finditer_needs_literal[OF assms(5)] finditer_needs_literal[OF assms(6)]
        finditer_needs_literal[OF assms(7)])+
  then have none: "tag_calls env TOOL_CALL_TAG work = []" "tag_calls env TOOLS_WRAP_TAG work = []"
    "fence_calls env work = []"
    by (simp_all add: tag_calls_def fence_calls_def)
  have "span_calls env work = map (\<lambda>(_, d). described d) segs"
    unfolding work by (rule span_calls_woven[OF assms(1,2)])
  moreover have "map (\<lambda>(_, d). described d) segs \<noteq> []" using assms(3) by simp
  ultimately have ex: "extract_text env work = (map (\<lambda>(_, d). described d) segs, [])"
    using none by (simp add: extract_text_def)
  obtain gap d segs' where "segs = (gap, d) # segs'" using assms(3) by (cases segs) auto
  moreover have "object_text (object_json d)" using assms(1) call_object_text calculation by auto
  ultimately have "L CHR ''{'' \<in> set work" by (auto simp: work object_text_def)
  from strip_some[OF this lt_not_space(2)] show ?thesis by (simp add: extract_tool_calls_Str ex)
qed

theorem bare_calls_extracted_witness:
  "extract_tool_calls plain_env (PStr (woven [(lit ''First: '', object_json sample_call),
      (lit '' then '', object_json sample_call)] (lit ''.''))) =
    ([described sample_call, described sample_call], PStr [])"
proof -
  let ?segs = "[(lit ''First: '', sample_call), (lit '' then '', sample_call)]"
  let ?w = "woven (map (\<lambda>(gap, d). (gap, object_json d)) ?segs) (lit ''.'')"
  have h: "\<forall>(gap, d) \<in> set ?segs. plain gap \<and> call_object d" "plain (lit ''.'')" by code_simp+
  have n: "\<not> occurs (lit ''<tool_call>'') ?w" "\<not> occurs (lit ''<tools>'') ?w" "\<not> occurs (lit fence) ?w"
    by code_simp+
  from bare_calls_extracted[OF h _ refl n, of plain_env] show ?thesis by simp
qed

text \<open>
  C12: no call is invented: each extracted call is the reading of a piece of the reply, and a
  reply from which nothing is extracted is left as it was.
\<close>

theorem extraction_sound:
  assumes "extract_tool_calls env content = (calls, cleaned)"
  shows "(calls = [] \<longrightarrow> cleaned = content) \<and>
    (\<forall>c \<in> set calls. \<exists>s w. content = PStr s \<and> sublist w s \<and> read_call env w = Some c)"
proof (cases "\<exists>s. content = PStr s \<and> strip s \<noteq> []")
  case True
  then obtain s where s: "content = PStr s" "strip s \<noteq> []" by blast
  then have c: "calls = fst (extract_text env s)" "cleaned = PStr (snd (extract_text env s))"
    using assms by (simp_all add: extract_tool_calls_Str)
  have "(calls = [] \<longrightarrow> snd (extract_text env s) = s) \<and>
      (\<forall>c \<in> set calls. \<exists>w. sublist w s \<and> read_call env w = Some c)"
    unfolding c
    by (rule extract_text_cases[of env s])
      (auto simp: tag_call_written fence_call_written span_call_written)
  with s c show ?thesis by auto
next
  case False
  with assms show ?thesis by (auto simp: extract_tool_calls_def split: pyval.splits if_splits)
qed

theorem extraction_sound_witness:
  "\<exists>s w. PStr (lit ''<tool_call>'' @ object_json sample_call @ lit ''</tool_call>'') = PStr s \<and>
     sublist w s \<and> read_call plain_env w = Some (described sample_call)"
  using extraction_sound[OF sample_extracted[of plain_env]] by simp

text \<open>
  C13: a call written as a JSON object with a \<open>name\<close> and \<open>arguments\<close> that are not already
  text is read back whole: its name as it was, and arguments whose text parses to the value
  the model wrote.
\<close>

theorem call_arguments_roundtrip:
  assumes "call_object d" "map_of d (PStr (lit ''name'')) = Some n"
    "map_of d (PStr (lit ''arguments'')) = Some a" "\<forall>s. a \<noteq> PStr s"
  shows "\<exists>t. dumps False (PDict d) = Some t \<and>
    (\<exists>args. read_call env t = Some (n, args) \<and> json_loads env args = Some a)"
proof -
  have j: "jsonable (PDict d)" using assms(1) by (simp add: call_object_def)
  have "jsonable a" using map_of_SomeD[OF assms(3)] j by fastforce
  from json_roundtrip[OF this] obtain u where u: "dumps False a = Some u" "json_loads env u = Some a" by blast
  have "described d = (n, u)"
    using described_call[OF assms(2,3) j] u assms(4) by (cases a) auto
  then have "read_call env (object_json d) = Some (n, u)" using call_object_reads(2)[OF assms(1)] by simp
  with u call_object_reads(1)[OF assms(1)] show ?thesis by blast
qed

theorem call_arguments_roundtrip_witness:
  "\<exists>t. dumps False (PDict sample_call) = Some t \<and>
    (\<exists>args. read_call plain_env t = Some (PStr (lit ''run''), args) \<and>
       json_loads plain_env args = Some (PDict [(PStr (lit ''cmd''), PStr (lit ''ls''))]))"
proof -
  have "call_object sample_call" "map_of sample_call (PStr (lit ''name'')) = Some (PStr (lit ''run''))"
    "map_of sample_call (PStr (lit ''arguments'')) = Some (PDict [(PStr (lit ''cmd''), PStr (lit ''ls''))])"
    by code_simp+
  from call_arguments_roundtrip[OF this, of plain_env] show ?thesis by simp
qed

text \<open>
  C14: the spans the brace scanner yields lie in order inside the text, none overlapping
  another, and each runs from an opening brace to a closing one.
\<close>

theorem object_spans_in_order:
  "spans_ok 0 (length s) (balanced_object_spans s) \<and> list_all (braced s) (balanced_object_spans s)"
  using balanced_object_spans_ok by (simp add: list_all_iff)

text \<open>
  An apostrophe in the text before an object opens a string for the scanner, so the object
  after it is not found and the call is lost (the same text without it gives the call).
\<close>

theorem apostrophe_hides_call:
  "extract_tool_calls plain_env (PStr (lit ''Let'' @ L CHR 0x27 # lit ''s go: '' @ object_json sample_call)) =
     ([], PStr (lit ''Let'' @ L CHR 0x27 # lit ''s go: '' @ object_json sample_call)) \<and>
   extract_tool_calls plain_env (PStr (lit ''Lets go: '' @ object_json sample_call)) =
     ([described sample_call], PStr [])"
proof
  show "extract_tool_calls plain_env (PStr (lit ''Let'' @ L CHR 0x27 # lit ''s go: '' @ object_json sample_call)) =
     ([], PStr (lit ''Let'' @ L CHR 0x27 # lit ''s go: '' @ object_json sample_call))" by code_simp
  show "extract_tool_calls plain_env (PStr (lit ''Lets go: '' @ object_json sample_call)) =
     ([described sample_call], PStr [])" by code_simp
qed

end
