(* ===== verification/RepeatGuard.thy ===== *)
theory RepeatGuard
  imports ExtractFacts
begin

text \<open>
  The repeat guard of the proxy callback (\<open>litellm/fix_tool_messages.py\<close>): a reply whose first
  tool call repeats the single call of the last \<open>REPEAT_THRESHOLD\<close> assistant turns is dropped
  and replaced by a message. The model follows \<open>_canonical_args\<close>, \<open>_call_signature\<close>,
  \<open>_msg_get\<close>, \<open>_count_recent_identical_calls\<close> and \<open>_apply_repeat_guard\<close>; a message is a
  dictionary or an object with attributes. Then a conversation is a step relation, and no
  conversation the guard mediates holds more than the threshold of equal calls in a row.
\<close>

section \<open>Signatures\<close>

definition canonical_args :: "pyenv \<Rightarrow> pyval \<Rightarrow> ustr" where
  "canonical_args env args =
     (case args of
        PStr s \<Rightarrow>
          (case Option.bind (json_loads env s) (dumps True) of Some t \<Rightarrow> t | None \<Rightarrow> strip s)
      | _ \<Rightarrow> (case dumps True args of Some t \<Rightarrow> t | None \<Rightarrow> env_str env args))"

type_synonym signature = "pyval \<times> ustr"

definition call_signature :: "pyenv \<Rightarrow> pyval \<Rightarrow> pyval \<Rightarrow> signature" where
  "call_signature env name args = (py_or name (PStr []), canonical_args env args)"

definition msg_get :: "pyval \<Rightarrow> string \<Rightarrow> pyval" where
  "msg_get msg key =
     (case msg of PDict d \<Rightarrow> dict_get d (lit key) PNone | _ \<Rightarrow> attr_get msg (lit key) PNone)"

section \<open>Counting\<close>

text \<open>The name and the arguments of an earlier turn's call.\<close>

definition prev_call :: "pyval \<Rightarrow> pyval \<times> pyval" where
  "prev_call fn =
     (case fn of
        PDict d \<Rightarrow> (dict_get d (lit ''name'') PNone, dict_get d (lit ''arguments'') PNone)
      | _ \<Rightarrow> (attr_get fn (lit ''name'') PNone, attr_get fn (lit ''arguments'') (PStr [])))"

text \<open>The loop over the reversed messages.\<close>

fun count_run :: "pyenv \<Rightarrow> signature \<Rightarrow> pyval list \<Rightarrow> nat res" where
  "count_run env sig [] = Inr 0"
| "count_run env sig (msg # msgs) =
     (let role = msg_get msg ''role''
      in if role = PStr (lit ''tool'') then count_run env sig msgs
         else if role \<noteq> PStr (lit ''assistant'') then Inr 0
         else
           (let tcs = py_or (msg_get msg ''tool_calls'') (PList [])
            in bind_res (py_len tcs) (\<lambda>n.
                 if n \<noteq> 1 then Inr 0
                 else bind_res (py_first tcs) (\<lambda>tc.
                   let (name, args) = prev_call (py_or (msg_get tc ''function'') (PDict []))
                   in if call_signature env name args \<noteq> sig then Inr 0
                      else bind_res (count_run env sig msgs) (\<lambda>k. Inr (Suc k))))))"

definition count_recent_identical_calls :: "pyenv \<Rightarrow> pyval \<Rightarrow> signature \<Rightarrow> nat res" where
  "count_recent_identical_calls env messages sig =
     bind_res (py_reversed (py_or messages (PList []))) (count_run env sig)"

section \<open>The guard\<close>

definition GUARD_TEMPLATE :: "ustr \<Rightarrow> ustr \<Rightarrow> ustr" where
  "GUARD_TEMPLATE name n =
     lit ''[tool-call guard] The tool '' @ L CHR 0x27 # name @ L CHR 0x27 #
     lit '' has been called with identical arguments '' @ n @
     lit '' times in a row. This is a repetition loop '' @ uchr 8212 #
     lit '' the call is not making progress and has been blocked to protect the host. '' @
     lit ''Inspect the prior tool output, choose a different approach, or call '' @
     lit ''a different tool. Do not repeat the same command.''"

text \<open>\<open>None\<close>: not blocked; \<open>Some text\<close>: blocked, with the message to send instead.\<close>

definition apply_repeat_guard ::
  "pyenv \<Rightarrow> int \<Rightarrow> pyval \<Rightarrow> (pyval \<times> pyval) list \<Rightarrow> ustr option res" where
  "apply_repeat_guard env REPEAT_THRESHOLD messages calls =
     (if REPEAT_THRESHOLD \<le> 0 then Inr None
      else case calls of
        [] \<Rightarrow> Inr None
      | (name, args) # _ \<Rightarrow>
          bind_res (count_recent_identical_calls env messages (call_signature env name args)) (\<lambda>prior.
            if int prior < REPEAT_THRESHOLD then Inr None
            else Inr (Some (GUARD_TEMPLATE (py_text env name) (int_text (int prior + 1))))))"

section \<open>When two calls are the same\<close>

text \<open>
  C11: two arguments given as JSON text are the same call exactly when the values they denote
  are equal up to the order of the keys of every object; layout does not matter.
\<close>

theorem canonical_args_eq_iff:
  assumes "json_loads env s = Some v" "json_loads env t = Some w" "jsonable v" "jsonable w"
  shows "canonical_args env (PStr s) = canonical_args env (PStr t) \<longleftrightarrow> jnorm v = jnorm w"
proof -
  obtain a where a: "dumps True v = Some a" using dumps_jnorm[OF assms(3)] by blast
  obtain b where b: "dumps True w = Some b" using dumps_jnorm[OF assms(4)] by blast
  have "canonical_args env (PStr s) = a" "canonical_args env (PStr t) = b"
    using assms a b by (simp_all add: canonical_args_def)
  then show ?thesis using sorted_dumps_eq_iff[OF assms(3,4)] a b by simp
qed

theorem canonical_args_eq_iff_witness:
  "canonical_args plain_env (PStr (lit [CHR ''{'', CHR 0x22, CHR ''a'', CHR 0x22, CHR '':'', CHR ''1'', CHR '','',
       CHR 0x22, CHR ''b'', CHR 0x22, CHR '':'', CHR ''2'', CHR ''}''])) =
   canonical_args plain_env (PStr (lit [CHR ''{'', CHR '' '', CHR 0x22, CHR ''b'', CHR 0x22, CHR '':'', CHR '' '', CHR ''2'',
       CHR '','', CHR 0x22, CHR ''a'', CHR 0x22, CHR '':'', CHR ''1'', CHR ''}'']))"
proof -
  let ?v = "PDict [(PStr (lit ''a''), PInt 1), (PStr (lit ''b''), PInt 2)]"
  let ?w = "PDict [(PStr (lit ''b''), PInt 2), (PStr (lit ''a''), PInt 1)]"
  have 1: "json_loads plain_env (lit [CHR ''{'', CHR 0x22, CHR ''a'', CHR 0x22, CHR '':'', CHR ''1'', CHR '','',
       CHR 0x22, CHR ''b'', CHR 0x22, CHR '':'', CHR ''2'', CHR ''}'']) = Some ?v" by code_simp
  have 2: "json_loads plain_env (lit [CHR ''{'', CHR '' '', CHR 0x22, CHR ''b'', CHR 0x22, CHR '':'', CHR '' '', CHR ''2'',
       CHR '','', CHR 0x22, CHR ''a'', CHR 0x22, CHR '':'', CHR ''1'', CHR ''}'']) = Some ?w" by code_simp
  have 3: "jsonable ?v" "jsonable ?w" "jnorm ?v = jnorm ?w" by code_simp+
  from canonical_args_eq_iff[OF 1 2 3(1,2)] 3(3) show ?thesis by simp
qed

section \<open>Runs of equal turns\<close>

text \<open>
  The interface of a run counter: turns that are neutral, turns that repeat a signature, and a
  turn that repeats at most one. The run of a history is the number of its last turns, the
  neutral ones apart, that repeat the signature.
\<close>

locale run_counter =
  fixes neutral :: "'m \<Rightarrow> bool" and same :: "'s \<Rightarrow> 'm \<Rightarrow> bool"
  assumes same_one: "same s m \<Longrightarrow> same s' m \<Longrightarrow> s = s'"
begin

definition run :: "'s \<Rightarrow> 'm list \<Rightarrow> nat" where
  "run s h = length (takeWhile (same s) (rev (filter (\<lambda>m. \<not> neutral m) h)))"

lemma run_Nil [simp]: "run s [] = 0"
  by (simp add: run_def)

lemma run_snoc:
  "run s (h @ [m]) = (if neutral m then run s h else if same s m then Suc (run s h) else 0)"
  by (simp add: run_def)

lemma run_other: "neutral m \<or> (\<forall>s. \<not> same s m) \<Longrightarrow> run s (h @ [m]) \<le> run s h"
  by (auto simp: run_snoc)

lemma run_bounded_snoc:
  assumes "\<And>s. run s h \<le> N" "same r m \<Longrightarrow> run r h < N" "\<And>s. same s m \<Longrightarrow> s = r"
  shows "run s (h @ [m]) \<le> N"
  using assms(1)[of s] assms(2) assms(3)[of s] by (auto simp: run_snoc Suc_le_eq)

lemma run_ge:
  assumes "filter (\<lambda>m. \<not> neutral m) h = us @ ts" "\<forall>t \<in> set ts. same s t"
  shows "length ts \<le> run s h"
proof -
  have "takeWhile (same s) (rev ts @ rev us) = rev ts @ takeWhile (same s) (rev us)"
    using assms(2) by (intro takeWhile_append2) auto
  then show ?thesis by (simp add: run_def assms(1))
qed

lemma run_ge_iff:
  "N \<le> run s h \<longleftrightarrow> (\<exists>us ts. filter (\<lambda>m. \<not> neutral m) h = us @ ts \<and> length ts = N \<and> (\<forall>t \<in> set ts. same s t))"
proof
  let ?f = "filter (\<lambda>m. \<not> neutral m) h"
  assume le: "N \<le> run s h"
  let ?r = "take N (takeWhile (same s) (rev ?f))"
  have "rev ?f = ?r @ drop N (rev ?f)"
    using le by (metis append_take_drop_id run_def takeWhile_eq_take take_take min.absorb1)
  then have "?f = rev (drop N (rev ?f)) @ rev ?r" by (metis rev_append rev_rev_ident)
  moreover have "length (rev ?r) = N" using le by (simp add: run_def)
  moreover have "\<forall>t \<in> set (rev ?r). same s t" by (auto dest: in_set_takeD set_takeWhileD)
  ultimately show "\<exists>us ts. ?f = us @ ts \<and> length ts = N \<and> (\<forall>t \<in> set ts. same s t)" by blast
next
  assume "\<exists>us ts. filter (\<lambda>m. \<not> neutral m) h = us @ ts \<and> length ts = N \<and> (\<forall>t \<in> set ts. same s t)"
  then show "N \<le> run s h" using run_ge by blast
qed

lemma filter_prefix:
  assumes "filter P h = us @ ts"
  obtains p where "prefix p h" "filter P p = us"
proof -
  have "\<exists>p. prefix p h \<and> filter P p = us" using assms
  proof (induction h arbitrary: us)
    case (Cons c h)
    show ?case
    proof (cases us)
      case Nil
      then show ?thesis by (intro exI[of _ "[]"]) simp
    next
      case (Cons u us')
      show ?thesis
      proof (cases "P c")
        case True
        with Cons Cons.prems have "filter P h = us' @ ts" "u = c" by auto
        with Cons.IH[of us'] obtain p where "prefix p h" "filter P p = us'" by blast
        with True Cons \<open>u = c\<close> show ?thesis by (intro exI[of _ "c # p"]) simp
      next
        case False
        with Cons.prems Cons.IH[of us] obtain p where "prefix p h" "filter P p = us" by auto
        with False show ?thesis by (intro exI[of _ "c # p"]) simp
      qed
    qed
  qed simp
  with that show thesis by blast
qed

text \<open>If every prefix has short runs, no stretch of equal turns is longer.\<close>

lemma stretch_bounded:
  assumes "\<And>p. prefix p h \<Longrightarrow> run s p \<le> N"
    and "filter (\<lambda>m. \<not> neutral m) h = us @ ts @ vs" "\<forall>t \<in> set ts. same s t"
  shows "length ts \<le> N"
proof -
  obtain p where p: "prefix p h" "filter (\<lambda>m. \<not> neutral m) p = us @ ts"
    using filter_prefix[of "\<lambda>m. \<not> neutral m" h "us @ ts" vs] assms(2) by auto
  from run_ge[OF p(2) assms(3)] assms(1)[OF p(1)] show ?thesis by simp
qed

end

section \<open>What the guard counts\<close>

definition is_tool :: "pyval \<Rightarrow> bool" where
  "is_tool msg \<longleftrightarrow> msg_get msg ''role'' = PStr (lit ''tool'')"

definition turn_calls :: "pyval \<Rightarrow> pyval" where
  "turn_calls msg = py_or (msg_get msg ''tool_calls'') (PList [])"

text \<open>The turn is the assistant's and makes one call, which has the signature \<open>sig\<close>.\<close>

definition repeats :: "pyenv \<Rightarrow> signature \<Rightarrow> pyval \<Rightarrow> bool" where
  "repeats env sig msg \<longleftrightarrow> msg_get msg ''role'' = PStr (lit ''assistant'') \<and>
     (case turn_calls msg of
        PList [tc] \<Rightarrow>
          (case prev_call (py_or (msg_get tc ''function'') (PDict [])) of
             (name, args) \<Rightarrow> call_signature env name args = sig)
      | _ \<Rightarrow> False)"

definition run_length :: "pyenv \<Rightarrow> signature \<Rightarrow> pyval list \<Rightarrow> nat" where
  "run_length env sig msgs = length (takeWhile (repeats env sig) (rev (filter (\<lambda>m. \<not> is_tool m) msgs)))"

interpretation turns: run_counter is_tool "repeats env" for env
proof unfold_locales
  fix s s' m assume "repeats env s m" "repeats env s' m"
  then show "s = s'" by (auto simp: repeats_def split: pyval.splits list.splits prod.splits)
qed

lemma run_length_run: "run_length env sig msgs = turns.run env sig msgs"
  by (simp add: run_length_def turns.run_def)

text \<open>A message as the protocol has it: its calls are absent or a list.\<close>

definition calls_listed :: "pyval \<Rightarrow> bool" where
  "calls_listed msg \<longleftrightarrow>
     (case msg_get msg ''tool_calls'' of PNone \<Rightarrow> True | PList _ \<Rightarrow> True | _ \<Rightarrow> False)"

lemma calls_listed_turn: "calls_listed msg \<Longrightarrow> \<exists>tcs. turn_calls msg = PList tcs"
  by (auto simp: calls_listed_def turn_calls_def py_or_def split: pyval.splits)

lemma count_run_length:
  assumes "\<forall>m \<in> set msgs. calls_listed m"
  shows "count_run env sig msgs = Inr (length (takeWhile (repeats env sig) (filter (\<lambda>m. \<not> is_tool m) msgs)))"
  using assms
proof (induction msgs)
  case (Cons m msgs)
  then have IH: "count_run env sig msgs = Inr (length (takeWhile (repeats env sig) (filter (\<lambda>m. \<not> is_tool m) msgs)))"
    by simp
  obtain tcs where tcs: "py_or (msg_get m ''tool_calls'') (PList []) = PList tcs"
    using calls_listed_turn Cons.prems by (fastforce simp: turn_calls_def)
  consider "is_tool m" | "\<not> is_tool m" "msg_get m ''role'' \<noteq> PStr (lit ''assistant'')"
    | "\<not> is_tool m" "msg_get m ''role'' = PStr (lit ''assistant'')" by blast
  then show ?case
  proof cases
    case 3
    show ?thesis
    proof (cases "\<exists>tc. tcs = [tc]")
      case True
      then obtain tc where "tcs = [tc]" by blast
      with 3 tcs IH show ?thesis
        by (auto simp: is_tool_def[of m] repeats_def[of env _ m] turn_calls_def hd_res_def Let_def split: prod.splits)
    next
      case False
      then have "length tcs \<noteq> 1" by (auto simp: length_Suc_conv)
      with 3 tcs False show ?thesis
        by (auto simp: is_tool_def[of m] repeats_def[of env _ m] turn_calls_def Let_def split: list.splits)
    qed
  qed (use IH in \<open>auto simp: is_tool_def[of m] repeats_def[of env _ m] Let_def\<close>)
qed simp

lemma count_recent_run_length:
  assumes "\<forall>m \<in> set msgs. calls_listed m"
  shows "count_recent_identical_calls env (PList msgs) sig = Inr (run_length env sig msgs)"
  using count_run_length[of "rev msgs" env sig] assms
  by (simp add: count_recent_identical_calls_def run_length_def py_or_def rev_filter)

lemma guard_spec:
  assumes "\<forall>m \<in> set msgs. calls_listed m" "0 < thr"
  shows "apply_repeat_guard env thr (PList msgs) ((name, args) # rest) =
    (if nat thr \<le> turns.run env (call_signature env name args) msgs
     then Inr (Some (GUARD_TEMPLATE (py_text env name)
            (int_text (int (run_length env (call_signature env name args) msgs) + 1))))
     else Inr None)"
proof -
  let ?k = "run_length env (call_signature env name args) msgs"
  have "(int ?k < thr) = (\<not> nat thr \<le> ?k)" using assms(2) by linarith
  then show ?thesis
    using assms(2) count_recent_run_length[OF assms(1)]
    by (simp add: apply_repeat_guard_def run_length_run)
qed

text \<open>
  C3: the guard against its specification: it drops a reply exactly when it is switched on and
  the last \<open>REPEAT_THRESHOLD\<close> turns, tool results apart, are assistant turns that each made one
  call with the signature of the reply's first call; the message names the run's length.
\<close>

theorem guard_blocks_iff:
  assumes "\<forall>m \<in> set msgs. calls_listed m" "0 < thr"
  shows "apply_repeat_guard env thr (PList msgs) ((name, args) # rest) =
    (if \<exists>us ts. filter (\<lambda>m. \<not> is_tool m) msgs = us @ ts \<and> length ts = nat thr \<and>
          (\<forall>t \<in> set ts. repeats env (call_signature env name args) t)
     then Inr (Some (GUARD_TEMPLATE (py_text env name)
            (int_text (int (run_length env (call_signature env name args) msgs) + 1))))
     else Inr None)"
  unfolding guard_spec[OF assms] turns.run_ge_iff ..

lemma lit_inject [simp]: "lit s = lit t \<longleftrightarrow> s = t"
  by (rule inj_map_eq_map) (simp add: inj_def)

text \<open>Turns as the clients of the proxy write them.\<close>

definition said :: "string \<Rightarrow> ustr \<Rightarrow> pyval" where
  "said role t = PDict [(PStr (lit ''role''), PStr (lit role)), (PStr (lit ''content''), PStr t)]"

definition called :: "pyval list \<Rightarrow> pyval" where
  "called tcs = PDict [(PStr (lit ''role''), PStr (lit ''assistant'')), (PStr (lit ''content''), PNone),
     (PStr (lit ''tool_calls''), PList tcs)]"

definition call_dicts :: "(nat \<Rightarrow> ustr) \<Rightarrow> (pyval \<times> pyval) list \<Rightarrow> pyval list" where
  "call_dicts uid calls = map (\<lambda>(i, name, args). make_tool_call_dict (uid i) i name args) (enumerate 0 calls)"

lemma msg_get_said [simp]:
  "msg_get (said role t) ''role'' = PStr (lit role)" "msg_get (said role t) ''tool_calls'' = PNone"
  by (simp_all add: said_def msg_get_def dict_get_def)

lemma msg_get_called [simp]:
  "msg_get (called tcs) ''role'' = PStr (lit ''assistant'')" "msg_get (called tcs) ''tool_calls'' = PList tcs"
  by (simp_all add: called_def msg_get_def dict_get_def)

lemma said_turn [simp]:
  "calls_listed (said role t)" "\<not> repeats env sig (said role t)" "is_tool (said role t) \<longleftrightarrow> role = ''tool''"
  by (auto simp: calls_listed_def repeats_def turn_calls_def py_or_def is_tool_def lit_inject)

lemma called_turn [simp]: "calls_listed (called tcs)" "\<not> is_tool (called tcs)"
  by (auto simp: calls_listed_def is_tool_def)

lemma prev_call_made [simp]:
  "prev_call (py_or (msg_get (make_tool_call_dict uid i name args) ''function'') (PDict [])) = (name, args)"
  by (simp add: prev_call_def msg_get_def make_tool_call_dict_def dict_get_def py_or_def)

lemma call_sig_made:
  "(case prev_call (py_or (msg_get (make_tool_call_dict uid i name args) ''function'') (PDict [])) of
      (n, a) \<Rightarrow> call_signature env n a = sig) \<longleftrightarrow> call_signature env name args = sig"
  by (simp only: prev_call_made prod.case)

lemma repeats_called:
  "repeats env sig (called (call_dicts uid calls)) \<longleftrightarrow>
     (\<exists>name args. calls = [(name, args)] \<and> sig = call_signature env name args)"
proof (cases calls)
  case Nil
  then show ?thesis by (simp add: repeats_def turn_calls_def py_or_def call_dicts_def)
next
  case (Cons c cs)
  then show ?thesis
    by (cases c; cases cs)
      (simp_all add: repeats_def turn_calls_def py_or_def[of "PList _"] call_dicts_def call_sig_made eq_commute[of sig]
        del: prev_call_made)
qed

text \<open>A history for examples: the same call twice, a tool result between.\<close>

definition sample_calls :: "(pyval \<times> pyval) list" where
  "sample_calls = [(PStr (lit ''run''), PStr (lit ''ls''))]"

definition sample_turn :: pyval where
  "sample_turn = called (call_dicts (\<lambda>_. []) sample_calls)"

definition sample_history :: "pyval list" where
  "sample_history = [said ''user'' (lit ''go''), sample_turn, said ''tool'' (lit ''x''), sample_turn]"

theorem guard_blocks_iff_witness:
  "apply_repeat_guard plain_env 2 (PList sample_history) sample_calls =
     Inr (Some (GUARD_TEMPLATE (lit ''run'') (lit ''3'')))"
proof -
  let ?sig = "call_signature plain_env (PStr (lit ''run'')) (PStr (lit ''ls''))"
  have ok: "\<forall>m \<in> set sample_history. calls_listed m" by code_simp
  have "filter (\<lambda>m. \<not> is_tool m) sample_history = [said ''user'' (lit ''go'')] @ [sample_turn, sample_turn] \<and>
      length [sample_turn, sample_turn] = nat 2 \<and> (\<forall>t \<in> set [sample_turn, sample_turn]. repeats plain_env ?sig t)"
    by code_simp
  then have "\<exists>us ts. filter (\<lambda>m. \<not> is_tool m) sample_history = us @ ts \<and>
      length ts = nat 2 \<and> (\<forall>t \<in> set ts. repeats plain_env ?sig t)" by blast
  moreover have "GUARD_TEMPLATE (py_text plain_env (PStr (lit ''run''))) (int_text (int (run_length plain_env ?sig sample_history) + 1)) =
      GUARD_TEMPLATE (lit ''run'') (lit ''3'')" by code_simp
  ultimately show ?thesis
    using guard_blocks_iff[OF ok, of 2 plain_env "PStr (lit ''run'')" "PStr (lit ''ls'')" "[]"]
    by (simp only: sample_calls_def if_True zero_less_numeral)
qed

text \<open>
  A conversation through the proxy: the client adds the user's turns, the system's and the
  tools' results; a reply without calls is added as it is; a reply with calls is added with
  its calls if the guard lets it through, and as the guard's message otherwise.
\<close>

inductive conversation :: "pyenv \<Rightarrow> int \<Rightarrow> pyval list \<Rightarrow> bool" for env thr where
  start: "conversation env thr []"
| told: "conversation env thr h \<Longrightarrow> role \<in> {''user'', ''system'', ''tool'', ''assistant''} \<Longrightarrow>
    conversation env thr (h @ [said role t])"
| passed: "conversation env thr h \<Longrightarrow> apply_repeat_guard env thr (PList h) calls = Inr None \<Longrightarrow>
    conversation env thr (h @ [called (call_dicts uid calls)])"
| blocked: "conversation env thr h \<Longrightarrow> apply_repeat_guard env thr (PList h) calls = Inr (Some t) \<Longrightarrow>
    conversation env thr (h @ [said ''assistant'' t])"

lemma conversation_listed: "conversation env thr h \<Longrightarrow> \<forall>m \<in> set h. calls_listed m"
  by (induction rule: conversation.induct) auto

lemma conversation_run:
  assumes "conversation env thr h" "0 < thr"
  shows "run_length env sig h \<le> nat thr"
  using assms
proof (induction arbitrary: sig rule: conversation.induct)
  case (passed h calls uid)
  have "turns.run env sig (h @ [called (call_dicts uid calls)]) \<le> nat thr"
  proof (cases "\<exists>name args. calls = [(name, args)]")
    case True
    then obtain name args where c: "calls = [(name, args)]" by blast
    have "\<not> nat thr \<le> turns.run env (call_signature env name args) h"
      using passed.hyps(2) passed.prems guard_spec[OF conversation_listed[OF passed.hyps(1)] passed.prems, of env name args "[]"]
      by (auto simp: c split: if_splits)
    then show ?thesis
      using passed.IH[OF passed.prems] unfolding run_length_run
      by (intro turns.run_bounded_snoc[where r = "call_signature env name args"]) (auto simp: repeats_called c)
  next
    case False
    then have "turns.run env sig (h @ [called (call_dicts uid calls)]) \<le> turns.run env sig h"
      by (intro turns.run_other) (auto simp: repeats_called)
    with passed.IH[OF passed.prems, of sig] show ?thesis
      by (simp add: run_length_run)
  qed
  then show ?case by (simp add: run_length_run)
qed (auto simp: run_length_run intro: order.trans[OF turns.run_other])

lemma conversation_prefix: "conversation env thr h \<Longrightarrow> prefix p h \<Longrightarrow> conversation env thr p"
  by (induction arbitrary: p rule: conversation.induct) (auto intro: conversation.intros)

lemma conversation_bounded:
  assumes "conversation env thr h" "0 < thr"
    and "filter (\<lambda>m. \<not> is_tool m) h = us @ ts @ vs" "\<forall>t \<in> set ts. repeats env sig t"
  shows "length ts \<le> nat thr"
proof (rule turns.stretch_bounded[OF _ assms(3,4)])
  fix p assume "prefix p h"
  from conversation_run[OF conversation_prefix[OF assms(1) this] assms(2)]
  show "turns.run env sig p \<le> nat thr" by (simp add: run_length_run)
qed

text \<open>
  C7: in every conversation that goes through the guard, no stretch of consecutive turns (tool
  results apart) repeats one and the same single call more than \<open>REPEAT_THRESHOLD\<close> times.
\<close>

theorem no_long_repetition:
  assumes "conversation env thr h" "0 < thr"
    and "filter (\<lambda>m. \<not> is_tool m) h = us @ ts @ vs" "\<forall>t \<in> set ts. repeats env sig t"
  shows "length ts \<le> nat thr"
  by (rule conversation_bounded[OF assms])

theorem no_long_repetition_witness: "length [sample_turn, sample_turn] \<le> nat 2"
proof -
  have "conversation plain_env 2 ([] @ [said ''user'' (lit ''go'')])"
    by (intro conversation.intros) simp_all
  then have "conversation plain_env 2 (([] @ [said ''user'' (lit ''go'')]) @ [sample_turn])"
    unfolding sample_turn_def by (rule conversation.passed) code_simp
  then have "conversation plain_env 2 ((([] @ [said ''user'' (lit ''go'')]) @ [sample_turn]) @ [said ''tool'' (lit ''x'')])"
    by (rule conversation.told) simp
  then have "conversation plain_env 2 (((([] @ [said ''user'' (lit ''go'')]) @ [sample_turn]) @ [said ''tool'' (lit ''x'')]) @ [sample_turn])"
    unfolding sample_turn_def by (rule conversation.passed) code_simp
  then have c: "conversation plain_env 2 sample_history" by (simp add: sample_history_def)
  have f: "filter (\<lambda>m. \<not> is_tool m) sample_history = [said ''user'' (lit ''go'')] @ [sample_turn, sample_turn] @ []"
    "\<forall>t \<in> set [sample_turn, sample_turn]. repeats plain_env (call_signature plain_env (PStr (lit ''run'')) (PStr (lit ''ls''))) t"
    by code_simp+
  show ?thesis by (rule no_long_repetition[OF c _ f]) simp
qed

text \<open>
  A turn that made two calls or more ends every run: whatever it and the reply call, the
  reply after it passes, so a loop of identical two-call turns is never stopped.
\<close>

theorem multi_call_turn_passes:
  assumes "\<forall>m \<in> set h. calls_listed m" "length calls \<noteq> 1" "0 < thr"
    "\<forall>m \<in> set results. is_tool m \<and> calls_listed m"
  shows "apply_repeat_guard env thr (PList (h @ called (call_dicts uid calls) # results)) reply = Inr None"
proof (cases reply)
  case Nil
  then show ?thesis by (simp add: apply_repeat_guard_def)
next
  case (Cons c cs)
  obtain name args where c: "c = (name, args)" by fastforce
  let ?h = "h @ called (call_dicts uid calls) # results"
  have "run_length env sig ?h = 0" for sig
    using assms(2,4) by (auto simp: run_length_def repeats_called filter_empty_conv)
  moreover have "\<forall>m \<in> set ?h. calls_listed m" using assms(1,4) by auto
  ultimately show ?thesis
    using assms(3) by (simp add: Cons c apply_repeat_guard_def count_recent_run_length)
qed

theorem multi_call_turn_passes_witness:
  "apply_repeat_guard plain_env 1 (PList ([said ''user'' (lit ''go'')] @
     called (call_dicts (\<lambda>_. []) (sample_calls @ sample_calls)) # [said ''tool'' (lit ''x'')])) sample_calls = Inr None"
  by (rule multi_call_turn_passes) (simp_all add: sample_calls_def)

end
