(* ===== verification/ProxyHooks.thy ===== *)
theory ProxyHooks
  imports RepeatGuard
begin

text \<open>
  The three hooks of the proxy callback (\<open>ToolMessageFixer\<close> in \<open>litellm/fix_tool_messages.py\<close>):
  the message-order shim before a call, the rewriting of a complete reply, and the rewriting
  of a streamed reply. A reply is a record of the attributes the hooks read and write; an
  attribute an object lacks reads as \<open>None\<close>, as \<open>getattr\<close> with its default does. The proxy's
  objects accept every assignment, except that \<open>finish_reason\<close> of a complete choice may refuse
  it (the code catches that).
\<close>

section \<open>The message-order shim\<close>

definition synthetic_turn :: pyval where
  "synthetic_turn = PDict [(PStr (lit ''role''), PStr (lit ''assistant'')), (PStr (lit ''content''), PStr (lit ''...''))]"

fun insert_turns :: "pyval list \<Rightarrow> pyval list" where
  "insert_turns [] = []"
| "insert_turns [msg] = [msg]"
| "insert_turns (msg # nxt # msgs) =
     (if msg_get msg ''role'' = PStr (lit ''tool'') \<and> msg_get nxt ''role'' = PStr (lit ''user'')
      then msg # synthetic_turn # insert_turns (nxt # msgs)
      else msg # insert_turns (nxt # msgs))"

definition async_pre_call_hook :: "(pyval \<times> pyval) list \<Rightarrow> (pyval \<times> pyval) list res" where
  "async_pre_call_hook data =
     (let messages = dict_get data (lit ''messages'') (PList [])
      in if \<not> truthy messages then Inr data
         else bind_res (py_iter messages) (\<lambda>ms.
                Inr (dict_set data (PStr (lit ''messages'')) (PList (insert_turns ms)))))"

section \<open>A complete reply\<close>

record message =
  content :: pyval
  tool_calls :: pyval

record choice =
  message :: "message option"
  finish_reason :: pyval
  finish_fixed :: bool

text \<open>\<open>(data or {}).get("messages") if isinstance(data, dict) else None\<close>.\<close>

definition hook_messages :: "pyval \<Rightarrow> pyval" where
  "hook_messages data =
     (case data of PDict d \<Rightarrow> dict_get d (lit ''messages'') PNone | _ \<Rightarrow> PNone)"

text \<open>The name and the arguments of a call the model made natively.\<close>

definition native_call :: "pyval \<Rightarrow> pyval \<times> pyval" where
  "native_call tc =
     (case attr_get tc (lit ''function'') PNone of
        PNone \<Rightarrow> (PNone, PStr [])
      | PDict d \<Rightarrow> (dict_get d (lit ''name'') PNone, dict_get d (lit ''arguments'') (PStr []))
      | fn \<Rightarrow> (attr_get fn (lit ''name'') PNone, attr_get fn (lit ''arguments'') (PStr [])))"

definition set_finish :: "string \<Rightarrow> choice \<Rightarrow> choice" where
  "set_finish v c = (if finish_fixed c then c else c\<lparr>finish_reason := PStr (lit v)\<rparr>)"

definition text_calls :: "call list \<Rightarrow> (pyval \<times> pyval) list" where
  "text_calls calls = map (\<lambda>(n, a). (n, PStr a)) calls"

definition tool_call_dicts :: "(nat \<Rightarrow> ustr) \<Rightarrow> call list \<Rightarrow> pyval" where
  "tool_call_dicts uid calls = PList (call_dicts uid (text_calls calls))"

text \<open>The body of the loop; \<open>uid\<close> gives the identifiers drawn for this choice's calls.\<close>

definition hook_choice :: "pyenv \<Rightarrow> int \<Rightarrow> (nat \<Rightarrow> ustr) \<Rightarrow> pyval \<Rightarrow> choice \<Rightarrow> choice res" where
  "hook_choice env thr uid messages c =
     (case message c of
        None \<Rightarrow> Inr c
      | Some msg \<Rightarrow>
          if truthy (tool_calls msg)
          then bind_res (py_iter (tool_calls msg)) (\<lambda>tcs.
                 bind_res (apply_repeat_guard env thr messages (map native_call tcs)) (\<lambda>b.
                   case b of
                     None \<Rightarrow> Inr c
                   | Some t \<Rightarrow>
                       Inr (set_finish ''stop'' (c\<lparr>message := Some (msg\<lparr>tool_calls := PNone, content := PStr t\<rparr>)\<rparr>))))
          else
            (case extract_tool_calls env (content msg) of (calls, cleaned) \<Rightarrow>
               if calls = [] then Inr c
               else bind_res (apply_repeat_guard env thr messages (text_calls calls)) (\<lambda>b.
                 case b of
                   Some t \<Rightarrow> Inr (set_finish ''stop'' (c\<lparr>message := Some (msg\<lparr>content := PStr t\<rparr>)\<rparr>))
                 | None \<Rightarrow>
                     Inr (set_finish ''tool_calls'' (c\<lparr>message := Some (msg\<lparr>
                       tool_calls := tool_call_dicts uid calls, content := py_or cleaned PNone\<rparr>)\<rparr>)))))"

text \<open>The reply: \<open>None\<close> when it has no \<open>choices\<close>. \<open>uid j i\<close> is drawn for call \<open>i\<close> of choice \<open>j\<close>.\<close>

definition async_post_call_success_hook ::
  "pyenv \<Rightarrow> int \<Rightarrow> (nat \<Rightarrow> nat \<Rightarrow> ustr) \<Rightarrow> pyval \<Rightarrow> choice list option \<Rightarrow> choice list option res" where
  "async_post_call_success_hook env thr uid data response =
     (case response of
        None \<Rightarrow> Inr None
      | Some choices \<Rightarrow>
          bind_res (map_res (\<lambda>(j, c). hook_choice env thr (uid j) (hook_messages data) c) (enumerate 0 choices))
            (\<lambda>cs. Inr (Some cs)))"

section \<open>A streamed reply\<close>

record delta =
  d_content :: pyval
  d_role :: pyval
  d_calls :: pyval

record schoice =
  s_delta :: "delta option"
  s_finish :: pyval

text \<open>\<open>ck_rest\<close>: what a chunk holds besides, which the hook copies.\<close>

record chunk =
  ck_choices :: "schoice list option"
  ck_rest :: ustr

text \<open>
  What the loop over the chunks has collected: the content parts, and for each index (in the
  order of first sight) the name and the arguments of the native call.
\<close>

record heard =
  parts :: "pyval list"
  natives :: "(pyval \<times> (pyval \<times> ustr)) list"

text \<open>One tool call of a delta. \<open>False\<close>: an exception, which the chunk's handler swallows.\<close>

definition hear_call :: "pyval \<Rightarrow> heard \<Rightarrow> heard \<times> bool" where
  "hear_call tc st =
     (let idx = attr_get tc (lit ''index'') PNone
      in if idx = PNone then (st, True)
         else
           (let (name, args) = native_call tc
            in if \<not> hashable idx then (st, False)
               else
                 (let (name0, args0) = (case map_of (natives st) idx of Some e \<Rightarrow> e | None \<Rightarrow> (PNone, []));
                      name1 = (if truthy name then name else name0);
                      keep = (\<lambda>a. st\<lparr>natives := dict_set (natives st) idx (name1, a)\<rparr>)
                  in if \<not> truthy args then (keep args0, True)
                     else case args of
                            PStr a \<Rightarrow> (keep (args0 @ a), True)
                          | _ \<Rightarrow> (keep args0, False))))"

fun hear_calls :: "pyval list \<Rightarrow> heard \<Rightarrow> heard \<times> bool" where
  "hear_calls [] st = (st, True)"
| "hear_calls (tc # tcs) st =
     (case hear_call tc st of (st', True) \<Rightarrow> hear_calls tcs st' | (st', False) \<Rightarrow> (st', False))"

definition hear_choice :: "schoice \<Rightarrow> heard \<Rightarrow> heard \<times> bool" where
  "hear_choice c st =
     (case s_delta c of
        None \<Rightarrow> (st, True)
      | Some d \<Rightarrow>
          (let st1 = (if truthy (d_content d) then st\<lparr>parts := parts st @ [d_content d]\<rparr> else st)
           in case py_iter (py_or (d_calls d) (PList [])) of
                Inl _ \<Rightarrow> (st1, False)
              | Inr tcs \<Rightarrow> hear_calls tcs st1))"

fun hear_choices :: "schoice list \<Rightarrow> heard \<Rightarrow> heard \<times> bool" where
  "hear_choices [] st = (st, True)"
| "hear_choices (c # cs) st =
     (case hear_choice c st of (st', True) \<Rightarrow> hear_choices cs st' | (st', False) \<Rightarrow> (st', False))"

definition hear_chunk :: "chunk \<Rightarrow> heard \<Rightarrow> heard" where
  "hear_chunk c st = (case ck_choices c of None \<Rightarrow> st | Some cs \<Rightarrow> fst (hear_choices cs st))"

definition hear :: "chunk list \<Rightarrow> heard" where
  "hear chunks = fold hear_chunk chunks \<lparr>parts = [], natives = []\<rparr>"

text \<open>\<open>"".join\<close> of parts that need not be text.\<close>

fun join_parts :: "pyval list \<Rightarrow> ustr res" where
  "join_parts [] = Inr []"
| "join_parts (PStr s # ps) = bind_res (join_parts ps) (\<lambda>t. Inr (s @ t))"
| "join_parts (_ # ps) = Inl TypeError"

text \<open>
  \<open>sorted(native_by_idx.keys())\<close>: the indexes are numbers, or texts; other mixtures raise.
  (Float indexes, which the protocol does not have, are left out.)
\<close>

definition sorted_keys :: "pyval list \<Rightarrow> pyval list res" where
  "sorted_keys ks =
     (if length ks \<le> 1 then Inr ks
      else if \<forall>k \<in> set ks. num_key k \<noteq> None then Inr (sort_key (\<lambda>k. the (num_key k)) ks)
      else if \<forall>k \<in> set ks. str_key k \<noteq> None then Inr (sort_key (\<lambda>k. the (str_key k)) ks)
      else Inl TypeError)"

definition assembled :: "heard \<Rightarrow> (pyval \<times> pyval) list res" where
  "assembled st =
     bind_res (sorted_keys (map fst (natives st))) (\<lambda>ks.
       Inr (map (\<lambda>k. case the (map_of (natives st) k) of (n, a) \<Rightarrow> (n, PStr a)) ks))"

text \<open>A copy of a chunk with every choice rewritten: the delta's fields and the finish reason.\<close>

definition stamp :: "pyval \<Rightarrow> pyval \<Rightarrow> (nat \<Rightarrow> pyval) \<Rightarrow> pyval \<Rightarrow> chunk \<Rightarrow> chunk res" where
  "stamp role cont calls finish c =
     (case ck_choices c of
        None \<Rightarrow> Inl AttributeError
      | Some cs \<Rightarrow>
          Inr (c\<lparr>ck_choices := Some (map (\<lambda>(j, ch). ch\<lparr>
            s_delta := map_option (\<lambda>d. d\<lparr>d_content := cont, d_role := role, d_calls := calls j\<rparr>) (s_delta ch),
            s_finish := finish\<rparr>) (enumerate 0 cs))\<rparr>))"

text \<open>The chunks a generator yields, and the exception that ends it, if any.\<close>

type_synonym stream = "chunk list \<times> exc option"

definition yield_all :: "chunk res list \<Rightarrow> stream" where
  "yield_all rs =
     (map (\<lambda>r. case r of Inr c \<Rightarrow> c) (takeWhile (\<lambda>r. \<not> isl r) rs),
      (case dropWhile (\<lambda>r. \<not> isl r) rs of Inl e # _ \<Rightarrow> Some e | _ \<Rightarrow> None))"

definition build_stop :: "ustr \<Rightarrow> chunk list \<Rightarrow> chunk res list" where
  "build_stop t chunks =
     (case chunks of
        [] \<Rightarrow> []
      | c # _ \<Rightarrow> [stamp (PStr (lit ''assistant'')) (PStr t) (\<lambda>_. PList []) (PStr (lit ''stop'')) c])"

text \<open>\<open>uid i j\<close> is drawn for call \<open>i\<close> in choice \<open>j\<close>.\<close>

definition synthesize :: "(nat \<Rightarrow> nat \<Rightarrow> ustr) \<Rightarrow> call list \<Rightarrow> chunk list \<Rightarrow> chunk res list" where
  "synthesize uid calls chunks =
     stamp (PStr (lit ''assistant'')) PNone (\<lambda>_. PList []) PNone (hd chunks) #
     map (\<lambda>(i, name, args). stamp PNone PNone
           (\<lambda>j. PList [make_tool_call_dict (uid i j) i name (PStr args)]) PNone (hd chunks))
       (enumerate 0 calls) @
     [stamp PNone PNone (\<lambda>_. PList []) (PStr (lit ''tool_calls'')) (last chunks)]"

definition async_post_call_streaming_iterator_hook ::
  "pyenv \<Rightarrow> int \<Rightarrow> (nat \<Rightarrow> nat \<Rightarrow> ustr) \<Rightarrow> pyval \<Rightarrow> chunk list \<Rightarrow> stream" where
  "async_post_call_streaming_iterator_hook env thr uid request_data chunks =
     (let st = hear chunks; messages = hook_messages request_data
      in case join_parts (parts st) of
           Inl e \<Rightarrow> ([], Some e)
         | Inr full \<Rightarrow>
             (let parsed_calls = fst (extract_tool_calls env (PStr full))
              in if parsed_calls \<noteq> [] then
                   (case apply_repeat_guard env thr messages (text_calls parsed_calls) of
                      Inl e \<Rightarrow> ([], Some e)
                    | Inr (Some t) \<Rightarrow> yield_all (build_stop t chunks)
                    | Inr None \<Rightarrow> yield_all (synthesize uid parsed_calls chunks))
                 else if natives st \<noteq> [] then
                   (case bind_res (assembled st) (apply_repeat_guard env thr messages) of
                      Inl e \<Rightarrow> ([], Some e)
                    | Inr (Some t) \<Rightarrow> yield_all (build_stop t chunks)
                    | Inr None \<Rightarrow> (chunks, None))
                 else (chunks, None)))"

section \<open>The shim: order restored, idle lost, idle the guard sees\<close>

definition clash :: "pyval \<Rightarrow> pyval \<Rightarrow> bool" where
  "clash m n \<longleftrightarrow> is_tool m \<and> msg_get n ''role'' = PStr (lit ''user'')"

lemma insert_turns_step:
  "insert_turns (m # n # ms) =
     (if clash m n then m # synthetic_turn # insert_turns (n # ms) else m # insert_turns (n # ms))"
  by (simp add: clash_def is_tool_def)

lemma synthetic_said: "synthetic_turn = said ''assistant'' (lit ''...'')"
  by (simp add: synthetic_turn_def said_def)

lemma synthetic_role [simp]: "msg_get synthetic_turn ''role'' = PStr (lit ''assistant'')"
  by (simp add: synthetic_said)

lemma synthetic_no_clash [simp]: "\<not> clash synthetic_turn n" "\<not> clash m synthetic_turn"
  by (simp_all add: clash_def is_tool_def)

lemma insert_turns_Cons: "\<exists>ms'. insert_turns (m # ms) = m # ms'"
  by (cases ms) auto

lemma insert_turns_ordered: "successively (\<lambda>m n. \<not> clash m n) (insert_turns ms)"
proof (induction ms rule: insert_turns.induct)
  case (3 m n ms)
  obtain ms' where "insert_turns (n # ms) = n # ms'" using insert_turns_Cons by blast
  with 3 show ?case by (auto simp: insert_turns_step clash_def[symmetric] is_tool_def[symmetric] simp del: insert_turns.simps(3))
qed auto

lemma insert_turns_subseq: "subseq ms (insert_turns ms)"
  by (induction ms rule: insert_turns.induct) auto

lemma insert_turns_id: "successively (\<lambda>m n. \<not> clash m n) ms \<Longrightarrow> insert_turns ms = ms"
  by (induction ms rule: insert_turns.induct) (auto simp: clash_def is_tool_def)

lemma filter_insert_turns:
  "filter (\<lambda>m. m \<noteq> synthetic_turn) (insert_turns ms) = filter (\<lambda>m. m \<noteq> synthetic_turn) ms"
  by (induction ms rule: insert_turns.induct) auto

text \<open>
  C10: after the pre-call hook no user turn follows a tool result directly; the turns of the
  request are all there in their order, only synthetic turns were added; a request that was in
  order is sent as it is; the other fields of the request are untouched.
\<close>

theorem pre_call_hook_orders:
  assumes "map_of data (PStr (lit ''messages'')) = Some (PList ms)"
  shows "\<exists>data' ms'. async_pre_call_hook data = Inr data' \<and>
    map_of data' (PStr (lit ''messages'')) = Some (PList ms') \<and>
    successively (\<lambda>m n. \<not> (msg_get m ''role'' = PStr (lit ''tool'') \<and> msg_get n ''role'' = PStr (lit ''user''))) ms' \<and>
    subseq ms ms' \<and>
    filter (\<lambda>m. m \<noteq> synthetic_turn) ms' = filter (\<lambda>m. m \<noteq> synthetic_turn) ms \<and>
    (successively (\<lambda>m n. \<not> (msg_get m ''role'' = PStr (lit ''tool'') \<and> msg_get n ''role'' = PStr (lit ''user''))) ms
       \<longrightarrow> data' = data) \<and>
    (\<forall>k. k \<noteq> PStr (lit ''messages'') \<longrightarrow> map_of data' k = map_of data k)"
proof -
  have get: "dict_get data (lit ''messages'') (PList []) = PList ms" using assms by (simp add: dict_get_def)
  have same: "dict_set data (PStr (lit ''messages'')) (PList ms) = data"
    by (rule dict_set_present[OF assms])
  have "async_pre_call_hook data = Inr (dict_set data (PStr (lit ''messages'')) (PList (insert_turns ms)))"
    unfolding async_pre_call_hook_def get Let_def using same by (cases ms) simp_all
  then show ?thesis
    using insert_turns_ordered[of ms] insert_turns_subseq[of ms] filter_insert_turns[of ms] insert_turns_id[of ms] same
    unfolding clash_def is_tool_def by (intro exI[of _ "insert_turns ms"] exI conjI) (auto simp: map_of_dict_set)
qed

theorem pre_call_hook_orders_witness:
  "\<exists>data' ms'. async_pre_call_hook [(PStr (lit ''messages''), PList [said ''tool'' (lit ''x''), said ''user'' (lit ''y'')])] = Inr data' \<and>
    map_of data' (PStr (lit ''messages'')) = Some (PList ms') \<and>
    subseq [said ''tool'' (lit ''x''), said ''user'' (lit ''y'')] ms'"
  using pre_call_hook_orders[of "[(PStr (lit ''messages''), PList [said ''tool'' (lit ''x''), said ''user'' (lit ''y'')])]"
      "[said ''tool'' (lit ''x''), said ''user'' (lit ''y'')]"]
  by fastforce

lemma run_snoc_user: "msg_get n ''role'' = PStr (lit ''user'') \<Longrightarrow> turns.run env sig (h @ [n]) = 0"
  by (simp add: turns.run_snoc is_tool_def repeats_def)

lemma run_after_user:
  assumes "msg_get n ''role'' = PStr (lit ''user'')"
  shows "turns.run env sig (h @ n # ms) = turns.run env sig (n # ms)"
proof (induction ms rule: rev_induct)
  case Nil
  show ?case using run_snoc_user[OF assms, of env sig h] run_snoc_user[OF assms, of env sig "[]"] by simp
next
  case (snoc m ms)
  then show ?case
    using turns.run_snoc[of env sig "h @ n # ms" m] turns.run_snoc[of env sig "n # ms" m] by simp
qed

lemma insert_turns_tail:
  "insert_turns ms = ms \<or> (\<exists>u n x y. ms = u @ n # x \<and> insert_turns ms = y @ n # x \<and>
     msg_get n ''role'' = PStr (lit ''user''))"
proof (induction ms rule: insert_turns.induct)
  case (3 m n ms)
  show ?case
  proof (cases "insert_turns (n # ms) = n # ms")
    case True
    show ?thesis
    proof (cases "clash m n")
      case c: True
      then have "insert_turns (m # n # ms) = [m, synthetic_turn] @ n # ms" by (simp only: insert_turns_step True) simp
      moreover have "m # n # ms = [m] @ n # ms" by simp
      ultimately show ?thesis using c unfolding clash_def by blast
    next
      case False
      then show ?thesis by (simp add: insert_turns_step[of m n ms] True del: insert_turns.simps)
    qed
  next
    case False
    with 3 obtain u p x y where e: "n # ms = u @ p # x" "insert_turns (n # ms) = y @ p # x"
      "msg_get p ''role'' = PStr (lit ''user'')" by blast
    from e(1) have "m # n # ms = (m # u) @ p # x" by simp
    moreover have "insert_turns (m # n # ms) = (if clash m n then m # synthetic_turn # y else m # y) @ p # x"
      by (simp only: insert_turns_step e(2)) simp
    ultimately show ?thesis using e(3) by blast
  qed
qed auto

lemma run_insert_turns: "run_length env sig (insert_turns ms) = run_length env sig ms"
  using insert_turns_tail[of ms]
proof (elim disjE exE conjE)
  fix u n x y
  assume "ms = u @ n # x" "insert_turns ms = y @ n # x" "msg_get n ''role'' = PStr (lit ''user'')"
  then show ?thesis using run_after_user[of n env sig] by (simp add: run_length_run)
qed simp

lemma set_insert_turns: "set (insert_turns ms) \<subseteq> insert synthetic_turn (set ms)"
  by (induction ms rule: insert_turns.induct) auto

lemma listed_insert_turns: "\<forall>m \<in> set ms. calls_listed m \<Longrightarrow> \<forall>m \<in> set (insert_turns ms). calls_listed m"
  using set_insert_turns[of ms] by (auto simp: synthetic_said)

lemma guard_insert_turns:
  assumes "\<forall>m \<in> set ms. calls_listed m"
  shows "apply_repeat_guard env thr (PList (insert_turns ms)) calls = apply_repeat_guard env thr (PList ms) calls"
  using count_recent_run_length[OF assms] count_recent_run_length[OF listed_insert_turns[OF assms]]
  by (auto simp: apply_repeat_guard_def run_insert_turns split: list.splits)

text \<open>
  The shim does not disturb the repeat guard: on the request with the synthetic turns it
  decides as on the request as sent.
\<close>

theorem shim_keeps_guard:
  assumes "\<forall>m \<in> set ms. calls_listed m" "async_pre_call_hook [(PStr (lit ''messages''), PList ms)] = Inr data"
  shows "apply_repeat_guard env thr (hook_messages (PDict data)) calls = apply_repeat_guard env thr (PList ms) calls"
proof (cases ms)
  case Nil
  with assms(2) have "data = [(PStr (lit ''messages''), PList [])]"
    by (simp add: async_pre_call_hook_def dict_get_def)
  then have "hook_messages (PDict data) = PList []" by (simp add: hook_messages_def dict_get_def)
  then show ?thesis using Nil by simp
next
  case (Cons m ms')
  with assms(2) have "data = [(PStr (lit ''messages''), PList (insert_turns ms))]"
    by (simp add: async_pre_call_hook_def dict_get_def)
  then have "hook_messages (PDict data) = PList (insert_turns ms)" by (simp add: hook_messages_def dict_get_def)
  then show ?thesis using guard_insert_turns[OF assms(1)] by simp
qed

section \<open>What leaves the reply hook\<close>

text \<open>The calls a choice offers: the native ones, or else those read from its text.\<close>

definition offered :: "pyenv \<Rightarrow> choice \<Rightarrow> (pyval \<times> pyval) list" where
  "offered env c =
     (case message c of
        None \<Rightarrow> []
      | Some m \<Rightarrow>
          (case tool_calls m of
             PList (tc # tcs) \<Rightarrow> map native_call (tc # tcs)
           | _ \<Rightarrow> text_calls (fst (extract_tool_calls env (content m)))))"

text \<open>The calls a client reads off a choice: from dictionaries or from objects.\<close>

definition read_tc :: "pyval \<Rightarrow> pyval \<times> pyval" where
  "read_tc tc = (case tc of PDict d \<Rightarrow> prev_call (py_or (msg_get tc ''function'') (PDict [])) | _ \<Rightarrow> native_call tc)"

definition delivered :: "choice \<Rightarrow> (pyval \<times> pyval) list" where
  "delivered c =
     (case message c of
        None \<Rightarrow> []
      | Some m \<Rightarrow> (case tool_calls m of PList tcs \<Rightarrow> map read_tc tcs | _ \<Rightarrow> []))"

text \<open>A choice as the proxy's models have it: native calls are absent, or a list of objects.\<close>

definition proxy_choice :: "choice \<Rightarrow> bool" where
  "proxy_choice c \<longleftrightarrow>
     (case message c of
        None \<Rightarrow> False
      | Some m \<Rightarrow>
          (case tool_calls m of
             PNone \<Rightarrow> True
           | PList tcs \<Rightarrow> list_all (\<lambda>tc. case tc of PObj _ \<Rightarrow> True | _ \<Rightarrow> False) tcs
           | _ \<Rightarrow> False))"

lemma native_read: "(case tc of PObj _ \<Rightarrow> True | _ \<Rightarrow> False) \<Longrightarrow> read_tc tc = native_call tc"
  by (cases tc) (auto simp: read_tc_def)

lemma made_read: "read_tc (make_tool_call_dict u i n a) = (n, a)"
  unfolding read_tc_def using prev_call_made[of u i n a] by (simp add: make_tool_call_dict_def)

lemma call_dicts_read: "map read_tc (call_dicts uid calls) = calls"
  by (simp add: call_dicts_def comp_def case_prod_unfold made_read)

lemma set_finish_simps [simp]:
  "message (set_finish v c) = message c" "finish_fixed (set_finish v c) = finish_fixed c"
  "finish_reason (set_finish v c) = (if finish_fixed c then finish_reason c else PStr (lit v))"
  by (simp_all add: set_finish_def)

text \<open>The three ways through the loop body.\<close>

lemma hook_choice_cases:
  assumes "proxy_choice c" "hook_choice env thr uid messages c = Inr c'"
  obtains (idle) "offered env c = []" "c' = c" "delivered c = []"
    | (stopped) m t where "offered env c \<noteq> []" "apply_repeat_guard env thr messages (offered env c) = Inr (Some t)"
        "message c' = Some m" "\<not> truthy (tool_calls m)" "content m = PStr t" "delivered c' = []"
        "finish_reason c' = (if finish_fixed c then finish_reason c else PStr (lit ''stop''))"
    | (passed) m where "offered env c \<noteq> []" "apply_repeat_guard env thr messages (offered env c) = Inr None"
        "message c' = Some m" "truthy (tool_calls m)" "delivered c' = offered env c"
proof -
  obtain m where m: "message c = Some m" using assms(1) by (cases "message c") (auto simp: proxy_choice_def)
  show thesis
  proof (cases "truthy (tool_calls m)")
    case True
    then obtain tc tcs where tcs: "tool_calls m = PList (tc # tcs)"
      using assms(1) m by (cases "tool_calls m"; cases "case tool_calls m of PList xs \<Rightarrow> xs") (auto simp: proxy_choice_def)
    have off: "offered env c = map native_call (tc # tcs)" using m tcs by (simp add: offered_def)
    have rd: "map read_tc (tc # tcs) = map native_call (tc # tcs)"
      using assms(1) m tcs native_read by (auto simp: proxy_choice_def list_all_iff)
    have h: "bind_res (apply_repeat_guard env thr messages (offered env c)) (\<lambda>b. case b of None \<Rightarrow> Inr c
        | Some t \<Rightarrow> Inr (set_finish ''stop'' (c\<lparr>message := Some (m\<lparr>tool_calls := PNone, content := PStr t\<rparr>)\<rparr>))) = Inr c'"
      using assms(2) m tcs off by (simp add: hook_choice_def)
    then obtain b where b: "apply_repeat_guard env thr messages (offered env c) = Inr b"
      by (auto simp: bind_res_eq_Inr)
    show thesis
    proof (cases b)
      case None
      with h b have "c' = c" by simp
      moreover have "delivered c = offered env c" using m tcs rd by (simp add: delivered_def off)
      ultimately show thesis using passed[of m] None b off m True by simp
    next
      case (Some t)
      let ?m = "m\<lparr>tool_calls := PNone, content := PStr t\<rparr>"
      have "c' = set_finish ''stop'' (c\<lparr>message := Some ?m\<rparr>)" using h b Some by simp
      then show thesis using stopped[of t ?m] Some b off by (simp add: delivered_def)
    qed
  next
    case False
    then have tcs: "tool_calls m = PNone \<or> tool_calls m = PList []"
      using assms(1) m by (auto simp: proxy_choice_def split: pyval.splits)
    obtain calls cleaned where ex: "extract_tool_calls env (content m) = (calls, cleaned)" by fastforce
    have off: "offered env c = text_calls calls" using m tcs ex by (auto simp: offered_def)
    have none: "delivered c = []" using m tcs by (auto simp: delivered_def)
    show thesis
    proof (cases "calls = []")
      case True
      then have "c' = c" using assms(2) m False ex by (simp add: hook_choice_def)
      moreover have "offered env c = []" using True off by (simp add: text_calls_def)
      ultimately show thesis using idle none by blast
    next
      case some: False
      then have ne: "offered env c \<noteq> []" using off by (simp add: text_calls_def)
      have h: "bind_res (apply_repeat_guard env thr messages (offered env c)) (\<lambda>b. case b of
          Some t \<Rightarrow> Inr (set_finish ''stop'' (c\<lparr>message := Some (m\<lparr>content := PStr t\<rparr>)\<rparr>))
        | None \<Rightarrow> Inr (set_finish ''tool_calls'' (c\<lparr>message := Some (m\<lparr>
            tool_calls := tool_call_dicts uid calls, content := py_or cleaned PNone\<rparr>)\<rparr>))) = Inr c'"
        using assms(2) m False ex some off by (simp add: hook_choice_def)
      then obtain b where b: "apply_repeat_guard env thr messages (offered env c) = Inr b"
        by (auto simp: bind_res_eq_Inr)
      show thesis
      proof (cases b)
        case None
        let ?m = "m\<lparr>tool_calls := tool_call_dicts uid calls, content := py_or cleaned PNone\<rparr>"
        have "c' = set_finish ''tool_calls'' (c\<lparr>message := Some ?m\<rparr>)" using h b None by simp
        moreover have "truthy (tool_call_dicts uid calls)"
          using some by (cases calls) (auto simp: tool_call_dicts_def call_dicts_def text_calls_def)
        ultimately show thesis using passed[of ?m] None b ne off
          by (simp add: delivered_def tool_call_dicts_def call_dicts_read)
      next
        case (Some t)
        let ?m = "m\<lparr>content := PStr t\<rparr>"
        have "c' = set_finish ''stop'' (c\<lparr>message := Some ?m\<rparr>)" using h b Some by simp
        then show thesis using stopped[of t ?m] Some b ne tcs by (auto simp: delivered_def)
      qed
    qed
  qed
qed

text \<open>
  C5: no choice of a complete reply leaves the hook with calls the guard blocks. The hook keeps
  the number of choices; a choice that offers no call is returned as it was; a choice whose
  calls the guard passes is returned with exactly those calls, in their order; a choice whose
  calls the guard blocks is returned without any call, with the guard's message as its text and
  \<open>stop\<close> as its finish reason (where that can be set).
\<close>

theorem success_hook_guarded:
  assumes "async_post_call_success_hook env thr uid data (Some cs) = Inr (Some cs')" "list_all proxy_choice cs"
  shows "length cs' = length cs \<and> (\<forall>j < length cs.
    (let calls = offered env (cs ! j); guard = apply_repeat_guard env thr (hook_messages data) calls in
      (calls = [] \<longrightarrow> cs' ! j = cs ! j) \<and>
      (calls \<noteq> [] \<and> guard = Inr None \<longrightarrow> delivered (cs' ! j) = calls) \<and>
      (\<forall>t. calls \<noteq> [] \<and> guard = Inr (Some t) \<longrightarrow> delivered (cs' ! j) = [] \<and>
         (\<exists>m. message (cs' ! j) = Some m \<and> content m = PStr t \<and> \<not> truthy (tool_calls m)) \<and>
         (\<not> finish_fixed (cs ! j) \<longrightarrow> finish_reason (cs' ! j) = PStr (lit ''stop'')))))"
proof -
  from assms(1) have m: "list_all2 (\<lambda>x y. (\<lambda>(j, c). hook_choice env thr (uid j) (hook_messages data) c) x = Inr y) (enumerate 0 cs) cs'"
    by (auto simp: async_post_call_success_hook_def bind_res_eq_Inr map_res_Inr_iff)
  then have len: "length cs' = length cs" by (auto dest: list_all2_lengthD)
  have "(let calls = offered env (cs ! j); guard = apply_repeat_guard env thr (hook_messages data) calls in
      (calls = [] \<longrightarrow> cs' ! j = cs ! j) \<and>
      (calls \<noteq> [] \<and> guard = Inr None \<longrightarrow> delivered (cs' ! j) = calls) \<and>
      (\<forall>t. calls \<noteq> [] \<and> guard = Inr (Some t) \<longrightarrow> delivered (cs' ! j) = [] \<and>
         (\<exists>m. message (cs' ! j) = Some m \<and> content m = PStr t \<and> \<not> truthy (tool_calls m)) \<and>
         (\<not> finish_fixed (cs ! j) \<longrightarrow> finish_reason (cs' ! j) = PStr (lit ''stop''))))" if j: "j < length cs" for j
  proof -
    have h: "hook_choice env thr (uid j) (hook_messages data) (cs ! j) = Inr (cs' ! j)"
      using list_all2_nthD[OF m, of j] j by (simp add: nth_enumerate_eq)
    have pc: "proxy_choice (cs ! j)" using assms(2) j by (simp add: list_all_length)
    show ?thesis
    proof (cases rule: hook_choice_cases[OF pc h, case_names idle stopped passed])
      case idle
      then show ?thesis by (simp add: Let_def)
    next
      case (stopped m t)
      then show ?thesis by (simp add: Let_def)
    next
      case (passed m)
      then show ?thesis by (simp add: Let_def)
    qed
  qed
  with len show ?thesis by blast
qed

text \<open>A turn as the client records it from a delivered choice.\<close>

definition client_turn :: "(nat \<Rightarrow> ustr) \<Rightarrow> choice \<Rightarrow> pyval" where
  "client_turn uid c =
     (if delivered c \<noteq> [] then called (call_dicts uid (delivered c))
      else said ''assistant'' (case message c of Some m \<Rightarrow> (case content m of PStr s \<Rightarrow> s | _ \<Rightarrow> []) | None \<Rightarrow> []))"

text \<open>
  A conversation whose every request goes through the pre-call hook and every reply through
  the reply hook.
\<close>

inductive mediated :: "pyenv \<Rightarrow> int \<Rightarrow> pyval list \<Rightarrow> bool" for env thr where
  begun: "mediated env thr []"
| told: "mediated env thr h \<Longrightarrow> role \<in> {''user'', ''system'', ''tool''} \<Longrightarrow> mediated env thr (h @ [said role t])"
| replied: "mediated env thr h \<Longrightarrow>
    async_pre_call_hook [(PStr (lit ''messages''), PList h)] = Inr data \<Longrightarrow> proxy_choice c \<Longrightarrow>
    async_post_call_success_hook env thr uid (PDict data) (Some [c]) = Inr (Some [c']) \<Longrightarrow>
    mediated env thr (h @ [client_turn u c'])"

lemma hook_messages_pre:
  assumes "async_pre_call_hook [(PStr (lit ''messages''), PList h)] = Inr data"
  shows "hook_messages (PDict data) = PList (insert_turns h)"
proof (cases h)
  case Nil
  with assms have "data = [(PStr (lit ''messages''), PList [])]"
    by (simp add: async_pre_call_hook_def dict_get_def)
  then show ?thesis using Nil by (simp add: hook_messages_def dict_get_def)
next
  case (Cons m h')
  with assms have "data = [(PStr (lit ''messages''), PList (insert_turns h))]"
    by (simp add: async_pre_call_hook_def dict_get_def)
  then show ?thesis by (simp add: hook_messages_def dict_get_def)
qed

lemma mediated_conversation: "mediated env thr h \<Longrightarrow> conversation env thr h"
proof (induction rule: mediated.induct)
  case begun
  show ?case by (rule conversation.start)
next
  case (told h role t)
  then show ?case by (intro conversation.told) auto
next
  case (replied h data c uid c' u)
  note listed = conversation_listed[OF replied.IH]
  have g: "apply_repeat_guard env thr (hook_messages (PDict data)) calls = apply_repeat_guard env thr (PList h) calls" for calls
    using hook_messages_pre[OF replied.hyps(2)] guard_insert_turns[OF listed] by simp
  have h: "hook_choice env thr (uid 0) (hook_messages (PDict data)) c = Inr c'"
    using replied.hyps(4) by (auto simp: async_post_call_success_hook_def bind_res_eq_Inr)
  show ?case
  proof (cases rule: hook_choice_cases[OF replied.hyps(3) h, case_names idle stopped passed])
    case idle
    then show ?thesis using replied.IH by (auto simp: client_turn_def intro: conversation.told)
  next
    case (stopped m t)
    then show ?thesis using conversation.blocked[OF replied.IH, of "offered env c" t] g by (simp add: client_turn_def)
  next
    case (passed m)
    then show ?thesis using conversation.passed[OF replied.IH, of "offered env c" u] g by (simp add: client_turn_def)
  qed
qed

text \<open>
  C1: end to end: in a conversation whose requests and replies all go through the two hooks, no
  stretch of consecutive turns (tool results apart) repeats one single call more than
  \<open>REPEAT_THRESHOLD\<close> times.
\<close>

theorem mediated_no_long_repetition:
  assumes "mediated env thr h" "0 < thr"
    and "filter (\<lambda>m. \<not> is_tool m) h = us @ ts @ vs" "\<forall>t \<in> set ts. repeats env sig t"
  shows "length ts \<le> nat thr"
  by (rule conversation_bounded[OF mediated_conversation[OF assms(1)] assms(2-4)])

section \<open>Streams\<close>

text \<open>The calls a client reads off a stream, in the order of its chunks.\<close>

definition chunk_calls :: "chunk \<Rightarrow> (pyval \<times> pyval) list" where
  "chunk_calls c =
     (case ck_choices c of
        Some (ch # _) \<Rightarrow>
          (case s_delta ch of
             Some d \<Rightarrow> (case d_calls d of PList tcs \<Rightarrow> map read_tc tcs | _ \<Rightarrow> [])
           | None \<Rightarrow> [])
      | _ \<Rightarrow> [])"

definition stream_calls :: "chunk list \<Rightarrow> (pyval \<times> pyval) list" where
  "stream_calls cs = concat (map chunk_calls cs)"

text \<open>A chunk of one choice whose delta is the text \<open>s\<close>.\<close>

definition carries :: "ustr \<Rightarrow> chunk \<Rightarrow> bool" where
  "carries s c \<longleftrightarrow>
     (case ck_choices c of
        Some [ch] \<Rightarrow>
          (case s_delta ch of Some d \<Rightarrow> d_content d = PStr s \<and> d_calls d = PNone | None \<Rightarrow> False)
      | _ \<Rightarrow> False)"

lemma carriesE:
  assumes "carries s c"
  obtains ch d where "ck_choices c = Some [ch]" "s_delta ch = Some d" "d_content d = PStr s" "d_calls d = PNone"
  using assms by (auto simp: carries_def split: option.splits list.splits)

lemma hear_carries:
  "carries s c \<Longrightarrow> hear_chunk c st = (if s = [] then st else st\<lparr>parts := parts st @ [PStr s]\<rparr>)"
  by (erule carriesE) (simp add: hear_chunk_def hear_choice_def py_or_def)

lemma hear_texts:
  assumes "list_all2 carries ss cs"
  shows "fold hear_chunk cs st = st\<lparr>parts := parts st @ map PStr (filter (\<lambda>s. s \<noteq> []) ss)\<rparr>"
  using assms by (induction arbitrary: st rule: list_all2_induct) (simp_all add: hear_carries)

lemma join_texts: "join_parts (map PStr (filter (\<lambda>s. s \<noteq> []) ss)) = Inr (concat ss)"
  by (induction ss) auto

lemma heard_texts:
  assumes "list_all2 carries ss cs"
  shows "join_parts (parts (hear cs)) = Inr (concat ss)" "natives (hear cs) = []"
  unfolding hear_def hear_texts[OF assms] by (simp_all add: join_texts)

text \<open>A stamped chunk of one choice.\<close>

lemma stamp_one:
  assumes "carries s c"
  shows "\<exists>c'. stamp role cont calls fin c = Inr c' \<and>
    chunk_calls c' = (case calls 0 of PList tcs \<Rightarrow> map read_tc tcs | _ \<Rightarrow> [])"
  using assms by (rule carriesE) (auto simp: stamp_def chunk_calls_def split: pyval.splits)

lemma carries_no_calls: "carries s c \<Longrightarrow> chunk_calls c = []"
  by (erule carriesE) (simp add: chunk_calls_def)

lemma yield_all_Inr: "yield_all (map Inr cs) = (cs, None)"
  by (induction cs) (simp_all add: yield_all_def)

lemma synthesize_calls:
  assumes "list_all2 carries ss cs" "cs \<noteq> []"
  shows "\<exists>out. synthesize uid calls cs = map Inr out \<and> stream_calls out = text_calls calls"
proof -
  obtain s0 where hd: "carries s0 (hd cs)" using assms by (cases cs; cases ss) auto
  obtain s1 where lst: "carries s1 (last cs)"
    using assms by (metis last_in_set list_all2_conv_all_nth in_set_conv_nth)
  obtain a where a: "stamp (PStr (lit ''assistant'')) PNone (\<lambda>_. PList []) PNone (hd cs) = Inr a" "chunk_calls a = []"
    using stamp_one[OF hd, of "PStr (lit ''assistant'')" PNone "\<lambda>_. PList []" PNone] by auto
  obtain z where z: "stamp PNone PNone (\<lambda>_. PList []) (PStr (lit ''tool_calls'')) (last cs) = Inr z" "chunk_calls z = []"
    using stamp_one[OF lst, of PNone PNone "\<lambda>_. PList []" "PStr (lit ''tool_calls'')"] by auto
  have "\<exists>f. \<forall>i n ar. stamp PNone PNone (\<lambda>j. PList [make_tool_call_dict (uid i j) i n (PStr ar)]) PNone (hd cs) = Inr (f i n ar) \<and>
      chunk_calls (f i n ar) = [(n, PStr ar)]"
  proof -
    have "\<exists>c'. stamp PNone PNone (\<lambda>j. PList [make_tool_call_dict (uid i j) i n (PStr ar)]) PNone (hd cs) = Inr c' \<and>
        chunk_calls c' = [(n, PStr ar)]" for i n ar
      using stamp_one[OF hd, of PNone PNone "\<lambda>j. PList [make_tool_call_dict (uid i j) i n (PStr ar)]" PNone]
      by (simp add: made_read)
    then show ?thesis by metis
  qed
  then obtain f where f: "\<And>i n ar. stamp PNone PNone (\<lambda>j. PList [make_tool_call_dict (uid i j) i n (PStr ar)]) PNone (hd cs) = Inr (f i n ar)"
    "\<And>i n ar. chunk_calls (f i n ar) = [(n, PStr ar)]" by blast
  let ?mid = "map (\<lambda>(i, n, ar). f i n ar) (enumerate 0 calls)"
  have "synthesize uid calls cs = map Inr (a # ?mid @ [z])"
    unfolding synthesize_def a(1) z(1) f(1) by (simp add: comp_def case_prod_unfold)
  moreover have "stream_calls ?mid = text_calls calls"
  proof -
    have "concat (map (chunk_calls \<circ> (\<lambda>(i, n, ar). f i n ar)) (enumerate k calls)) = text_calls calls" for k
      by (induction calls arbitrary: k) (auto simp: text_calls_def f(2))
    then show ?thesis by (simp add: stream_calls_def)
  qed
  ultimately show ?thesis using a z by (intro exI[of _ "a # ?mid @ [z]"]) (simp add: stream_calls_def)
qed

lemma build_stop_calls:
  assumes "list_all2 carries ss cs" "cs \<noteq> []"
  shows "\<exists>out. build_stop t cs = map Inr out \<and> stream_calls out = [] \<and> length out = 1"
proof -
  obtain c cs' s0 where c: "cs = c # cs'" "carries s0 c" using assms by (cases cs; cases ss) auto
  obtain a where "stamp (PStr (lit ''assistant'')) (PStr t) (\<lambda>_. PList []) (PStr (lit ''stop'')) c = Inr a" "chunk_calls a = []"
    using stamp_one[OF c(2), of "PStr (lit ''assistant'')" "PStr t" "\<lambda>_. PList []" "PStr (lit ''stop'')"] by auto
  with c show ?thesis by (intro exI[of _ "[a]"]) (simp add: build_stop_def stream_calls_def)
qed

lemma stream_text:
  assumes "list_all2 carries ss cs"
  shows "async_post_call_streaming_iterator_hook env thr uid data cs =
    (let calls = fst (extract_tool_calls env (PStr (concat ss)))
     in if calls = [] then (cs, None)
        else case apply_repeat_guard env thr (hook_messages data) (text_calls calls) of
               Inl e \<Rightarrow> ([], Some e)
             | Inr (Some t) \<Rightarrow> yield_all (build_stop t cs)
             | Inr None \<Rightarrow> yield_all (synthesize uid calls cs))"
  using heard_texts[OF assms] by (simp add: async_post_call_streaming_iterator_hook_def Let_def)

text \<open>
  C4: streamed and complete replies agree: however the text of a reply is cut into chunks, the
  stream that leaves the hook carries exactly the calls that the reply hook delivers for the
  whole text (none when the guard blocks them), and it ends without an exception.
\<close>

theorem stream_agrees_with_reply:
  assumes "list_all2 carries ss cs" "message c = Some m" "tool_calls m = PNone" "content m = PStr (concat ss)"
    and "hook_choice env thr uid' (hook_messages data) c = Inr c'"
  shows "\<exists>out. async_post_call_streaming_iterator_hook env thr uid data cs = (out, None) \<and>
    stream_calls out = delivered c'"
proof -
  let ?calls = "fst (extract_tool_calls env (PStr (concat ss)))"
  have pc: "proxy_choice c" using assms(2,3) by (simp add: proxy_choice_def)
  have off: "offered env c = text_calls ?calls" using assms(2-4) by (simp add: offered_def)
  have ne: "cs \<noteq> []" if "?calls \<noteq> []"
  proof
    assume "cs = []"
    with assms(1) have "concat ss = []" by simp
    with that show False by (simp add: extract_tool_calls_def)
  qed
  show ?thesis
  proof (cases rule: hook_choice_cases[OF pc assms(5), case_names idle stopped passed])
    case idle
    then have "?calls = []" using off by (simp add: text_calls_def)
    moreover have "stream_calls cs = []"
      using assms(1) carries_no_calls by (induction rule: list_all2_induct) (auto simp: stream_calls_def)
    ultimately show ?thesis using idle by (simp add: stream_text[OF assms(1)])
  next
    case (stopped m' t)
    then have c: "?calls \<noteq> []" using off by (auto simp: text_calls_def)
    obtain out where "build_stop t cs = map Inr out" "stream_calls out = []"
      using build_stop_calls[OF assms(1) ne[OF c]] by blast
    then show ?thesis using stopped c off by (simp add: stream_text[OF assms(1)] Let_def yield_all_Inr)
  next
    case (passed m')
    then have c: "?calls \<noteq> []" using off by (auto simp: text_calls_def)
    obtain out where "synthesize uid ?calls cs = map Inr out" "stream_calls out = text_calls ?calls"
      using synthesize_calls[OF assms(1) ne[OF c]] by blast
    then show ?thesis using passed c off by (simp add: stream_text[OF assms(1)] Let_def yield_all_Inr)
  qed
qed

section \<open>Native calls in fragments\<close>

text \<open>A fragment: the index of the call it belongs to, a name (or none) and a piece of arguments.\<close>

type_synonym fragment = "int \<times> pyval \<times> ustr"

definition frag :: "fragment \<Rightarrow> pyval" where
  "frag = (\<lambda>(i, n, a). PObj [(lit ''index'', PInt i),
     (lit ''function'', PObj [(lit ''name'', n), (lit ''arguments'', PStr a)])])"

definition frag_chunk :: "fragment list \<Rightarrow> chunk \<Rightarrow> bool" where
  "frag_chunk fs c \<longleftrightarrow>
     (case ck_choices c of
        Some [ch] \<Rightarrow>
          (case s_delta ch of Some d \<Rightarrow> d_content d = PNone \<and> d_calls d = PList (map frag fs) | None \<Rightarrow> False)
      | _ \<Rightarrow> False)"

text \<open>What the fragments of one index add up to: the last name given, and all the pieces.\<close>

definition last_name :: "fragment list \<Rightarrow> pyval" where
  "last_name fs = fold (\<lambda>(_, n, _) n0. if truthy n then n else n0) fs PNone"

definition pieces :: "fragment list \<Rightarrow> ustr" where
  "pieces fs = concat (map (\<lambda>(_, _, a). a) fs)"

definition of_index :: "int \<Rightarrow> fragment list \<Rightarrow> fragment list" where
  "of_index i fs = filter (\<lambda>(j, _). j = i) fs"

definition entry :: "int \<Rightarrow> fragment list \<Rightarrow> pyval \<times> ustr" where
  "entry i fs = (last_name (of_index i fs), pieces (of_index i fs))"

text \<open>The dictionary after the fragments \<open>fs\<close>.\<close>

definition gathered :: "fragment list \<Rightarrow> (pyval \<times> (pyval \<times> ustr)) list" where
  "gathered fs = map (\<lambda>i. (PInt i, entry i fs)) (fromkeys (map fst fs))"

lemma entry_snoc:
  "entry i (fs @ [(j, n, a)]) =
     (if j = i then (if truthy n then n else fst (entry i fs), snd (entry i fs) @ a) else entry i fs)"
  by (simp add: entry_def of_index_def last_name_def pieces_def)

lemma entry_none: "i \<notin> fst ` set fs \<Longrightarrow> entry i fs = (PNone, [])"
proof -
  assume "i \<notin> fst ` set fs"
  then have "of_index i fs = []" by (force simp: of_index_def filter_empty_conv)
  then show ?thesis by (simp add: entry_def last_name_def pieces_def)
qed

lemma fromkeys_snoc: "fromkeys (xs @ [x]) = (if x \<in> set xs then fromkeys xs else fromkeys xs @ [x])"
  by (induction xs) auto

lemma dict_set_map:
  assumes "distinct ks" "inj_on f (insert k (set ks))"
  shows "dict_set (map (\<lambda>i. (f i, g i)) ks) (f k) v =
    (if k \<in> set ks then map (\<lambda>i. (f i, if i = k then v else g i)) ks else map (\<lambda>i. (f i, g i)) ks @ [(f k, v)])"
  using assms
proof (induction ks)
  case (Cons i ks)
  have "map (\<lambda>i. (f i, if i = k then v else g i)) ks = map (\<lambda>i. (f i, g i)) ks" if "k \<notin> set ks"
    using that by auto
  with Cons show ?case by (auto simp: inj_on_def)
qed simp

lemma map_of_gathered: "map_of (gathered fs) (PInt i) = (if i \<in> fst ` set fs then Some (entry i fs) else None)"
proof -
  have "map_of (map (\<lambda>i. (PInt i, g i)) ks) (PInt i) = (if i \<in> set ks then Some (g i) else None)"
    for g :: "int \<Rightarrow> pyval \<times> ustr" and ks
    by (induction ks) auto
  then show ?thesis by (simp add: gathered_def)
qed

lemma hear_call_frag:
  assumes "natives st = gathered fs"
  shows "hear_call (frag f) st = (st\<lparr>natives := gathered (fs @ [f])\<rparr>, True)"
proof -
  obtain i n a where f: "f = (i, n, a)" by (cases f)
  have e: "(case map_of (gathered fs) (PInt i) of Some e \<Rightarrow> e | None \<Rightarrow> (PNone, [])) = entry i fs"
    by (simp add: map_of_gathered entry_none)
  have "gathered (fs @ [f]) = dict_set (gathered fs) (PInt i)
      (if truthy n then n else fst (entry i fs), snd (entry i fs) @ a)"
    unfolding gathered_def f
    by (subst dict_set_map) (auto simp: inj_on_def fromkeys_snoc entry_snoc entry_none)
  then show ?thesis
    using assms e by (cases "entry i fs") (auto simp: hear_call_def frag_def f native_call_def Let_def)
qed

lemma hear_calls_frags:
  "natives st = gathered fs \<Longrightarrow> hear_calls (map frag gs) st = (st\<lparr>natives := gathered (fs @ gs)\<rparr>, True)"
proof (induction gs arbitrary: st fs)
  case Nil
  then show ?case by (cases st) simp
next
  case (Cons g gs)
  then show ?case using hear_call_frag[OF Cons.prems, of g] Cons.IH[of _ "fs @ [g]"] by simp
qed

lemma hear_frag_chunk:
  assumes "frag_chunk gs c" "natives st = gathered fs"
  shows "hear_chunk c st = st\<lparr>natives := gathered (fs @ gs)\<rparr>"
proof -
  obtain ch d where "ck_choices c = Some [ch]" "s_delta ch = Some d" "d_content d = PNone" "d_calls d = PList (map frag gs)"
    using assms(1) by (auto simp: frag_chunk_def split: option.splits list.splits)
  moreover have "py_or (PList (map frag gs)) (PList []) = PList (map frag gs)" by (simp add: py_or_def)
  ultimately show ?thesis
    using hear_calls_frags[OF assms(2), of gs] by (simp add: hear_chunk_def hear_choice_def)
qed

lemma hear_frags:
  assumes "list_all2 frag_chunk gss cs"
  shows "hear cs = \<lparr>parts = [], natives = gathered (concat gss)\<rparr>"
proof -
  have "fold hear_chunk cs \<lparr>parts = [], natives = gathered fs\<rparr> = \<lparr>parts = [], natives = gathered (fs @ concat gss)\<rparr>" for fs
    using assms by (induction arbitrary: fs rule: list_all2_induct) (simp_all add: hear_frag_chunk)
  from this[of "[]"] show ?thesis by (simp add: hear_def gathered_def)
qed

lemma sorted_keys_ints: "sorted_keys (map PInt is) = Inr (map PInt (sort is))"
proof -
  have "sort_key (\<lambda>k. the (num_key k)) (map PInt is) = map PInt (sort is)" by (simp add: sort_key_map)
  moreover have "sort is = is" if "length is \<le> 1" using that by (cases "is") auto
  ultimately show ?thesis by (auto simp: sorted_keys_def)
qed

text \<open>
  C9: native calls that arrive in fragments, interleaved in any way over the chunks, are put
  together per index, each with the last name given for it and its argument pieces in the
  order of arrival, and are examined in the order of their indexes.
\<close>

theorem fragments_assembled:
  assumes "list_all2 frag_chunk gss cs"
  shows "assembled (hear cs) = Inr (map (\<lambda>i. (last_name (of_index i (concat gss)), PStr (pieces (of_index i (concat gss)))))
    (sort (fromkeys (map fst (concat gss)))))"
proof -
  have k: "map fst (gathered (concat gss)) = map PInt (fromkeys (map fst (concat gss)))"
    by (simp add: gathered_def comp_def)
  show ?thesis
    unfolding assembled_def hear_frags[OF assms] heard.select_convs k sorted_keys_ints
    by (auto simp: map_of_gathered entry_def)
qed

text \<open>The calls a stream offers, once all of it has been heard.\<close>

definition stream_offered :: "pyenv \<Rightarrow> chunk list \<Rightarrow> (pyval \<times> pyval) list" where
  "stream_offered env cs =
     (case join_parts (parts (hear cs)) of
        Inl _ \<Rightarrow> []
      | Inr full \<Rightarrow>
          (let calls = fst (extract_tool_calls env (PStr full))
           in if calls \<noteq> [] then text_calls calls
              else (case assembled (hear cs) of Inr calls \<Rightarrow> calls | Inl _ \<Rightarrow> [])))"

definition silent_stop :: "ustr \<Rightarrow> chunk \<Rightarrow> bool" where
  "silent_stop t c \<longleftrightarrow>
     (\<exists>chs. ck_choices c = Some chs \<and>
       (\<forall>ch \<in> set chs. s_finish ch = PStr (lit ''stop'') \<and>
          (\<forall>d. s_delta ch = Some d \<longrightarrow> d_content d = PStr t \<and> d_calls d = PList [])))"

lemma stamp_stop:
  "stamp role (PStr t) (\<lambda>_. PList []) (PStr (lit ''stop'')) c = Inr c' \<Longrightarrow> silent_stop t c'"
  by (auto simp: stamp_def silent_stop_def in_set_enumerate_eq split: option.splits prod.splits)

lemma build_stop_silent:
  assumes "yield_all (build_stop t cs) = (out, None)"
  shows "length out \<le> 1 \<and> list_all (silent_stop t) out"
proof (cases cs)
  case Nil
  with assms show ?thesis by (simp add: build_stop_def yield_all_def)
next
  case (Cons c cs')
  let ?r = "stamp (PStr (lit ''assistant'')) (PStr t) (\<lambda>_. PList []) (PStr (lit ''stop'')) c"
  have b: "build_stop t cs = [?r]" by (simp only: build_stop_def Cons list.case)
  show ?thesis
  proof (cases ?r)
    case (Inl e)
    with assms show ?thesis unfolding b Inl by (simp add: yield_all_def)
  next
    case (Inr c')
    with assms have "out = [c']" unfolding b Inr by (simp add: yield_all_def)
    with stamp_stop[OF Inr] show ?thesis by simp
  qed
qed

lemma guard_nil [simp]: "apply_repeat_guard env thr messages [] = Inr None"
  by (simp add: apply_repeat_guard_def)

lemma assembled_nil: "natives st = [] \<Longrightarrow> assembled st = Inr []"
  by (simp add: assembled_def sorted_keys_def)

text \<open>
  C8: a stream whose calls (written in its text, or native) the guard blocks comes out as at
  most one chunk, which says the guard's message, stops, and carries no call; a stream that
  offers no call comes out chunk for chunk as it came in.
\<close>

theorem stream_guarded:
  assumes "async_post_call_streaming_iterator_hook env thr uid data cs = (out, None)"
  shows "(stream_offered env cs = [] \<longrightarrow> out = cs) \<and>
    (\<forall>t. apply_repeat_guard env thr (hook_messages data) (stream_offered env cs) = Inr (Some t) \<longrightarrow>
       length out \<le> 1 \<and> list_all (silent_stop t) out)"
proof -
  note hook = assms[unfolded async_post_call_streaming_iterator_hook_def Let_def]
  obtain full where full: "join_parts (parts (hear cs)) = Inr full"
    using hook by (cases "join_parts (parts (hear cs))") auto
  let ?calls = "fst (extract_tool_calls env (PStr full))"
  show ?thesis
  proof (cases "?calls = []")
    case False
    then have off: "stream_offered env cs = text_calls ?calls" by (simp add: stream_offered_def full)
    have "text_calls ?calls \<noteq> []" using False by (simp add: text_calls_def)
    moreover have "length out \<le> 1 \<and> list_all (silent_stop t) out"
      if "apply_repeat_guard env thr (hook_messages data) (text_calls ?calls) = Inr (Some t)" for t
      using hook full False that by (intro build_stop_silent) simp
    ultimately show ?thesis using off by simp
  next
    case True
    show ?thesis
    proof (cases "natives (hear cs) = []")
      case nat: True
      have off: "stream_offered env cs = []" using assembled_nil[OF nat] True by (simp add: stream_offered_def full)
      have "out = cs" using hook full True nat by simp
      then show ?thesis using off by simp
    next
      case False
      have "bind_res (assembled (hear cs)) (apply_repeat_guard env thr (hook_messages data)) \<noteq> Inl e" for e
        using hook full True False by auto
      then obtain calls where a: "assembled (hear cs) = Inr calls" by (cases "assembled (hear cs)") auto
      have off: "stream_offered env cs = calls" using a True by (simp add: stream_offered_def full)
      have "out = cs" if "calls = []"
        using hook full True False a that by simp
      moreover have "length out \<le> 1 \<and> list_all (silent_stop t) out"
        if "apply_repeat_guard env thr (hook_messages data) calls = Inr (Some t)" for t
        using hook full True False a that by (intro build_stop_silent) simp
      ultimately show ?thesis using off by simp
    qed
  qed
qed

section \<open>Examples\<close>

definition sample_reply :: choice where
  "sample_reply = \<lparr>message = Some \<lparr>content = PStr (lit ''<tool_call>'' @ object_json sample_call @ lit ''</tool_call>''),
     tool_calls = PNone\<rparr>, finish_reason = PStr (lit ''stop''), finish_fixed = False\<rparr>"

definition sample_chunk :: "ustr \<Rightarrow> chunk" where
  "sample_chunk s = \<lparr>ck_choices = Some [\<lparr>s_delta = Some \<lparr>d_content = PStr s, d_role = PNone, d_calls = PNone\<rparr>,
     s_finish = PNone\<rparr>], ck_rest = []\<rparr>"

definition no_uid :: "nat \<Rightarrow> nat \<Rightarrow> ustr" where
  "no_uid i j = []"

definition sample_reply_after :: choice where
  "sample_reply_after = \<lparr>message = Some \<lparr>content = PNone, tool_calls = tool_call_dicts (\<lambda>_. []) [described sample_call]\<rparr>,
     finish_reason = PStr (lit ''tool_calls''), finish_fixed = False\<rparr>"

lemma sample_hooked: "hook_choice env 2 (\<lambda>_. []) PNone sample_reply = Inr sample_reply_after"
proof -
  have "apply_repeat_guard env 2 PNone (text_calls [described sample_call]) = Inr None"
    by (cases "described sample_call")
      (simp add: apply_repeat_guard_def text_calls_def count_recent_identical_calls_def py_or_def)
  then show ?thesis
    unfolding hook_choice_def sample_reply_def sample_reply_after_def
    using sample_extracted[of env] by (simp add: set_finish_def py_or_def del: append.simps map_append)
qed

theorem shim_keeps_guard_witness:
  "\<exists>data. async_pre_call_hook [(PStr (lit ''messages''), PList sample_history)] = Inr data \<and>
     apply_repeat_guard plain_env 2 (hook_messages (PDict data)) sample_calls =
     apply_repeat_guard plain_env 2 (PList sample_history) sample_calls"
proof -
  have l: "\<forall>m \<in> set sample_history. calls_listed m" by code_simp
  obtain data where d: "async_pre_call_hook [(PStr (lit ''messages''), PList sample_history)] = Inr data"
    by (simp add: async_pre_call_hook_def dict_get_def sample_history_def)
  from shim_keeps_guard[OF l d] d show ?thesis by blast
qed

theorem success_hook_guarded_witness:
  "\<exists>cs'. async_post_call_success_hook plain_env 2 no_uid PNone (Some [sample_reply]) = Inr (Some cs') \<and>
     delivered (cs' ! 0) = offered plain_env sample_reply"
proof -
  have h: "async_post_call_success_hook plain_env 2 no_uid PNone (Some [sample_reply]) = Inr (Some [sample_reply_after])"
    using sample_hooked[of plain_env] by (simp add: async_post_call_success_hook_def hook_messages_def no_uid_def[abs_def])
  have o: "offered plain_env sample_reply = text_calls [described sample_call]"
    using sample_extracted[of plain_env] by (simp add: offered_def sample_reply_def del: append.simps map_append)
  have g: "apply_repeat_guard plain_env 2 (hook_messages PNone) (offered plain_env sample_reply) = Inr None"
    "offered plain_env sample_reply \<noteq> []" "list_all proxy_choice [sample_reply]"
    unfolding o by code_simp+
  from success_hook_guarded[OF h g(3)] g have "delivered ([sample_reply_after] ! 0) = offered plain_env sample_reply"
    by (simp add: Let_def del: not_None_eq)
  with h show ?thesis by blast
qed

text \<open>A native reply, and the fragments of its call in a stream.\<close>

definition sample_frags :: "fragment list list" where
  "sample_frags = [[(1, PStr (lit ''b''), lit ''{'')], [(0, PStr (lit ''a''), lit ''x''), (1, PNone, lit ''}'')]]"

definition sample_frag_chunks :: "chunk list" where
  "sample_frag_chunks = map (\<lambda>fs. \<lparr>ck_choices = Some [\<lparr>s_delta = Some \<lparr>d_content = PNone, d_role = PNone,
     d_calls = PList (map frag fs)\<rparr>, s_finish = PNone\<rparr>], ck_rest = []\<rparr>) sample_frags"

theorem fragments_assembled_witness:
  "assembled (hear sample_frag_chunks) = Inr [(PStr (lit ''a''), PStr (lit ''x'')), (PStr (lit ''b''), PStr (lit ''{}''))]"
proof -
  have "list_all2 frag_chunk sample_frags sample_frag_chunks"
    by (simp add: sample_frag_chunks_def sample_frags_def frag_chunk_def)
  note e = fragments_assembled[OF this]
  have "map (\<lambda>i. (last_name (of_index i (concat sample_frags)), PStr (pieces (of_index i (concat sample_frags)))))
      (sort (fromkeys (map fst (concat sample_frags)))) =
    [(PStr (lit ''a''), PStr (lit ''x'')), (PStr (lit ''b''), PStr (lit ''{}''))]"
    by code_simp
  with e show ?thesis by simp
qed

definition native_reply :: choice where
  "native_reply = \<lparr>message = Some \<lparr>content = PNone, tool_calls = PList [frag (0, PStr (lit ''run''), lit ''ls'')]\<rparr>,
     finish_reason = PStr (lit ''tool_calls''), finish_fixed = False\<rparr>"

definition native_turn :: pyval where
  "native_turn = client_turn (\<lambda>_. []) native_reply"

theorem mediated_no_long_repetition_witness: "length [native_turn] \<le> nat 1"
proof -
  have b: "mediated plain_env 1 ([] @ [said ''user'' (lit ''go'')])"
    by (intro mediated.intros) simp_all
  have pre: "async_pre_call_hook [(PStr (lit ''messages''), PList ([] @ [said ''user'' (lit ''go'')]))] =
      Inr [(PStr (lit ''messages''), PList [said ''user'' (lit ''go'')])]"
    by code_simp
  have post: "async_post_call_success_hook plain_env 1 no_uid
      (PDict [(PStr (lit ''messages''), PList [said ''user'' (lit ''go'')])]) (Some [native_reply]) = Inr (Some [native_reply])"
    "proxy_choice native_reply"
    by code_simp+
  have h: "mediated plain_env 1 (([] @ [said ''user'' (lit ''go'')]) @ [client_turn (\<lambda>_. []) native_reply])"
    by (rule mediated.replied[OF b pre post(2,1)])
  have f: "filter (\<lambda>m. \<not> is_tool m) (([] @ [said ''user'' (lit ''go'')]) @ [client_turn (\<lambda>_. []) native_reply]) =
      [said ''user'' (lit ''go'')] @ [native_turn] @ []"
    "\<forall>t \<in> set [native_turn]. repeats plain_env (call_signature plain_env (PStr (lit ''run'')) (PStr (lit ''ls''))) t"
    by code_simp+
  show ?thesis by (rule mediated_no_long_repetition[OF h _ f]) simp
qed

theorem stream_agrees_with_reply_witness:
  "\<exists>out. async_post_call_streaming_iterator_hook plain_env 2 no_uid PNone
      [sample_chunk (lit ''<tool_call>'' @ take 5 (object_json sample_call)),
       sample_chunk (drop 5 (object_json sample_call) @ lit ''</tool_call>'')] = (out, None) \<and>
    stream_calls out = delivered sample_reply_after"
proof -
  let ?ss = "[lit ''<tool_call>'' @ take 5 (object_json sample_call), drop 5 (object_json sample_call) @ lit ''</tool_call>'']"
  have c: "list_all2 carries ?ss (map sample_chunk ?ss)" by (simp add: sample_chunk_def carries_def)
  have m: "message sample_reply = Some \<lparr>content = PStr (lit ''<tool_call>'' @ object_json sample_call @ lit ''</tool_call>''),
      tool_calls = PNone\<rparr>" by (simp add: sample_reply_def)
  have t: "content \<lparr>content = PStr (lit ''<tool_call>'' @ object_json sample_call @ lit ''</tool_call>''), tool_calls = PNone\<rparr> =
      PStr (concat ?ss)" by simp
  have h: "hook_choice plain_env 2 (\<lambda>_. []) (hook_messages PNone) sample_reply = Inr sample_reply_after"
    using sample_hooked[of plain_env] by (simp add: hook_messages_def)
  from stream_agrees_with_reply[OF c m _ t h, of no_uid] show ?thesis by simp
qed

theorem stream_guarded_witness:
  "\<exists>out. async_post_call_streaming_iterator_hook plain_env 2 no_uid PNone [sample_chunk (lit ''hi'')] = (out, None) \<and>
     out = [sample_chunk (lit ''hi'')]"
proof -
  have h: "async_post_call_streaming_iterator_hook plain_env 2 no_uid PNone [sample_chunk (lit ''hi'')] =
      ([sample_chunk (lit ''hi'')], None)"
    by code_simp
  have "stream_offered plain_env [sample_chunk (lit ''hi'')] = []" by code_simp
  with stream_guarded[OF h] h show ?thesis by blast
qed

end
