(* ===== verification/Effects.thy ===== *)
theory Effects
  imports Prelude
begin

text \<open>
  Code that calls the outside world: a computation takes the world and returns a value or an
  exception, and the world after it, which an exception does not undo. Loops are over lists.
  \<open>keeps P m\<close> says that \<open>m\<close> keeps the property \<open>P\<close> of the world on every exit.
\<close>

type_synonym ('w, 'a) io = "'w \<Rightarrow> 'a res \<times> 'w"

definition ret :: "'a \<Rightarrow> ('w, 'a) io" where
  "ret x w = (Inr x, w)"

definition lift_res :: "'a res \<Rightarrow> ('w, 'a) io" where
  "lift_res r w = (r, w)"

definition io_bind :: "('w, 'a) io \<Rightarrow> ('a \<Rightarrow> ('w, 'b) io) \<Rightarrow> ('w, 'b) io" where
  "io_bind m f w = (case m w of (Inl e, w') \<Rightarrow> (Inl e, w') | (Inr x, w') \<Rightarrow> f x w')"

text \<open>\<open>try: m except: h\<close> and \<open>try: m finally: f\<close> (an exception of \<open>f\<close> replaces that of \<open>m\<close>).\<close>

definition io_catch :: "('w, 'a) io \<Rightarrow> (exc \<Rightarrow> ('w, 'a) io) \<Rightarrow> ('w, 'a) io" where
  "io_catch m h w = (case m w of (Inl e, w') \<Rightarrow> h e w' | (Inr x, w') \<Rightarrow> (Inr x, w'))"

definition io_finally :: "('w, 'a) io \<Rightarrow> ('w, unit) io \<Rightarrow> ('w, 'a) io" where
  "io_finally m f w =
     (case m w of (r, w') \<Rightarrow> (case f w' of (Inl e, w'') \<Rightarrow> (Inl e, w'') | (Inr _, w'') \<Rightarrow> (r, w'')))"

fun for_each :: "('b \<Rightarrow> ('w, 'a) io) \<Rightarrow> 'b list \<Rightarrow> ('w, 'a list) io" where
  "for_each f [] = ret []"
| "for_each f (x # xs) = io_bind (f x) (\<lambda>y. io_bind (for_each f xs) (\<lambda>ys. ret (y # ys)))"

lemma ret_apply [simp]: "ret x w = (Inr x, w)"
  by (simp add: ret_def)

lemma lift_res_apply [simp]: "lift_res r w = (r, w)"
  by (simp add: lift_res_def)

lemma lift_res_Inr [simp]: "lift_res (Inr x) = ret x"
  by (simp add: fun_eq_iff)

lemma io_bind_ret [simp]: "io_bind (ret x) f = f x"
  by (simp add: io_bind_def fun_eq_iff)

lemma io_bind_ret_right [simp]: "io_bind m ret = m"
  by (auto simp: io_bind_def fun_eq_iff split: prod.splits sum.splits)

lemma io_bind_assoc: "io_bind (io_bind m f) g = io_bind m (\<lambda>x. io_bind (f x) g)"
  by (auto simp: io_bind_def fun_eq_iff split: prod.splits sum.splits)

lemma io_bind_eq_Inr:
  "io_bind m f w = (Inr y, w') \<longleftrightarrow> (\<exists>x v. m w = (Inr x, v) \<and> f x v = (Inr y, w'))"
  by (auto simp: io_bind_def split: prod.splits sum.splits)

lemma lift_res_eq_Inr: "lift_res r w = (Inr x, w') \<longleftrightarrow> r = Inr x \<and> w' = w"
  by auto

section \<open>What a computation does to the world\<close>

text \<open>
  A relation between the world before and the world after, on every exit. If it is reflexive and
  transitive it goes through every way of putting computations together, which is proved once here.
\<close>

definition along :: "('w \<Rightarrow> 'w \<Rightarrow> bool) \<Rightarrow> ('w, 'a) io \<Rightarrow> bool" where
  "along R m \<longleftrightarrow> (\<forall>w. R w (snd (m w)))"

lemma alongD: "along R m \<Longrightarrow> m w = (r, w') \<Longrightarrow> R w w'"
  unfolding along_def by (metis snd_conv)

lemma alongI: "(\<And>w r w'. m w = (r, w') \<Longrightarrow> R w w') \<Longrightarrow> along R m"
  unfolding along_def by (metis surjective_pairing)

locale world_order =
  fixes R :: "'w \<Rightarrow> 'w \<Rightarrow> bool"
  assumes stays: "R w w"
    and goes_on: "R u v \<Longrightarrow> R v w \<Longrightarrow> R u w"
begin

lemma ret_along: "along R (ret x)"
  by (simp add: along_def stays)

lemma lift_along: "along R (lift_res r)"
  by (simp add: along_def stays)

lemma bind_along: "along R m \<Longrightarrow> (\<And>x. along R (f x)) \<Longrightarrow> along R (io_bind m f)"
  by (rule alongI) (auto simp: io_bind_def split: prod.splits sum.splits dest: alongD intro: goes_on)

lemma catch_along: "along R m \<Longrightarrow> (\<And>e. along R (h e)) \<Longrightarrow> along R (io_catch m h)"
  by (rule alongI) (auto simp: io_catch_def split: prod.splits sum.splits dest: alongD intro: goes_on)

lemma finally_along: "along R m \<Longrightarrow> along R f \<Longrightarrow> along R (io_finally m f)"
  by (rule alongI) (auto simp: io_finally_def split: prod.splits sum.splits dest: alongD intro: goes_on)

lemma for_each_along: "(\<And>x. x \<in> set xs \<Longrightarrow> along R (f x)) \<Longrightarrow> along R (for_each f xs)"
  by (induction xs) (auto intro!: bind_along simp: ret_along simp del: ret_apply)

end

definition keeps :: "('w \<Rightarrow> bool) \<Rightarrow> ('w, 'a) io \<Rightarrow> bool" where
  "keeps P m \<longleftrightarrow> (\<forall>w. P w \<longrightarrow> P (snd (m w)))"

interpretation kept: world_order "\<lambda>w w'. P w \<longrightarrow> P w'" for P
  by unfold_locales auto

lemma keeps_along: "keeps P = along (\<lambda>w w'. P w \<longrightarrow> P w')"
  by (simp add: fun_eq_iff keeps_def along_def)

named_theorems keeps_rules \<open>how computations keep a property of the world\<close>

lemmas keeps_ret [keeps_rules, simp] = kept.ret_along [folded keeps_along]

lemmas keeps_lift [keeps_rules, simp] = kept.lift_along [folded keeps_along]

lemmas keeps_bind [keeps_rules] = kept.bind_along [folded keeps_along]

lemmas keeps_catch [keeps_rules] = kept.catch_along [folded keeps_along]

lemmas keeps_finally [keeps_rules] = kept.finally_along [folded keeps_along]

lemmas keeps_for_each [keeps_rules] = kept.for_each_along [folded keeps_along]

lemma keeps_if [keeps_rules]: "(b \<Longrightarrow> keeps P m) \<Longrightarrow> (\<not> b \<Longrightarrow> keeps P n) \<Longrightarrow> keeps P (if b then m else n)"
  by simp

lemma keepsD: "keeps P m \<Longrightarrow> P w \<Longrightarrow> m w = (r, w') \<Longrightarrow> P w'"
  unfolding keeps_def by (metis snd_conv)

end
