(* ===== verification/Reconciler.thy ===== *)
theory Reconciler
  imports Regex Json Effects
begin

text \<open>
  The series reconciler of Bookshelf (\<open>k8s/plex/bookshelf/files/series_reconciler.py\<close>). The
  service is a parameter: a function from a request to the text of its answer (or a failure)
  and its next state. Every request made is recorded. \<open>str.lower\<close> outside Latin-1 and the
  decimal digits outside ASCII are parameters (the context rule for a final sigma is left out).
\<close>

section \<open>Text\<close>

record unidb =
  lower_u :: "nat \<Rightarrow> ustr"
  digit_u :: "nat \<Rightarrow> bool"

definition lower_latin :: "char \<Rightarrow> char" where
  "lower_latin c =
     (let n = (of_char c :: nat)
      in if 65 \<le> n \<and> n \<le> 90 \<or> 192 \<le> n \<and> n \<le> 222 \<and> n \<noteq> 215 then char_of (n + 32) else c)"

fun lower_char :: "unidb \<Rightarrow> uchar \<Rightarrow> ustr" where
  "lower_char db (L c) = [L (lower_latin c)]"
| "lower_char db (U n) = lower_u db (n + 256)"

definition lower :: "unidb \<Rightarrow> ustr \<Rightarrow> ustr" where
  "lower db s = concat (map (lower_char db) s)"

fun re_digit :: "unidb \<Rightarrow> uchar \<Rightarrow> bool" where
  "re_digit db (L c) = ascii_digit (L c)"
| "re_digit db (U n) = digit_u db (n + 256)"

definition dash :: uchar where
  "dash = L CHR ''-''"

definition slug_char :: "uchar \<Rightarrow> bool" where
  "slug_char c \<longleftrightarrow> ascii_digit c \<or> (97 \<le> ucode c \<and> ucode c \<le> 122)"

text \<open>\<open>s.strip("-")\<close>.\<close>

definition strip_dash :: "ustr \<Rightarrow> ustr" where
  "strip_dash s = rev (dropWhile (\<lambda>c. c = dash) (rev (dropWhile (\<lambda>c. c = dash) s)))"

definition slug :: "unidb \<Rightarrow> ustr \<Rightarrow> ustr" where
  "slug db t =
     strip_dash (re_sub (rx_many1 (\<lambda>c. c = dash)) [dash]
       (re_sub (rx_many1 (\<lambda>c. \<not> slug_char c)) [dash] (lower db t)))"

section \<open>Reading the service's objects\<close>

fun positive :: "pyval \<Rightarrow> bool res" where
  "positive (PInt i) = Inr (0 < i)"
| "positive (PBool b) = Inr b"
| "positive (PFloat r) = Inr (truthy (PFloat r) \<and> r \<noteq> lit ''nan'' \<and> hd r \<noteq> L CHR ''-'')"
| "positive _ = Inl TypeError"

definition VOLUME_SUFFIX :: "unidb \<Rightarrow> rx" where
  "VOLUME_SUFFIX db =
     rx_seq [Many py_space, Ch (\<lambda>c. c = L CHR ''#''),
             rx_many1 (\<lambda>c. re_digit db c \<or> c = L CHR ''.'' \<or> c = L CHR ''-''), Eol]"

definition series_name :: "unidb \<Rightarrow> pyval \<Rightarrow> ustr res" where
  "series_name db book =
     bind_res (py_get book ''seriesTitle'' PNone) (\<lambda>t.
       case py_or t (PStr []) of
         PStr title \<Rightarrow> Inr (strip (re_sub (VOLUME_SUFFIX db) [] title))
       | _ \<Rightarrow> Inl TypeError)"

section \<open>The service\<close>

datatype verb = GET | PUT | POST

record request =
  verb :: verb
  url :: ustr
  data :: "ustr option"

text \<open>The world: the service's state and the requests made so far.\<close>

type_synonym 's world = "'s \<times> request list"
type_synonym 's service = "request \<Rightarrow> 's \<Rightarrow> ustr res \<times> 's"

text \<open>What a run is configured with: the service, \<open>BASE\<close> and \<open>DRY\<close>, and the interpreter's parts.\<close>

record 's config =
  service :: "'s service"
  base :: ustr
  dry :: bool
  penv :: pyenv
  uni :: unidb

definition send :: "'s config \<Rightarrow> request \<Rightarrow> ('s world, ustr) io" where
  "send cfg r = (\<lambda>(s, log). case service cfg r s of (a, s') \<Rightarrow> (a, (s', log @ [r])))"

definition api :: "'s config \<Rightarrow> ustr \<Rightarrow> verb \<Rightarrow> pyval option \<Rightarrow> ('s world, pyval) io" where
  "api cfg path meth body =
     io_bind (lift_res (case body of
         None \<Rightarrow> Inr None
       | Some b \<Rightarrow> (case dumps False b of Some t \<Rightarrow> Inr (Some t) | None \<Rightarrow> Inl TypeError))) (\<lambda>d.
     io_bind (send cfg \<lparr>verb = meth, url = base cfg @ lit ''/api/v1/'' @ path, data = d\<rparr>) (\<lambda>raw.
       lift_res (if raw = [] then Inr PNone
                 else case json_loads (penv cfg) raw of Some v \<Rightarrow> Inr v | None \<Rightarrow> Inl ValueError)))"

section \<open>One run\<close>

definition handled_event :: "pyval \<Rightarrow> bool" where
  "handled_event t \<longleftrightarrow> t \<in> {PStr (lit ''grabbed''), PStr (lit ''bookFileImported''), PStr (lit ''downloadImported'')}"

fun any_handled :: "pyval list \<Rightarrow> bool res" where
  "any_handled [] = Inr False"
| "any_handled (e # es) =
     bind_res (py_get e ''eventType'' PNone) (\<lambda>t. if handled_event t then Inr True else any_handled es)"

definition was_handled :: "'s config \<Rightarrow> pyval \<Rightarrow> ('s world, bool) io" where
  "was_handled cfg book_id =
     io_bind (api cfg (lit ''history?bookId='' @ py_text (penv cfg) book_id @ lit ''&pageSize=50'') GET None) (\<lambda>hist.
       lift_res
         (let events = (case hist of PDict d \<Rightarrow> dict_get d (lit ''records'') hist | _ \<Rightarrow> hist)
          in bind_res (py_iter (py_or events (PList []))) any_handled))"

text \<open>\<open>{t["id"]: t["label"] for t in api("tag")}\<close>.\<close>

fun tag_table :: "(pyval \<times> pyval) list \<Rightarrow> pyval list \<Rightarrow> (pyval \<times> pyval) list res" where
  "tag_table acc [] = Inr acc"
| "tag_table acc (t # ts) =
     bind_res (py_item t ''id'') (\<lambda>i. bind_res (py_item t ''label'') (\<lambda>l.
       if hashable i then tag_table (dict_set acc i l) ts else Inl TypeError))"

text \<open>\<open>{tags[t] for t in author.get("tags", []) if t in tags}\<close>, as a list.\<close>

fun wanted_labels :: "(pyval \<times> pyval) list \<Rightarrow> pyval list \<Rightarrow> pyval list res" where
  "wanted_labels tags [] = Inr []"
| "wanted_labels tags (t # ts) =
     (if \<not> hashable t then Inl TypeError
      else case map_of tags t of
             None \<Rightarrow> wanted_labels tags ts
           | Some l \<Rightarrow>
               if hashable l then bind_res (wanted_labels tags ts) (\<lambda>ls. Inr (l # ls)) else Inl TypeError)"

text \<open>One book: its identifier when it is to be searched.\<close>

definition check_book :: "'s config \<Rightarrow> pyval list \<Rightarrow> pyval \<Rightarrow> ('s world, pyval list) io" where
  "check_book cfg wanted book =
     io_bind (lift_res (series_name (uni cfg) book)) (\<lambda>sname.
       if sname = [] \<or> PStr (slug (uni cfg) sname) \<notin> set wanted then ret []
       else io_bind (lift_res (py_get book ''monitored'' PNone)) (\<lambda>mon.
         if truthy mon then ret []
         else io_bind (lift_res (bind_res (py_get book ''statistics'' PNone) (\<lambda>st.
                  bind_res (py_get (py_or st (PDict [])) ''bookFileCount'' (PInt 0)) positive))) (\<lambda>has_file.
           if has_file then ret []
           else io_bind (lift_res (py_item book ''id'')) (\<lambda>i.
             io_bind (was_handled cfg i) (\<lambda>handled.
               if handled then ret []
               else io_bind (lift_res (py_item book ''title'')) (\<lambda>_. ret [i]))))))"

definition monitor_author :: "'s config \<Rightarrow> pyval \<Rightarrow> ('s world, unit) io" where
  "monitor_author cfg author =
     io_bind (lift_res (py_get author ''monitored'' PNone)) (\<lambda>mon.
       if truthy mon \<or> dry cfg then ret ()
       else
         (let author' = (case author of
              PDict d \<Rightarrow> PDict (dict_set (dict_set d (PStr (lit ''monitored'')) (PBool True))
                                 (PStr (lit ''monitorNewItems'')) (PStr (lit ''none'')))
            | v \<Rightarrow> v)
          in io_bind (lift_res (py_item author' ''id'')) (\<lambda>i.
               io_bind (api cfg (lit ''author/'' @ py_text (penv cfg) i) PUT (Some author')) (\<lambda>_. ret ()))))"

definition check_author :: "'s config \<Rightarrow> (pyval \<times> pyval) list \<Rightarrow> pyval \<Rightarrow> ('s world, pyval list) io" where
  "check_author cfg tags author =
     io_bind (lift_res (bind_res (py_get author ''tags'' (PList [])) (\<lambda>ts.
         bind_res (py_iter ts) (wanted_labels tags)))) (\<lambda>wanted.
       if wanted = [] then ret []
       else io_bind (lift_res (py_item author ''authorName'')) (\<lambda>_.
         io_bind (monitor_author cfg author) (\<lambda>_.
           io_bind (lift_res (py_item author ''id'')) (\<lambda>i.
             io_bind (api cfg (lit ''book?authorId='' @ py_text (penv cfg) i) GET None) (\<lambda>bs.
               io_bind (lift_res (py_iter bs)) (\<lambda>books.
                 io_bind (for_each (check_book cfg wanted) books) (\<lambda>xs. ret (concat xs))))))))"

definition announce :: "'s config \<Rightarrow> pyval list \<Rightarrow> ('s world, unit) io" where
  "announce cfg ids =
     (if ids = [] \<or> dry cfg then ret ()
      else io_bind (api cfg (lit ''book/monitor'') PUT
             (Some (PDict [(PStr (lit ''bookIds''), PList ids), (PStr (lit ''monitored''), PBool True)]))) (\<lambda>_.
           io_bind (api cfg (lit ''command'') POST
             (Some (PDict [(PStr (lit ''name''), PStr (lit ''BookSearch'')), (PStr (lit ''bookIds''), PList ids)]))) (\<lambda>_.
           ret ())))"

definition main :: "'s config \<Rightarrow> ('s world, unit) io" where
  "main cfg =
     io_bind (api cfg (lit ''tag'') GET None) (\<lambda>tv.
     io_bind (lift_res (bind_res (py_iter tv) (tag_table []))) (\<lambda>tags.
     io_bind (api cfg (lit ''author'') GET None) (\<lambda>av.
     io_bind (lift_res (py_iter av)) (\<lambda>authors.
     io_bind (for_each (check_author cfg tags) authors) (\<lambda>xs.
       announce cfg (concat xs))))))"

text \<open>The exit status: every exception of \<open>main\<close> is reported as 1.\<close>

definition run :: "'s config \<Rightarrow> 's world \<Rightarrow> nat \<times> 's world" where
  "run cfg w = (case main cfg w of (Inr _, w') \<Rightarrow> (0, w') | (Inl _, w') \<Rightarrow> (1, w'))"

section \<open>Replacing runs of characters\<close>

text \<open>\<open>re.sub\<close> of a character class repeated: every maximal run becomes \<open>w\<close>.\<close>

function collapse :: "(uchar \<Rightarrow> bool) \<Rightarrow> ustr \<Rightarrow> ustr \<Rightarrow> ustr" where
  "collapse p w [] = []"
| "collapse p w (c # s) = (if p c then w @ collapse p w (dropWhile p s) else c # collapse p w s)"
  by pat_completeness auto
termination
  by (relation "measure (\<lambda>(p, w, s). length s)") (auto simp: le_imp_less_Suc length_dropWhile_le)

lemma many1_head:
  assumes "p c"
  shows "\<exists>ms. mt (rx_many1 p) (i, c # s, []) = (Suc i + length (takeWhile p s), dropWhile p s, []) # ms"
proof -
  have "\<forall>d \<in> set (takeWhile p s). p d" "dropWhile p s = [] \<or> \<not> p (hd (dropWhile p s))"
    using hd_dropWhile[of p s] by (auto dest: set_takeWhileD simp del: dropWhile_eq_Nil_conv)
  from runs_append[OF this, of "Suc i" "[]"] obtain ms where
    "runs p (Suc i) s [] = (Suc i + length (takeWhile p s), dropWhile p s, []) # ms" by auto
  with assms show ?thesis by (simp add: rx_many1_def)
qed

lemma many1_none: "\<not> p c \<Longrightarrow> mt (rx_many1 p) (i, c # s, g) = []"
  by (simp add: rx_many1_def)

lemma search_many1:
  "rx_search (rx_many1 p) False i s =
     (case dropWhile (\<lambda>c. \<not> p c) s of
        [] \<Rightarrow> None
      | c # t \<Rightarrow>
          (let b = i + length (takeWhile (\<lambda>c. \<not> p c) s)
           in Some (b, Suc b + length (takeWhile p t), dropWhile p t, [])))"
proof (induction s arbitrary: i)
  case Nil
  show ?case by (simp add: rx_many1_def)
next
  case (Cons c s)
  show ?case
  proof (cases "p c")
    case True
    then obtain ms where "mt (rx_many1 p) (i, c # s, []) = (Suc i + length (takeWhile p s), dropWhile p s, []) # ms"
      using many1_head by blast
    with True show ?thesis by (simp add: Let_def del: mt.simps)
  next
    case False
    with Cons.IH[of "Suc i"] show ?thesis
      by (cases "dropWhile (\<lambda>c. \<not> p c) s")
        (simp_all add: many1_none Let_def del: mt.simps dropWhile_eq_Nil_conv)
  qed
qed

lemma collapse_id: "\<forall>c \<in> set s. \<not> p c \<Longrightarrow> collapse p w s = s"
  by (induction s) auto

lemma collapse_skip:
  "collapse p w s = takeWhile (\<lambda>c. \<not> p c) s @ collapse p w (dropWhile (\<lambda>c. \<not> p c) s)"
  by (induction s) auto

lemma sub_many1: "re_sub (rx_many1 p) w s = collapse p w s"
proof -
  have "splice w i s (rx_iter (rx_many1 p) False i s) = collapse p w s" for i
  proof (induction "length s" arbitrary: i s rule: less_induct)
    case less
    show ?case
    proof (cases "dropWhile (\<lambda>c. \<not> p c) s")
      case Nil
      then have "rx_iter (rx_many1 p) False i s = []"
        by (subst rx_iter.simps) (simp only: search_many1 list.case option.case)
      moreover have "collapse p w s = s"
        using Nil by (intro collapse_id) simp
      ultimately show ?thesis by simp
    next
      case (Cons c t)
      obtain u v x where d: "takeWhile (\<lambda>c. \<not> p c) s = u" "takeWhile p t = v" "dropWhile p t = x" by blast
      let ?b = "i + length u" and ?e = "Suc (i + length u + length v)"
      have c: "p c" using hd_dropWhile[of "\<lambda>c. \<not> p c" s] Cons by simp
      have "t = v @ x" using d takeWhile_dropWhile_id[of p t] by simp
      then have s: "s = u @ c # v @ x"
        using Cons d takeWhile_dropWhile_id[of "\<lambda>c. \<not> p c" s] by simp
      have it: "rx_iter (rx_many1 p) False i s = (?b, ?e, []) # rx_iter (rx_many1 p) False ?e x"
        by (subst rx_iter.simps) (simp add: search_many1 Cons d Let_def)
      have len: "length x < length s" by (simp add: s)
      have "drop (?e - i) s = x" "take (?b - i) s = u" by (simp_all add: s)
      moreover have "collapse p w s = u @ w @ collapse p w x"
        using collapse_skip[of p w s] Cons c d by simp
      ultimately show ?thesis unfolding it splice.simps using less[OF len] by simp
    qed
  qed
  then show ?thesis by (simp add: re_sub_def finditer_def)
qed

section \<open>Slugs\<close>

lemma set_collapse: "set (collapse p w s) \<subseteq> {c \<in> set s. \<not> p c} \<union> set w"
proof (induction p w s rule: collapse.induct)
  case (2 p w c s)
  then show ?case using set_dropWhileD[of _ p s] by (auto simp: subset_iff)
qed simp

definition no_double :: "ustr \<Rightarrow> bool" where
  "no_double s \<longleftrightarrow> successively (\<lambda>c d. \<not> (c = dash \<and> d = dash)) s"

lemma collapse_dash_hd: "s \<noteq> [] \<Longrightarrow> hd (collapse (\<lambda>c. c = dash) [dash] s) = hd s"
  by (cases s) auto

lemma no_double_collapse: "no_double (collapse (\<lambda>c. c = dash) [dash] s)"
proof (induction "\<lambda>c. c = dash" "[dash]" s rule: collapse.induct)
  case (2 c s)
  let ?d = "dropWhile (\<lambda>c. c = dash) s"
  show ?case
  proof (cases "c = dash")
    case True
    have d: "?d = [] \<or> hd ?d \<noteq> dash" using hd_dropWhile[of "\<lambda>c. c = dash" s] by blast
    show ?thesis
    proof (cases ?d)
      case Nil
      then show ?thesis using True by (simp add: no_double_def del: dropWhile_eq_Nil_conv)
    next
      case (Cons e u)
      then have "e \<noteq> dash" using d by simp
      then have "collapse (\<lambda>c. c = dash) [dash] ?d = e # collapse (\<lambda>c. c = dash) [dash] u"
        by (simp add: Cons)
      moreover have "no_double (collapse (\<lambda>c. c = dash) [dash] ?d)" using 2(1) True by simp
      ultimately show ?thesis using True \<open>e \<noteq> dash\<close> by (simp add: no_double_def)
    qed
  next
    case False
    with 2 show ?thesis by (cases "collapse (\<lambda>c. c = dash) [dash] s") (auto simp: no_double_def)
  qed
qed (simp add: no_double_def)

lemma collapse_no_double: "no_double s \<Longrightarrow> collapse (\<lambda>c. c = dash) [dash] s = s"
proof (induction s)
  case (Cons c s)
  then have "no_double s" by (cases s) (auto simp: no_double_def)
  with Cons show ?case by (cases s) (auto simp: no_double_def)
qed simp

lemma no_double_rev: "no_double (rev s) = no_double s"
  unfolding no_double_def by (subst successively_rev) (rule arg_cong[where f = "\<lambda>P. successively P s"], auto)

lemma no_double_dropWhile: "no_double s \<Longrightarrow> no_double (dropWhile p s)"
proof (induction s)
  case (Cons c s)
  then have "no_double s" by (cases s) (auto simp: no_double_def)
  with Cons show ?case by auto
qed simp

lemma no_double_strip: "no_double s \<Longrightarrow> no_double (strip_dash s)"
  by (simp add: strip_dash_def no_double_rev no_double_dropWhile)

lemma strip_dash_ends:
  "strip_dash s = [] \<or> hd (strip_dash s) \<noteq> dash \<and> last (strip_dash s) \<noteq> dash"
proof -
  let ?a = "dropWhile (\<lambda>c. c = dash) s"
  let ?r = "dropWhile (\<lambda>c. c = dash) (rev ?a)"
  have r: "?r = [] \<or> hd ?r \<noteq> dash" "?a = [] \<or> hd ?a \<noteq> dash"
    using hd_dropWhile[of "\<lambda>c. c = dash"] by blast+
  have "rev ?a = takeWhile (\<lambda>c. c = dash) (rev ?a) @ ?r" by simp
  then have "?a = rev ?r @ rev (takeWhile (\<lambda>c. c = dash) (rev ?a))" by (metis rev_append rev_rev_ident)
  then have h: "hd (rev ?r) = hd ?a" if "?r \<noteq> []" using that by (metis hd_append rev_is_Nil_conv)
  show ?thesis
  proof (cases "?r = []")
    case False
    then have "?a \<noteq> []" by (metis dropWhile.simps(1) rev.simps(1))
    with False r h show ?thesis by (simp add: strip_dash_def last_rev del: dropWhile_eq_Nil_conv)
  qed (simp add: strip_dash_def del: dropWhile_eq_Nil_conv)
qed

lemma strip_dash_id: "s = [] \<or> hd s \<noteq> dash \<and> last s \<noteq> dash \<Longrightarrow> strip_dash s = s"
proof (cases s rule: rev_cases)
  case (snoc xs x)
  assume "s = [] \<or> hd s \<noteq> dash \<and> last s \<noteq> dash"
  with snoc have "hd s \<noteq> dash" "x \<noteq> dash" by auto
  then have "dropWhile (\<lambda>c. c = dash) s = s" by (cases s) auto
  with snoc \<open>x \<noteq> dash\<close> show ?thesis by (simp add: strip_dash_def)
qed (simp add: strip_dash_def)

lemma set_strip_dash: "set (strip_dash s) \<subseteq> set s"
proof
  fix c assume "c \<in> set (strip_dash s)"
  then have "c \<in> set (dropWhile (\<lambda>c. c = dash) (rev (dropWhile (\<lambda>c. c = dash) s)))" by (simp add: strip_dash_def)
  from set_dropWhileD[OF this] have "c \<in> set (dropWhile (\<lambda>c. c = dash) s)" by simp
  from set_dropWhileD[OF this] show "c \<in> set s" by simp
qed

definition slug_text :: "ustr \<Rightarrow> bool" where
  "slug_text s \<longleftrightarrow> (\<forall>c \<in> set s. slug_char c \<or> c = dash) \<and> no_double s \<and>
     (s = [] \<or> hd s \<noteq> dash \<and> last s \<noteq> dash)"

lemma slug_text_slug: "slug_text (slug db t)"
proof -
  let ?a = "collapse (\<lambda>c. \<not> slug_char c) [dash] (lower db t)"
  let ?b = "collapse (\<lambda>c. c = dash) [dash] ?a"
  have "set (strip_dash ?b) \<subseteq> {c. slug_char c \<or> c = dash}"
    using set_strip_dash[of ?b] set_collapse[of "\<lambda>c. c = dash" "[dash]" ?a]
      set_collapse[of "\<lambda>c. \<not> slug_char c" "[dash]" "lower db t"] by fastforce
  then show ?thesis
    using strip_dash_ends[of ?b] no_double_strip[OF no_double_collapse[of ?a]]
    by (auto simp: slug_text_def slug_def sub_many1)
qed

lemma lower_slug_char: "slug_char c \<or> c = dash \<Longrightarrow> lower_char db c = [c]"
proof (cases c)
  case (L x)
  assume "slug_char c \<or> c = dash"
  then have "lower_latin x = x"
    by (auto simp: L slug_char_def dash_def lower_latin_def ascii_digit_def Let_def)
  then show ?thesis by (simp add: L)
next
  case (U n)
  moreover assume "slug_char c \<or> c = dash"
  ultimately show ?thesis by (simp add: slug_char_def dash_def ascii_digit_def)
qed

lemma slug_char_dash: "\<not> slug_char dash"
  by (simp add: slug_char_def dash_def ascii_digit_def)

lemma collapse_cong: "\<forall>c \<in> set s. p c = q c \<Longrightarrow> collapse p w s = collapse q w s"
proof (induction p w s rule: collapse.induct)
  case (2 p w c s)
  have "dropWhile p s = dropWhile q s" using "2.prems" by (intro dropWhile_cong) auto
  moreover have "\<forall>c \<in> set (dropWhile p s). p c = q c" using "2.prems" set_dropWhileD[of _ p s] by auto
  ultimately show ?case using 2 by auto
qed simp

lemma slug_fix: "slug_text s \<Longrightarrow> slug db s = s"
proof -
  assume s: "slug_text s"
  have "lower db s = concat (map (\<lambda>c. [c]) s)"
    unfolding lower_def using s lower_slug_char by (intro arg_cong[of _ _ concat] map_cong) (auto simp: slug_text_def)
  then have "lower db s = s" by simp
  moreover have "collapse (\<lambda>c. \<not> slug_char c) [dash] s = s"
  proof -
    have "\<forall>c \<in> set s. (\<not> slug_char c) = (c = dash)" using s slug_char_dash by (auto simp: slug_text_def)
    from collapse_cong[OF this] collapse_no_double[of s] s show ?thesis by (simp add: slug_text_def)
  qed
  ultimately show ?thesis using s collapse_no_double strip_dash_id by (simp add: slug_def sub_many1 slug_text_def)
qed

text \<open>
  A slug is made of ASCII lower-case letters and digits and single dashes between them,
  whatever the title; taking the slug again changes nothing, so a tag that is a slug names the
  series whose title has that slug.
\<close>

theorem slug_canonical:
  "(\<forall>c \<in> set (slug db t). slug_char c \<or> c = dash) \<and>
   successively (\<lambda>c d. \<not> (c = dash \<and> d = dash)) (slug db t) \<and>
   (slug db t = [] \<or> hd (slug db t) \<noteq> dash \<and> last (slug db t) \<noteq> dash) \<and>
   slug db (slug db t) = slug db t"
  using slug_text_slug[of db t] slug_fix[OF slug_text_slug] by (auto simp: slug_text_def no_double_def)

section \<open>What a run writes\<close>

text \<open>The log after a computation is the log before it with requests of a kind appended.\<close>

definition only :: "(request \<Rightarrow> bool) \<Rightarrow> ('s world, 'a) io \<Rightarrow> bool" where
  "only P m \<longleftrightarrow> (\<forall>w. \<exists>rs. snd (snd (m w)) = snd w @ rs \<and> (\<forall>r \<in> set rs. P r))"

definition appends :: "(request \<Rightarrow> bool) \<Rightarrow> 's \<times> request list \<Rightarrow> 's \<times> request list \<Rightarrow> bool" where
  "appends P w w' \<longleftrightarrow> (\<exists>rs. snd w' = snd w @ rs \<and> (\<forall>r \<in> set rs. P r))"

lemma appends_trans: "appends P u v \<Longrightarrow> appends P v w \<Longrightarrow> appends P u w"
  unfolding appends_def by (metis Un_iff append.assoc set_append)

interpretation logged: world_order "appends P" for P
  by unfold_locales (simp add: appends_def, rule appends_trans)

lemma only_along: "only P = along (appends P)"
  by (simp add: fun_eq_iff only_def along_def appends_def)

named_theorems only_rules \<open>which requests a computation makes\<close>

lemmas only_ret [only_rules] = logged.ret_along [folded only_along]

lemmas only_lift [only_rules] = logged.lift_along [folded only_along]

lemmas only_bind [only_rules] = logged.bind_along [folded only_along]

lemma only_if [only_rules]: "(b \<Longrightarrow> only P m) \<Longrightarrow> (\<not> b \<Longrightarrow> only P n) \<Longrightarrow> only P (if b then m else n)"
  by simp

lemmas only_for_each [only_rules] = logged.for_each_along [folded only_along]

lemma only_weaken: "only P m \<Longrightarrow> (\<And>r. P r \<Longrightarrow> Q r) \<Longrightarrow> only Q m"
  unfolding only_def by meson

lemma only_send [only_rules]: "P r \<Longrightarrow> only P (send cfg r)"
  by (auto simp: only_def send_def split: prod.splits)

lemma only_api [only_rules]:
  assumes "\<And>d. P \<lparr>verb = meth, url = base cfg @ lit ''/api/v1/'' @ path, data = d\<rparr>"
  shows "only P (api cfg path meth body)"
  unfolding api_def by (intro only_rules assms)

definition author_write :: "'s config \<Rightarrow> request \<Rightarrow> bool" where
  "author_write cfg r \<longleftrightarrow> \<not> dry cfg \<and> verb r = PUT \<and> prefix (base cfg @ lit ''/api/v1/author/'') (url r)"

definition reading :: "'s config \<Rightarrow> request \<Rightarrow> bool" where
  "reading cfg r \<longleftrightarrow> verb r = GET \<or> author_write cfg r"

lemma reading_get: "reading cfg \<lparr>verb = GET, url = u, data = d\<rparr>"
  by (simp add: reading_def)

lemma only_was_handled: "only (reading cfg) (was_handled cfg i)"
  unfolding was_handled_def by (intro only_rules reading_get)

lemma only_check_book: "only (reading cfg) (check_book cfg wanted book)"
  unfolding check_book_def by (intro only_rules only_was_handled)

lemma only_monitor_author: "only (reading cfg) (monitor_author cfg author)"
proof -
  have "reading cfg \<lparr>verb = PUT, url = base cfg @ lit ''/api/v1/'' @ lit ''author/'' @ p, data = d\<rparr>"
    if "\<not> dry cfg" for p d
    using that by (simp add: reading_def author_write_def prefix_def)
  then show ?thesis unfolding monitor_author_def Let_def by (intro only_rules) auto
qed

lemma only_check_author: "only (reading cfg) (check_author cfg tags author)"
  unfolding check_author_def by (intro only_rules only_check_book only_monitor_author reading_get)

text \<open>Everything up to the final writes, with the identifiers it selects.\<close>

definition select :: "'s config \<Rightarrow> ('s world, pyval list) io" where
  "select cfg =
     io_bind (api cfg (lit ''tag'') GET None) (\<lambda>tv.
     io_bind (lift_res (bind_res (py_iter tv) (tag_table []))) (\<lambda>tags.
     io_bind (api cfg (lit ''author'') GET None) (\<lambda>av.
     io_bind (lift_res (py_iter av)) (\<lambda>authors.
     io_bind (for_each (check_author cfg tags) authors) (\<lambda>xs. ret (concat xs))))))"

lemma main_select: "main cfg = io_bind (select cfg) (announce cfg)"
  unfolding main_def select_def by (simp only: io_bind_assoc io_bind_ret)

lemma only_select: "only (reading cfg) (select cfg)"
  unfolding select_def by (intro only_rules only_check_author reading_get)

text \<open>
  C16: with \<open>DRY_RUN\<close> set a run only reads: every request it makes is a GET, whatever the service
  answers and however the run ends.
\<close>

theorem dry_run_reads_only:
  assumes "dry cfg" "run cfg (s, log) = (code, s', log')"
  shows "\<exists>rs. log' = log @ rs \<and> (\<forall>r \<in> set rs. verb r = GET)"
proof -
  have "only (reading cfg) (main cfg)"
  proof -
    have "announce cfg ids = ret ()" for ids using assms(1) by (simp add: announce_def)
    then show ?thesis unfolding main_select by (auto intro!: only_rules only_select)
  qed
  then have "only (\<lambda>r. verb r = GET) (main cfg)"
    using assms(1) by (elim only_weaken) (auto simp: reading_def author_write_def)
  then obtain rs where "snd (snd (main cfg (s, log))) = log @ rs" "\<forall>r \<in> set rs. verb r = GET"
    unfolding only_def by (metis snd_conv)
  moreover have "snd (snd (main cfg (s, log))) = log'"
    using assms(2) by (auto simp: run_def split: prod.splits sum.splits)
  ultimately show ?thesis by blast
qed

text \<open>
  What a run is to search for, read off the service's answers: \<open>ans\<close> gives the answer to each
  path, and a service is steady when its answers stay the same while the run lasts. The page of
  the authors is the exception: it is asked for once, and a run changes it.
\<close>

definition get_request :: "'s config \<Rightarrow> ustr \<Rightarrow> request" where
  "get_request cfg p = \<lparr>verb = GET, url = base cfg @ lit ''/api/v1/'' @ p, data = None\<rparr>"

definition settled :: "'s config \<Rightarrow> (ustr \<Rightarrow> ustr res) \<Rightarrow> bool" where
  "settled cfg ans \<longleftrightarrow> (\<forall>p s. p \<noteq> lit ''author'' \<longrightarrow> fst (service cfg (get_request cfg p) s) = ans p)"

definition steady :: "'s config \<Rightarrow> (ustr \<Rightarrow> ustr res) \<Rightarrow> 's \<Rightarrow> bool" where
  "steady cfg ans s \<longleftrightarrow> settled cfg ans \<and>
     fst (service cfg (get_request cfg (lit ''author'')) (snd (service cfg (get_request cfg (lit ''tag'')) s)))
       = ans (lit ''author'')"

definition page :: "'s config \<Rightarrow> (ustr \<Rightarrow> ustr res) \<Rightarrow> ustr \<Rightarrow> pyval" where
  "page cfg ans p =
     (case ans p of
        Inl _ \<Rightarrow> PNone
      | Inr raw \<Rightarrow> (case (if raw = [] then None else json_loads (penv cfg) raw) of Some v \<Rightarrow> v | None \<Rightarrow> PNone))"

definition listed :: "pyval \<Rightarrow> pyval list" where
  "listed v = (case py_iter v of Inr xs \<Rightarrow> xs | Inl _ \<Rightarrow> [])"

definition field :: "pyval \<Rightarrow> string \<Rightarrow> pyval \<Rightarrow> pyval" where
  "field v k d = (case v of PDict kvs \<Rightarrow> dict_get kvs (lit k) d | _ \<Rightarrow> d)"

text \<open>The label of a tag: that of the last tag of the page with the identifier.\<close>

definition label_of_tag :: "'s config \<Rightarrow> (ustr \<Rightarrow> ustr res) \<Rightarrow> pyval \<Rightarrow> pyval option" where
  "label_of_tag cfg ans =
     map_of (rev (map (\<lambda>t. (field t ''id'' PNone, field t ''label'' PNone)) (listed (page cfg ans (lit ''tag'')))))"

definition declared :: "'s config \<Rightarrow> (ustr \<Rightarrow> ustr res) \<Rightarrow> pyval \<Rightarrow> ustr \<Rightarrow> bool" where
  "declared cfg ans author label \<longleftrightarrow>
     (\<exists>t \<in> set (listed (field author ''tags'' (PList []))). label_of_tag cfg ans t = Some (PStr label))"

definition handled_before :: "'s config \<Rightarrow> (ustr \<Rightarrow> ustr res) \<Rightarrow> pyval \<Rightarrow> bool" where
  "handled_before cfg ans i \<longleftrightarrow>
     (let h = page cfg ans (lit ''history?bookId='' @ py_text (penv cfg) i @ lit ''&pageSize=50'')
      in \<exists>e \<in> set (listed (py_or (field h ''records'' h) (PList []))). handled_event (field e ''eventType'' PNone))"

definition new_volume :: "'s config \<Rightarrow> (ustr \<Rightarrow> ustr res) \<Rightarrow> pyval \<Rightarrow> pyval \<Rightarrow> bool" where
  "new_volume cfg ans author book \<longleftrightarrow>
     (case series_name (uni cfg) book of
        Inl _ \<Rightarrow> False
      | Inr name \<Rightarrow> name \<noteq> [] \<and> declared cfg ans author (slug (uni cfg) name)) \<and>
     \<not> truthy (field book ''monitored'' PNone) \<and>
     positive (field (py_or (field book ''statistics'' PNone) (PDict [])) ''bookFileCount'' (PInt 0)) = Inr False \<and>
     \<not> handled_before cfg ans (field book ''id'' PNone)"

definition books_of :: "'s config \<Rightarrow> (ustr \<Rightarrow> ustr res) \<Rightarrow> pyval \<Rightarrow> pyval list" where
  "books_of cfg ans author = listed (page cfg ans (lit ''book?authorId='' @ py_text (penv cfg) (field author ''id'' PNone)))"

definition to_search :: "'s config \<Rightarrow> (ustr \<Rightarrow> ustr res) \<Rightarrow> pyval list" where
  "to_search cfg ans =
     concat (map (\<lambda>author. map (\<lambda>book. field book ''id'' PNone)
         (filter (new_volume cfg ans author) (books_of cfg ans author)))
       (listed (page cfg ans (lit ''author''))))"

lemma py_get_field: "py_get v k d = Inr x \<Longrightarrow> field v k d = x"
  by (auto simp: py_get_def field_def split: pyval.splits)

lemma py_item_field: "py_item v k = Inr x \<Longrightarrow> field v k d = x"
  by (auto simp: py_item_def field_def dict_get_def split: pyval.splits option.splits)

lemma py_iter_listed: "py_iter v = Inr xs \<Longrightarrow> listed v = xs"
  by (simp add: listed_def)

lemmas reads_field = py_get_field py_item_field py_iter_listed

lemma api_page:
  assumes "api cfg p GET None (s, log) = (Inr v, w')" "fst (service cfg (get_request cfg p) s) = ans p"
  shows "page cfg ans p = v \<and> w' = (snd (service cfg (get_request cfg p) s), log @ [get_request cfg p])"
  using assms
  by (auto simp: api_def io_bind_def send_def page_def get_request_def split: prod.splits sum.splits option.splits if_splits)

lemma api_settled:
  assumes "settled cfg ans" "p \<noteq> lit ''author''" "api cfg p GET None w = (Inr v, w')"
  shows "page cfg ans p = v"
  using assms api_page[of cfg p "fst w" "snd w" v w' ans] by (auto simp: settled_def)

lemma any_handled_ex:
  "any_handled es = Inr b \<Longrightarrow> b = (\<exists>e \<in> set es. handled_event (field e ''eventType'' PNone))"
  by (induction es arbitrary: b) (auto simp: bind_res_eq_Inr reads_field split: if_splits)

lemma tag_table_map:
  "tag_table acc ts = Inr tags \<Longrightarrow>
   map_of tags = map_of acc ++ map_of (rev (map (\<lambda>t. (field t ''id'' PNone, field t ''label'' PNone)) ts))"
proof (induction acc ts arbitrary: tags rule: tag_table.induct)
  case (2 acc t ts)
  then obtain i l where "py_item t ''id'' = Inr i" "py_item t ''label'' = Inr l"
    "tag_table (dict_set acc i l) ts = Inr tags" "hashable i"
    by (auto simp: bind_res_eq_Inr split: if_splits)
  with 2 show ?case by (simp add: reads_field map_of_dict_set fun_eq_iff map_add_def split: option.splits)
qed simp

lemma wanted_labels_set:
  "wanted_labels tags ts = Inr ls \<Longrightarrow> l \<in> set ls \<longleftrightarrow> (\<exists>t \<in> set ts. map_of tags t = Some l)"
  by (induction tags ts arbitrary: ls rule: wanted_labels.induct)
    (auto split: if_splits option.splits simp: bind_res_eq_Inr)

lemma for_each_map:
  assumes "\<And>x w y w'. f x w = (Inr y, w') \<Longrightarrow> y = g x"
  shows "for_each f xs w = (Inr ys, w') \<Longrightarrow> ys = map g xs"
  using assms by (induction xs arbitrary: w ys) (fastforce simp: io_bind_eq_Inr)+

lemma was_handled_settled:
  assumes "settled cfg ans" "was_handled cfg i w = (Inr b, w')"
  shows "b = handled_before cfg ans i"
proof -
  let ?p = "lit ''history?bookId='' @ py_text (penv cfg) i @ lit ''&pageSize=50''"
  from assms(2) obtain h v es where
    h: "api cfg ?p GET None w = (Inr h, v)"
      "py_iter (py_or (case h of PDict d \<Rightarrow> dict_get d (lit ''records'') h | _ \<Rightarrow> h) (PList [])) = Inr es"
      "any_handled es = Inr b"
    by (auto simp: was_handled_def io_bind_eq_Inr bind_res_eq_Inr Let_def)
  have "?p \<noteq> lit ''author''" by simp
  from api_settled[OF assms(1) this h(1)] any_handled_ex[OF h(3)] py_iter_listed[OF h(2)]
  show ?thesis by (simp add: handled_before_def Let_def field_def)
qed

lemma check_book_settled:
  assumes "settled cfg ans" "check_book cfg wanted book w = (Inr xs, w')"
    "\<And>l. PStr l \<in> set wanted \<longleftrightarrow> declared cfg ans author l"
  shows "xs = (if new_volume cfg ans author book then [field book ''id'' PNone] else [])"
  using assms(2) unfolding check_book_def
  by (auto simp: io_bind_eq_Inr lift_res_eq_Inr bind_res_eq_Inr new_volume_def assms(3) reads_field
      dest!: was_handled_settled[OF assms(1)] split: if_splits)


lemma check_author_settled:
  assumes "settled cfg ans" "map_of tags = label_of_tag cfg ans"
    "check_author cfg tags author w = (Inr xs, w')"
  shows "xs = map (\<lambda>book. field book ''id'' PNone) (filter (new_volume cfg ans author) (books_of cfg ans author))"
proof -
  from assms(3) obtain ts0 ts wanted where
    ts: "py_get author ''tags'' (PList []) = Inr ts0" "py_iter ts0 = Inr ts" "wanted_labels tags ts = Inr wanted"
    unfolding check_author_def by (auto simp: io_bind_eq_Inr lift_res_eq_Inr bind_res_eq_Inr)
  have d: "PStr l \<in> set wanted \<longleftrightarrow> declared cfg ans author l" for l
    using wanted_labels_set[OF ts(3)] reads_field(1)[OF ts(1)] py_iter_listed[OF ts(2)]
    by (simp add: declared_def assms(2))
  show ?thesis
  proof (cases "wanted = []")
    case True
    with d have "\<not> new_volume cfg ans author book" for book
      by (auto simp: new_volume_def split: sum.splits)
    moreover have "xs = []"
      using assms(3) ts True unfolding check_author_def by (simp add: io_bind_eq_Inr)
    ultimately show ?thesis by simp
  next
    case False
    from assms(3) ts False obtain i bs books yss u v v' where
      b: "py_item author ''id'' = Inr i"
        "api cfg (lit ''book?authorId='' @ py_text (penv cfg) i) GET None u = (Inr bs, v)"
        "py_iter bs = Inr books" "for_each (check_book cfg wanted) books v = (Inr yss, v')" "xs = concat yss"
      unfolding check_author_def by (auto simp: io_bind_eq_Inr lift_res_eq_Inr bind_res_eq_Inr)
    have "lit ''book?authorId='' @ py_text (penv cfg) i \<noteq> lit ''author''" by simp
    from api_settled[OF assms(1) this b(2)] have "books = books_of cfg ans author"
      by (simp add: books_of_def py_item_field[OF b(1)] py_iter_listed[OF b(3)])
    moreover from for_each_map[OF check_book_settled[OF assms(1) _ d] b(4)]
    have "xs = concat (map (\<lambda>book. if new_volume cfg ans author book then [field book ''id'' PNone] else []) books)"
      by (simp add: b(5))
    moreover have "concat (map (\<lambda>x. if P x then [f x] else []) zs) = map f (filter P zs)"
      for P :: "pyval \<Rightarrow> bool" and f :: "pyval \<Rightarrow> pyval" and zs
      by (induction zs) auto
    ultimately show ?thesis by simp
  qed
qed

lemma select_settled:
  assumes "steady cfg ans s" "select cfg (s, log) = (Inr ids, w')"
  shows "ids = to_search cfg ans"
proof -
  from assms(2) obtain tv v1 ts tags av v2 authors yss v3 where
    t: "api cfg (lit ''tag'') GET None (s, log) = (Inr tv, v1)" "py_iter tv = Inr ts" "tag_table [] ts = Inr tags" and
    a: "api cfg (lit ''author'') GET None v1 = (Inr av, v2)" "py_iter av = Inr authors" and
    e: "for_each (check_author cfg tags) authors v2 = (Inr yss, v3)" "ids = concat yss"
    unfolding select_def by (auto simp: io_bind_eq_Inr lift_res_eq_Inr bind_res_eq_Inr)
  from assms(1) have s: "settled cfg ans" "fst (service cfg (get_request cfg (lit ''tag'')) s) = ans (lit ''tag'')"
    "fst (service cfg (get_request cfg (lit ''author'')) (snd (service cfg (get_request cfg (lit ''tag'')) s))) = ans (lit ''author'')"
    by (auto simp: steady_def settled_def)
  have 1: "page cfg ans (lit ''tag'') = tv" "v1 = (snd (service cfg (get_request cfg (lit ''tag'')) s), log @ [get_request cfg (lit ''tag'')])"
    using api_page[where ans = ans, OF t(1) s(2)] by auto
  have 2: "page cfg ans (lit ''author'') = av"
    using api_page[where ans = ans, OF a(1)[unfolded 1(2)] s(3)] by blast
  have "map_of tags = label_of_tag cfg ans"
    using tag_table_map[OF t(3)] by (simp add: label_of_tag_def 1(1)[simplified] py_iter_listed[OF t(2)])
  note m = check_author_settled[OF s(1) this]
  from for_each_map[OF m e(1)] show ?thesis
    by (simp add: e(2) to_search_def 2[simplified] py_iter_listed[OF a(2)])
qed


text \<open>The two requests that end a run.\<close>

definition monitor_request :: "'s config \<Rightarrow> pyval list \<Rightarrow> request" where
  "monitor_request cfg ids = \<lparr>verb = PUT, url = base cfg @ lit ''/api/v1/book/monitor'',
     data = dumps False (PDict [(PStr (lit ''bookIds''), PList ids), (PStr (lit ''monitored''), PBool True)])\<rparr>"

definition search_request :: "'s config \<Rightarrow> pyval list \<Rightarrow> request" where
  "search_request cfg ids = \<lparr>verb = POST, url = base cfg @ lit ''/api/v1/command'',
     data = dumps False (PDict [(PStr (lit ''name''), PStr (lit ''BookSearch'')), (PStr (lit ''bookIds''), PList ids)])\<rparr>"

lemma api_log:
  assumes "api cfg path meth body w = (r, w')"
  shows "snd w' = snd w \<or>
    snd w' = snd w @ [\<lparr>verb = meth, url = base cfg @ lit ''/api/v1/'' @ path, data = Option.bind body (dumps False)\<rparr>]"
    "r = Inr x \<Longrightarrow>
    snd w' = snd w @ [\<lparr>verb = meth, url = base cfg @ lit ''/api/v1/'' @ path, data = Option.bind body (dumps False)\<rparr>]"
  using assms by (auto simp: api_def io_bind_def send_def split: prod.splits sum.splits option.splits)

lemma announce_log:
  assumes "announce cfg ids w = (r, w')"
  shows "\<exists>rs. snd w' = snd w @ rs \<and>
    prefix rs (if ids = [] \<or> dry cfg then [] else [monitor_request cfg ids, search_request cfg ids]) \<and>
    (r = Inr () \<longrightarrow> rs = (if ids = [] \<or> dry cfg then [] else [monitor_request cfg ids, search_request cfg ids]))"
proof (cases "ids = [] \<or> dry cfg")
  case True
  with assms show ?thesis by (simp add: announce_def)
next
  case False
  let ?b1 = "PDict [(PStr (lit ''bookIds''), PList ids), (PStr (lit ''monitored''), PBool True)]"
  let ?b2 = "PDict [(PStr (lit ''name''), PStr (lit ''BookSearch'')), (PStr (lit ''bookIds''), PList ids)]"
  have m: "\<lparr>verb = PUT, url = base cfg @ lit ''/api/v1/'' @ lit ''book/monitor'', data = Option.bind (Some ?b1) (dumps False)\<rparr> =
      monitor_request cfg ids"
    "\<lparr>verb = POST, url = base cfg @ lit ''/api/v1/'' @ lit ''command'', data = Option.bind (Some ?b2) (dumps False)\<rparr> =
      search_request cfg ids"
    by (simp_all add: monitor_request_def search_request_def)
  obtain r1 w1 where 1: "api cfg (lit ''book/monitor'') PUT (Some ?b1) w = (r1, w1)"
    by (cases "api cfg (lit ''book/monitor'') PUT (Some ?b1) w")
  note l1 = api_log[OF 1, unfolded m]
  show ?thesis
  proof (cases r1)
    case (Inl e)
    then have "r = Inl e" "w' = w1" using assms False 1 by (simp_all add: announce_def io_bind_def)
    with l1(1) False show ?thesis by auto
  next
    case (Inr x)
    obtain r2 w2 where 2: "api cfg (lit ''command'') POST (Some ?b2) w1 = (r2, w2)"
      by (cases "api cfg (lit ''command'') POST (Some ?b2) w1")
    note l2 = api_log[OF 2, unfolded m]
    from assms False 1 2 Inr have "w' = w2" "r = Inr () \<Longrightarrow> \<exists>y. r2 = Inr y"
      by (auto simp: announce_def io_bind_def split: sum.splits)
    with l1(2)[OF Inr] l2 False show ?thesis by auto
  qed
qed



section \<open>Examples\<close>

text \<open>A service with one tagged author and two volumes of the series, one of them grabbed before.\<close>

definition obj :: "(string \<times> pyval) list \<Rightarrow> pyval" where
  "obj kvs = PDict (map (\<lambda>(k, v). (PStr (lit k), v)) kvs)"

definition sample_answer :: "ustr \<Rightarrow> pyval" where
  "sample_answer u =
     (if u = lit ''b/api/v1/tag'' then PList [obj [(''id'', PInt 1), (''label'', PStr (lit ''dcc''))]]
      else if u = lit ''b/api/v1/author'' then
        PList [obj [(''id'', PInt 7), (''authorName'', PStr (lit ''M'')), (''tags'', PList [PInt 1]), (''monitored'', PBool True)]]
      else if u = lit ''b/api/v1/book?authorId=7'' then
        PList [obj [(''id'', PInt 5), (''title'', PStr (lit ''x'')), (''seriesTitle'', PStr (lit ''DCC #8''))],
               obj [(''id'', PInt 6), (''title'', PStr (lit ''y'')), (''seriesTitle'', PStr (lit ''DCC #7''))]]
      else if u = lit ''b/api/v1/history?bookId=6&pageSize=50'' then
        PList [obj [(''eventType'', PStr (lit ''grabbed''))]]
      else PList [])"

definition sample_service :: "unit service" where
  "sample_service r s = (Inr (case dumps False (sample_answer (url r)) of Some t \<Rightarrow> t | None \<Rightarrow> []), ())"

text \<open>The same, with a search that fails.\<close>

definition broken_service :: "unit service" where
  "broken_service r s = (if verb r = POST then (Inl OSError, ()) else sample_service r s)"

definition sample_config :: "unit service \<Rightarrow> bool \<Rightarrow> unit config" where
  "sample_config srv d = \<lparr>service = srv, base = lit ''b'', dry = d, penv = plain_env,
     uni = \<lparr>lower_u = (\<lambda>n. [uchr n]), digit_u = (\<lambda>_. False)\<rparr>\<rparr>"

theorem dry_run_reads_only_witness:
  "\<exists>rs. snd (snd (run (sample_config sample_service True) ((), []))) = [] @ rs \<and> (\<forall>r \<in> set rs. verb r = GET)"
proof -
  obtain code s log where r: "run (sample_config sample_service True) ((), []) = (code, s, log)"
    by (cases "run (sample_config sample_service True) ((), [])")
  have "dry (sample_config sample_service True)" by (simp add: sample_config_def)
  from dry_run_reads_only[OF this r] r show ?thesis by simp
qed

definition sample_pages :: "ustr \<Rightarrow> ustr res" where
  "sample_pages p = fst (sample_service (get_request (sample_config sample_service False) p) ())"



end
