(* ===== verification/VideoFrames.thy ===== *)
theory VideoFrames
  imports Reconciler
begin

text \<open>
  The video-to-image program (\<open>servers/ai-runner/poc/video_to_image.py\<close>): sample frames with
  ffmpeg, ask a model which are best, and copy those. ffmpeg, the file system and the model's
  endpoint are parameters; the record below names them.
\<close>

section \<open>Files and frames\<close>

text \<open>\<open>os.path.join\<close> of two parts.\<close>

definition path_join :: "ustr \<Rightarrow> ustr \<Rightarrow> ustr" where
  "path_join a b =
     (if b \<noteq> [] \<and> hd b = L CHR ''/'' then b
      else if a = [] \<or> last a = L CHR ''/'' then a @ b
      else a @ lit ''/'' @ b)"

definition ends_with :: "ustr \<Rightarrow> ustr \<Rightarrow> bool" where
  "ends_with w s \<longleftrightarrow> suffix w s"

definition frame_pattern :: ustr where
  "frame_pattern = lit ''frame_%03d.jpg''"

definition ffmpeg_cmd :: "ustr \<Rightarrow> int \<Rightarrow> ustr \<Rightarrow> ustr \<Rightarrow> ustr list" where
  "ffmpeg_cmd video_path interval scale output_dir =
     [lit ''ffmpeg'', lit ''-i'', video_path,
      lit ''-vf'', lit ''fps=1/'' @ int_text interval @ lit '',scale='' @ scale,
      path_join output_dir frame_pattern, lit ''-y'', lit ''-loglevel'', lit ''error'']"

text \<open>What the program uses of the outside; \<open>'w\<close> is the state of the file system.\<close>

record 'w tools =
  run_cmd :: "ustr list \<Rightarrow> ('w, int) io"
  listdir :: "ustr \<Rightarrow> ('w, ustr list) io"
  read_file :: "ustr \<Rightarrow> ('w, nat list) io"
  copy_file :: "ustr \<Rightarrow> ustr \<Rightarrow> ('w, unit) io"
  make_dirs :: "ustr \<Rightarrow> ('w, unit) io"
  path_exists :: "ustr \<Rightarrow> ('w, bool) io"
  temp_dir :: "('w, ustr) io"
  remove_dir :: "ustr \<Rightarrow> ('w, unit) io"
  post_json :: "ustr \<Rightarrow> ustr \<Rightarrow> ('w, ustr res) io"
  interp :: pyenv
  digits :: unidb

definition extract_frames :: "'w tools \<Rightarrow> ustr \<Rightarrow> int \<Rightarrow> ustr \<Rightarrow> ustr \<Rightarrow> ('w, ustr list) io" where
  "extract_frames T video_path interval scale output_dir =
     io_bind (run_cmd T (ffmpeg_cmd video_path interval scale output_dir)) (\<lambda>rc.
       if rc \<noteq> 0 then lift_res (Inl (SystemExit 1))
       else io_bind (listdir T output_dir) (\<lambda>fs. ret (sort (filter (ends_with (lit ''.jpg'')) fs))))"

section \<open>The request to the model\<close>

text \<open>\<open>base64.b64encode\<close> of bytes.\<close>

definition b64_char :: "nat \<Rightarrow> uchar" where
  "b64_char n =
     (if n < 26 then uchr (65 + n) else if n < 52 then uchr (71 + n) else if n < 62 then uchr (n - 4)
      else if n = 62 then L CHR ''+'' else L CHR ''/'')"

fun b64encode :: "nat list \<Rightarrow> ustr" where
  "b64encode [] = []"
| "b64encode [a] = [b64_char (a div 4), b64_char (a mod 4 * 16), L CHR ''='', L CHR ''='']"
| "b64encode [a, b] =
     [b64_char (a div 4), b64_char (a mod 4 * 16 + b div 16), b64_char (b mod 16 * 4), L CHR ''='']"
| "b64encode (a # b # c # bs) =
     [b64_char (a div 4), b64_char (a mod 4 * 16 + b div 16), b64_char (b mod 16 * 4 + c div 64), b64_char (c mod 64)] @
     b64encode bs"

definition pad2_int :: "int \<Rightarrow> ustr" where
  "pad2_int i = (if 0 \<le> i then pad2 (nat i) else int_text i)"

definition timestamp_str :: "int \<Rightarrow> ustr" where
  "timestamp_str timestamp =
     (let minutes = timestamp div 60; seconds = timestamp mod 60
      in if minutes \<noteq> 0 then int_text minutes @ lit ''m'' @ pad2_int seconds @ lit ''s''
         else int_text seconds @ lit ''s'')"

definition text_item :: "ustr \<Rightarrow> pyval" where
  "text_item t = PDict [(PStr (lit ''type''), PStr (lit ''text'')), (PStr (lit ''text''), PStr t)]"

definition image_item :: "nat list \<Rightarrow> pyval" where
  "image_item bytes =
     PDict [(PStr (lit ''type''), PStr (lit ''image_url'')),
            (PStr (lit ''image_url''),
             PDict [(PStr (lit ''url''), PStr (lit ''data:image/jpeg;base64,'' @ b64encode bytes))])]"

definition frame_items :: "'w tools \<Rightarrow> ustr \<Rightarrow> int \<Rightarrow> nat \<times> ustr \<Rightarrow> ('w, pyval list) io" where
  "frame_items T frames_dir interval = (\<lambda>(i, fname).
     io_bind (read_file T (path_join frames_dir fname)) (\<lambda>bytes.
       ret [text_item (lit ''[Frame '' @ nat_text (i + 1) @ lit '' '' @ uchr 8212 # lit '' '' @
              timestamp_str (int i * interval) @ lit '']''),
            image_item bytes]))"

definition closing_text :: "nat \<Rightarrow> int \<Rightarrow> ustr" where
  "closing_text n interval =
     lit ''These are '' @ nat_text n @ lit '' frames sampled every '' @ int_text interval @
     lit '' seconds from a food or recipe video. '' @
     lit ''Identify the 3-4 frames that would make the best images for a recipe blog post. '' @
     lit ''Reply with the frame numbers (e.g. Frame 3, Frame 7) and a one-sentence explanation '' @
     lit ''for each. Be specific about what is visually shown in each chosen frame.''"

definition build_message :: "'w tools \<Rightarrow> ustr \<Rightarrow> ustr list \<Rightarrow> int \<Rightarrow> ('w, pyval) io" where
  "build_message T frames_dir frames interval =
     io_bind (for_each (frame_items T frames_dir interval) (enumerate 0 frames)) (\<lambda>items.
       ret (PList (concat items @ [text_item (closing_text (length frames) interval)])))"

definition API_BASE :: ustr where
  "API_BASE = lit ''http://192.168.4.56:8000/v1''"

definition MODEL :: ustr where
  "MODEL = lit ''qwen3-vl:30b''"

text \<open>\<open>v[key]\<close> and \<open>v[0]\<close>; \<open>post_json\<close> answers with the body, or with an HTTP error as \<open>Inl\<close>.\<close>

definition call_model :: "'w tools \<Rightarrow> pyval \<Rightarrow> ('w, pyval \<times> pyval) io" where
  "call_model T content =
     (let payload = PDict [(PStr (lit ''model''), PStr MODEL),
            (PStr (lit ''messages''), PList [PDict [(PStr (lit ''role''), PStr (lit ''user'')), (PStr (lit ''content''), content)]]),
            (PStr (lit ''max_tokens''), PInt 600)]
      in io_bind (lift_res (case dumps False payload of Some t \<Rightarrow> Inr t | None \<Rightarrow> Inl TypeError)) (\<lambda>data.
           io_bind (post_json T (API_BASE @ lit ''/chat/completions'') data) (\<lambda>answer.
             case answer of
               Inl _ \<Rightarrow> lift_res (Inl (SystemExit 1))
             | Inr raw \<Rightarrow>
                 lift_res (case json_loads (interp T) raw of
                     None \<Rightarrow> Inl ValueError
                   | Some result \<Rightarrow>
                       bind_res (py_item result ''choices'') (\<lambda>cs. bind_res (py_first cs) (\<lambda>c.
                         bind_res (py_item c ''message'') (\<lambda>msg. bind_res (py_item msg ''content'') (\<lambda>t.
                           bind_res (py_item result ''usage'') (\<lambda>u. Inr (t, u))))))))))"

section \<open>The model's choice\<close>

definition FRAME_MENTION :: "unidb \<Rightarrow> rx" where
  "FRAME_MENTION db =
     rx_seq [Ch (\<lambda>c. c = L CHR ''F'' \<or> c = L CHR ''f''), rx_lit (lit ''rame''),
             rx_many1 py_space, Grp 1 (rx_many1 (re_digit db))]"

text \<open>\<open>int\<close> of digits: outside ASCII each digit's value is a parameter.\<close>

definition parse_frame_numbers :: "unidb \<Rightarrow> (ustr \<Rightarrow> nat) \<Rightarrow> ustr \<Rightarrow> nat list" where
  "parse_frame_numbers db to_int response = fromkeys (map to_int (findall (FRAME_MENTION db) response))"

definition selected_name :: "nat \<Rightarrow> ustr" where
  "selected_name n = lit ''selected_frame_'' @ pad2 n @ lit ''.jpg''"

definition save_selected_frames :: "'w tools \<Rightarrow> ustr \<Rightarrow> ustr list \<Rightarrow> nat list \<Rightarrow> ustr \<Rightarrow> ('w, ustr list) io" where
  "save_selected_frames T frames_dir frames selected_numbers output_dir =
     io_bind (make_dirs T output_dir) (\<lambda>_.
       io_bind (for_each (\<lambda>n.
         if 1 \<le> n \<and> n \<le> length frames
         then (let dst = path_join output_dir (selected_name n)
               in io_bind (copy_file T (path_join frames_dir (frames ! (n - 1))) dst) (\<lambda>_. ret [dst]))
         else ret []) selected_numbers) (\<lambda>xs. ret (concat xs)))"

definition DEFAULT_SCALE :: ustr where
  "DEFAULT_SCALE = lit ''1280:720''"

text \<open>
  \<open>main\<close> after its arguments are parsed; leaving the \<open>with\<close> block removes the directory, and \<open>to_int\<close> is
  \<open>int\<close> on the digits matched.
\<close>

definition main :: "'w tools \<Rightarrow> (ustr \<Rightarrow> nat) \<Rightarrow> ustr \<Rightarrow> ustr \<Rightarrow> int \<Rightarrow> ('w, ustr list) io" where
  "main T to_int video output interval =
     io_bind (path_exists T video) (\<lambda>there.
       if \<not> there then lift_res (Inl (SystemExit 1))
       else io_bind (temp_dir T) (\<lambda>tmpdir. io_finally (
         io_bind (extract_frames T video interval DEFAULT_SCALE tmpdir) (\<lambda>frames.
         io_bind (build_message T tmpdir frames interval) (\<lambda>content.
         io_bind (call_model T content) (\<lambda>(response, usage).
         io_bind (lift_res (bind_res (py_item usage ''prompt_tokens'') (\<lambda>_.
             bind_res (py_item usage ''completion_tokens'') (\<lambda>_. py_item usage ''total_tokens'')))) (\<lambda>_.
         io_bind (lift_res (case response of
             PStr r \<Rightarrow> Inr (parse_frame_numbers (digits T) to_int r) | _ \<Rightarrow> Inl TypeError)) (\<lambda>selected.
           save_selected_frames T tmpdir frames selected output))))))
         (remove_dir T tmpdir)))"

section \<open>Frame files in numeric order\<close>

text \<open>The file name ffmpeg gives to frame \<open>k\<close> under \<open>frame_%03d.jpg\<close>.\<close>

definition pad3 :: "nat \<Rightarrow> ustr" where
  "pad3 n = (if n < 10 then lit ''00'' @ nat_text n else if n < 100 then lit ''0'' @ nat_text n else nat_text n)"

definition frame_name :: "nat \<Rightarrow> ustr" where
  "frame_name k = lit ''frame_'' @ pad3 k @ lit ''.jpg''"

text \<open>Tools for examples: ffmpeg makes the first \<open>n\<close> frames and the directory holds a note besides.\<close>

definition sample_tools :: "nat \<Rightarrow> unit tools" where
  "sample_tools n = \<lparr>run_cmd = (\<lambda>_. ret 0),
     listdir = (\<lambda>_. ret (rev (map frame_name [1..<Suc n]) @ [lit ''notes.txt''])),
     read_file = (\<lambda>_. ret [77, 97]), copy_file = (\<lambda>_ _. ret ()), make_dirs = (\<lambda>_. ret ()),
     path_exists = (\<lambda>_. ret True), temp_dir = ret (lit ''/t''), remove_dir = (\<lambda>_. ret ()), post_json = (\<lambda>_ _. ret (Inl OSError)),
     interp = plain_env, digits = \<lparr>lower_u = (\<lambda>n. [uchr n]), digit_u = (\<lambda>_. False)\<rparr>\<rparr>"

lemma pad3_digits:
  assumes "n < 1000"
  shows "pad3 n = [digit_char (n div 100), digit_char (n div 10 mod 10), digit_char (n mod 10)]"
proof -
  have "digit_char 0 = L CHR ''0''" by code_simp
  then show ?thesis using assms
    by (auto simp: pad3_def nat_text.simps[of n] nat_text.simps[of "n div 10"] nat_text.simps[of "n div 100"] div_mult2_eq[symmetric])
qed

lemma digit_char_less: "digit_char a < digit_char b \<longleftrightarrow> a < b"
  by (simp add: less_uchar_def digit_char_def)

lemma last_digit_less: "(k :: nat) < l \<Longrightarrow> k div 10 < l div 10 \<or> k div 10 = l div 10 \<and> k mod 10 < l mod 10"
  using mult_div_mod_eq[of 10 k] mult_div_mod_eq[of 10 l] div_le_mono[of k l 10] by linarith

lemma three_digits_less:
  fixes k l :: nat
  assumes "k < l" "l < 1000"
  shows "k div 100 < l div 100 \<or> k div 100 = l div 100 \<and>
    (k div 10 mod 10 < l div 10 mod 10 \<or> k div 10 mod 10 = l div 10 mod 10 \<and> k mod 10 < l mod 10)"
proof -
  have h: "n div 100 = n div 10 div 10" for n :: nat by (simp flip: div_mult2_eq)
  show ?thesis
    unfolding h using last_digit_less[OF assms(1)] last_digit_less[of "k div 10" "l div 10"] by auto
qed

lemma lex_append_less: "(xs @ ys :: ustr) < xs @ zs \<longleftrightarrow> ys < zs"
  by (induction xs) auto

lemma frame_name_less:
  assumes "k < l" "l < 1000"
  shows "frame_name k < frame_name l"
  unfolding frame_name_def lex_append_less
  using three_digits_less[OF assms] assms
  by (auto simp: pad3_digits digit_char_less)

lemma sorted_frame_names: "n \<le> 1000 \<Longrightarrow> sorted (map frame_name [m..<n])"
  by (auto simp: sorted_iff_nth_mono_less intro!: less_imp_le frame_name_less)

lemma frame_1000: "frame_name 100 < frame_name 1000" "frame_name 1000 < frame_name 101"
  by code_simp+

text \<open>
  C20: up to 999 frames, the frames the program works with are the files in the order of their
  numbers, whatever else the directory holds and in whatever order it is listed, so \<open>Frame k\<close>
  of the request is the \<open>k\<close>-th sample.
\<close>

theorem frames_in_order:
  assumes "n \<le> 999"
    and "run_cmd T (ffmpeg_cmd video interval scale dir) w = (Inr 0, u)" "listdir T dir u = (Inr fs, v)"
    and "mset (filter (ends_with (lit ''.jpg'')) fs) = mset (map frame_name [1..<Suc n])"
  shows "extract_frames T video interval scale dir w = (Inr (map frame_name [1..<Suc n]), v)"
proof -
  have "sort (filter (ends_with (lit ''.jpg'')) fs) = map frame_name [1..<Suc n]"
    by (rule properties_for_sort) (use assms(1,4) sorted_frame_names[of "Suc n" 1] in simp_all)
  then show ?thesis using assms(2,3) by (simp add: extract_frames_def io_bind_def)
qed

lemma sort_last_moved:
  fixes f :: "nat \<Rightarrow> ustr"
  assumes "1 \<le> a" "a \<le> n" "sorted (map f [1..<a])" "sorted (map f [a..<n])"
    and "\<And>k. k < a \<Longrightarrow> f k \<le> f n" "\<And>k. a \<le> k \<Longrightarrow> k < n \<Longrightarrow> f n \<le> f k"
  shows "sort (map f [1..<Suc n]) = map f [1..<a] @ f n # map f [a..<n]"
proof (rule properties_for_sort)
  have u: "[1..<Suc n] = [1..<a] @ [a..<n] @ [n]"
    using upt_add_eq_append[of 1 a "n - a"] upt_Suc_append[of 1 n] assms(1,2) by simp
  show "mset (map f [1..<a] @ f n # map f [a..<n]) = mset (map f [1..<Suc n])"
    unfolding u by simp
  have "f k \<le> f l" if "k < a" "a \<le> l" "l < n" for k l
    using assms(5)[OF that(1)] assms(6)[OF that(2,3)] by (rule order.trans)
  with assms(3-6) show "sorted (map f [1..<a] @ f n # map f [a..<n])"
    by (auto simp: sorted_append)
qed

text \<open>
  From the 1000th frame on the order breaks: of 1000 frames, the file of frame 1000 is the
  101st of the list, so it is sent as \<open>Frame 101\<close> and every later frame is off by one.
\<close>

theorem thousand_frames_misordered:
  "sort (map frame_name [1..<Suc 1000]) = map frame_name [1..<101] @ frame_name 1000 # map frame_name [101..<1000]"
proof (rule sort_last_moved)
  show "frame_name k \<le> frame_name 1000" if "k < 101" for k
    using frame_name_less[of k 100] frame_1000(1) that by (cases "k = 100") auto
  show "frame_name 1000 \<le> frame_name k" if "101 \<le> k" "k < 1000" for k
    using frame_name_less[of 101 k] frame_1000(2) that by (cases "k = 101") auto
qed (rule sorted_frame_names | simp)+

section \<open>Base 64\<close>

definition b64_val :: "uchar \<Rightarrow> nat" where
  "b64_val c =
     (let n = ucode c
      in if 65 \<le> n \<and> n \<le> 90 then n - 65 else if 97 \<le> n \<and> n \<le> 122 then n - 71
         else if 48 \<le> n \<and> n \<le> 57 then n + 4 else if n = 43 then 62 else 63)"

lemma ucode_plus_slash: "ucode (L CHR ''+'') = 43" "ucode (L CHR ''/'') = 47"
  by simp_all

lemma b64_val_char: "n < 64 \<Longrightarrow> b64_val (b64_char n) = n"
  by (auto simp: b64_val_def b64_char_def Let_def)

lemma b64_char_pad: "n < 64 \<Longrightarrow> b64_char n \<noteq> L CHR ''=''"
proof -
  assume "n < 64"
  have "ucode (b64_char n) \<noteq> 61"
    using \<open>n < 64\<close> by (auto simp: b64_char_def)
  moreover have "ucode (L CHR ''='') = 61" by simp
  ultimately show ?thesis by metis
qed

fun b64decode :: "ustr \<Rightarrow> nat list" where
  "b64decode (a # b # c # d # s) =
     (if c = L CHR ''='' then [b64_val a * 4 + b64_val b div 16]
      else if d = L CHR ''='' then [b64_val a * 4 + b64_val b div 16, b64_val b mod 16 * 16 + b64_val c div 4]
      else [b64_val a * 4 + b64_val b div 16, b64_val b mod 16 * 16 + b64_val c div 4,
            b64_val c mod 4 * 64 + b64_val d] @ b64decode s)"
| "b64decode _ = []"

lemma dvd4: "4 dvd Suc (Suc (Suc (Suc n))) \<longleftrightarrow> 4 dvd n"
proof -
  have "Suc (Suc (Suc (Suc n))) = n + 4" by simp
  then show ?thesis by (simp only: dvd_add_triv_right_iff)
qed

lemma join16: "y < 16 \<Longrightarrow> (x * 16 + y) div 16 = x \<and> (x * 16 + y) mod 16 = (y :: nat)"
  by simp

lemma join4: "y < 4 \<Longrightarrow> (x * 4 + y) div 4 = x \<and> (x * 4 + y) mod 4 = (y :: nat)"
  by simp

lemma base64_roundtrip:
  assumes "\<forall>b \<in> set bs. b < 256"
  shows "b64decode (b64encode bs) = bs \<and> 4 dvd length (b64encode bs)"
  using assms
proof (induction bs rule: b64encode.induct)
  case (2 a)
  then have "a div 4 < 64" "a mod 4 * 16 < 64" by auto
  then show ?case by (simp add: b64_val_char dvd4)
next
  case (3 a b)
  then have r: "a div 4 < 64" "a mod 4 * 16 + b div 16 < 64" "b mod 16 * 4 < 64" "b div 16 < 16" by auto
  then show ?case by (simp add: b64_val_char b64_char_pad join16 dvd4)
next
  case (4 a b c bs)
  then have r: "a div 4 < 64" "a mod 4 * 16 + b div 16 < 64" "b mod 16 * 4 + c div 64 < 64" "c mod 64 < 64"
    "b div 16 < 16" "c div 64 < 4" by auto
  then show ?case using 4 by (simp add: b64_val_char b64_char_pad join16 join4 dvd4)
qed simp

text \<open>The bytes of an image item, read as the endpoint reads them.\<close>

definition image_bytes :: "pyval \<Rightarrow> nat list option" where
  "image_bytes v =
     (case v of
        PDict [(PStr t, PStr k), (PStr u, PDict [(PStr w, PStr x)])] \<Rightarrow>
          if t = lit ''type'' \<and> k = lit ''image_url'' \<and> u = lit ''image_url'' \<and> w = lit ''url'' \<and>
            prefix (lit ''data:image/jpeg;base64,'') x
          then Some (b64decode (drop (length (lit ''data:image/jpeg;base64,'')) x)) else None
      | _ \<Rightarrow> None)"

text \<open>
  The bytes of a frame reach the endpoint unchanged: the image item made of them is a data
  URL whose decoding gives them back.
\<close>

theorem image_item_roundtrip:
  assumes "\<forall>b \<in> set bs. b < 256"
  shows "image_bytes (image_item bs) = Some bs"
  using base64_roundtrip[OF assms] by (simp add: image_item_def image_bytes_def)

theorem image_item_roundtrip_witness: "image_bytes (image_item [77, 97, 255]) = Some [77, 97, 255]"
  by (rule image_item_roundtrip) simp

theorem frames_in_order_witness:
  "extract_frames (sample_tools 2) (lit ''v'') 30 DEFAULT_SCALE (lit ''d'') () =
     (Inr (map frame_name [1..<Suc 2]), ())"
proof -
  let ?fs = "rev (map frame_name [1..<Suc 2]) @ [lit ''notes.txt'']"
  have "filter (ends_with (lit ''.jpg'')) ?fs = rev (map frame_name [1..<Suc 2])" by code_simp
  then have "mset (filter (ends_with (lit ''.jpg'')) ?fs) = mset (map frame_name [1..<Suc 2])"
    by (simp only: mset_rev)
  then show ?thesis
    by (intro frames_in_order[where u = "()" and fs = ?fs]) (simp_all only: sample_tools_def tools.select_convs ret_apply)
qed

section \<open>The frames the model names\<close>

text \<open>
  A mention of a frame at the start of a text: \<open>Frame\<close> or \<open>frame\<close>, white space, a digit. No
  Unicode digit is white space, which is what \<open>digits_apart\<close> says of the parameter.
\<close>

definition digits_apart :: "unidb \<Rightarrow> bool" where
  "digits_apart db \<longleftrightarrow> (\<forall>c. re_digit db c \<longrightarrow> \<not> py_space c)"

definition frame_word :: "bool \<Rightarrow> ustr" where
  "frame_word capital = (if capital then lit ''Frame'' else lit ''frame'')"

definition mention_at :: "unidb \<Rightarrow> ustr \<Rightarrow> bool" where
  "mention_at db v \<longleftrightarrow>
     (let rest = drop 5 v; num = dropWhile py_space rest
      in (take 5 v = frame_word True \<or> take 5 v = frame_word False) \<and>
         rest \<noteq> num \<and> num \<noteq> [] \<and> re_digit db (hd num))"

text \<open>A reply: mentions \<open>(gap, capital, spaces, number)\<close>, each after the text of its gap, and more text.\<close>

type_synonym mention = "ustr \<times> bool \<times> ustr \<times> ustr"

definition reply_text :: "mention list \<Rightarrow> ustr \<Rightarrow> ustr" where
  "reply_text ms post = concat (map (\<lambda>(gap, cap, sp, num). gap @ frame_word cap @ sp @ num) ms) @ post"

definition spoken :: "unidb \<Rightarrow> mention \<Rightarrow> bool" where
  "spoken db = (\<lambda>(gap, cap, sp, num).
     sp \<noteq> [] \<and> (\<forall>c \<in> set sp. py_space c) \<and> num \<noteq> [] \<and> (\<forall>c \<in> set num. re_digit db c))"

definition silent :: "unidb \<Rightarrow> ustr \<Rightarrow> bool" where
  "silent db s \<longleftrightarrow> (\<forall>v \<in> set (suffixes s). \<not> mention_at db v)"

definition starts_number :: "unidb \<Rightarrow> ustr \<Rightarrow> bool" where
  "starts_number db s \<longleftrightarrow> s \<noteq> [] \<and> re_digit db (hd s)"

lemma reply_text_simps [simp]:
  "reply_text [] post = post"
  "reply_text ((gap, cap, sp, num) # ms) post = gap @ frame_word cap @ sp @ num @ reply_text ms post"
  by (simp_all add: reply_text_def)

lemma frame_word_hd: "\<exists>c. frame_word cap @ s = c # lit ''rame'' @ s \<and> (c = L CHR ''F'' \<or> c = L CHR ''f'')"
  by (auto simp: frame_word_def)

lemma frame_word_quiet: "\<not> py_space (hd (frame_word cap @ s)) \<and> \<not> re_digit db (hd (frame_word cap @ s))"
  by (simp add: frame_word_def ascii_digit_def latin_space_def)

lemma takes_lit: "takes (rx_lit w) w s []"
  by (simp add: takes_def first_def)

lemma takes_mention:
  assumes "spoken db (gap, cap, sp, num)" "digits_apart db" "\<not> starts_number db s"
  shows "takes (FRAME_MENTION db) (frame_word cap @ sp @ num) s [(1, num)]"
proof -
  obtain d ds where num: "num = d # ds" using assms(1) by (cases num) (auto simp: spoken_def)
  then have "\<not> py_space d" using assms(1,2) by (auto simp: spoken_def digits_apart_def)
  with assms(1) num have sp: "takes (rx_many1 py_space) sp (num @ s) []" by (intro takes_many1) (auto simp: spoken_def)
  have n: "takes (rx_many1 (re_digit db)) num s []"
    using assms(1,3) by (intro takes_many1) (auto simp: spoken_def starts_number_def)
  have "takes (FRAME_MENTION db) ([c] @ lit ''rame'' @ sp @ num) s [(1, num)]" if "c = L CHR ''F'' \<or> c = L CHR ''f''" for c
    unfolding FRAME_MENTION_def rx_seq.simps
    by (intro takes_seq_plain takes_ch takes_lit takes_grp[OF n] that) (simp add: sp)
  moreover obtain c where "frame_word cap @ sp @ num = [c] @ lit ''rame'' @ sp @ num" "c = L CHR ''F'' \<or> c = L CHR ''f''"
    using frame_word_hd[of cap "sp @ num"] by auto
  ultimately show ?thesis by simp
qed

lemma match_mention_at:
  assumes "digits_apart db" "rx_match (FRAME_MENTION db) (i, v, g) st"
  shows "mention_at db v"
proof -
  from assms(2) obtain c s2 i2 s3 g2 i3 s4 g3 where
    v: "v = c # lit ''rame'' @ s2" "c = L CHR ''F'' \<or> c = L CHR ''f''" and
    m: "rx_match (rx_many1 py_space) (i2, s2, g2) (i3, s3, g3)" "\<exists>st'. rx_match (rx_many1 (re_digit db)) (i3, s3, g3) st'"
    unfolding FRAME_MENTION_def rx_seq.simps by (auto elim!: rx_match_cases) blast+
  from m(1) obtain sp where "s2 = sp @ s3" "sp \<noteq> []" "\<forall>c \<in> set sp. py_space c"
    unfolding rx_many1_def by (auto elim!: rx_match_cases)
  moreover from m(2) have "s3 \<noteq> []" "re_digit db (hd s3)"
    unfolding rx_many1_def by (auto elim!: rx_match_cases)
  ultimately have s2: "s2 = sp @ s3" "sp \<noteq> []" "\<forall>c \<in> set sp. py_space c" "s3 \<noteq> []" "re_digit db (hd s3)" by simp_all
  have "\<not> py_space (hd s3)" using assms(1) s2(5) by (simp add: digits_apart_def)
  with s2 have "dropWhile py_space s2 = s3" by (cases s3) auto
  moreover have "\<exists>x \<in> set s2. \<not> py_space x" using s2 \<open>\<not> py_space (hd s3)\<close> by (metis Un_iff hd_in_set set_append)
  ultimately show ?thesis using v(2) s2(1,2,4,5) by (auto simp: mention_at_def Let_def v(1) frame_word_def)
qed

lemma mention_at_append:
  assumes "mention_at db (v @ frame_word cap @ s)" "v \<noteq> []"
  shows "mention_at db v"
proof -
  let ?s = "frame_word cap @ s"
  obtain c s' where s: "?s = c # s'" "c = L CHR ''F'' \<or> c = L CHR ''f''" using frame_word_hd by blast
  from assms(1) have w: "take 5 (v @ ?s) = frame_word True \<or> take 5 (v @ ?s) = frame_word False"
    by (simp only: mention_at_def Let_def)
  have len: "5 \<le> length v"
  proof (rule ccontr)
    assume "\<not> 5 \<le> length v"
    then have l: "length v < 5" by simp
    then have "take 5 (v @ ?s) ! length v = c" by (simp add: s nth_append)
    moreover have "0 < length v" using assms(2) by simp
    moreover have "length v = 1 \<or> length v = 2 \<or> length v = 3 \<or> length v = 4" using l \<open>0 < length v\<close> by linarith
    ultimately show False using w s(2) by (auto simp: frame_word_def)
  qed
  then have d: "drop 5 (v @ ?s) = drop 5 v @ ?s" "take 5 (v @ ?s) = take 5 v" by simp_all
  let ?r = "drop 5 v"
  from assms(1) have m: "?r @ ?s \<noteq> dropWhile py_space (?r @ ?s)" "re_digit db (hd (dropWhile py_space (?r @ ?s)))"
    unfolding mention_at_def Let_def d by blast+
  have q: "dropWhile py_space ?s = ?s" using frame_word_quiet[of cap s] by (simp add: dropWhile_eq_self_iff)
  show ?thesis
  proof (cases "\<forall>x \<in> set ?r. py_space x")
    case True
    then have "dropWhile py_space (?r @ ?s) = ?s" using q by (simp only: dropWhile_append2)
    with m(2) frame_word_quiet[of cap s db] show ?thesis by simp
  next
    case False
    then have "dropWhile py_space (?r @ ?s) = dropWhile py_space ?r @ ?s" "dropWhile py_space ?r \<noteq> []"
      by (auto simp: dropWhile_append)
    with m w[unfolded d] show ?thesis by (simp add: mention_at_def Let_def)
  qed
qed


lemma search_mention:
  assumes "spoken db (gap, cap, sp, num)" "digits_apart db" "silent db gap" "\<not> starts_number db s"
  shows "rx_search (FRAME_MENTION db) False i (gap @ frame_word cap @ sp @ num @ s) =
    Some (i + length gap, i + length gap + length (frame_word cap @ sp @ num), s, [(1, num)])"
proof -
  from takes_first[OF takes_mention[OF assms(1,2,4)]]
  obtain ms where "mt (FRAME_MENTION db) (i + length gap, (frame_word cap @ sp @ num) @ s, []) =
      (i + length gap + length (frame_word cap @ sp @ num), s, [(1, num)]) # ms"
    by (metis append_Nil2)
  moreover have "mt (FRAME_MENTION db) (i + length u, v @ (frame_word cap @ sp @ num) @ s, []) = []"
    if "gap = u @ v" "v \<noteq> []" for u v
  proof -
    have "\<not> mention_at db v" using assms(3) that by (auto simp: silent_def suffix_def)
    then have "\<not> mention_at db (v @ frame_word cap @ sp @ num @ s)" using mention_at_append that(2) by blast
    then show ?thesis using match_mention_at[OF assms(2)] mt_iff_match by (metis append.assoc last_in_set)
  qed
  ultimately show ?thesis using search_after_gap[of gap "FRAME_MENTION db" i "(frame_word cap @ sp @ num) @ s"] by simp
qed

lemma search_silent:
  assumes "digits_apart db" "silent db s"
  shows "rx_search (FRAME_MENTION db) adv i s = None"
proof (rule search_none)
  fix u v assume "s = u @ v"
  then have "\<not> mention_at db v" using assms(2) by (auto simp: silent_def suffix_def)
  then show "mt (FRAME_MENTION db) (i + length u, v, []) = []"
    using match_mention_at[OF assms(1)] mt_iff_match by (metis last_in_set)
qed

lemma reply_starts:
  assumes "\<forall>(gap, _) \<in> set ms. \<not> starts_number db gap" "\<not> starts_number db post"
  shows "\<not> starts_number db (reply_text ms post)"
proof (cases ms)
  case (Cons m ms')
  obtain gap cap sp num where m: "m = (gap, cap, sp, num)" by (cases m)
  show ?thesis
  proof (cases gap)
    case Nil
    with frame_word_quiet[of cap "sp @ num @ reply_text ms' post" db] show ?thesis by (simp add: Cons m starts_number_def)
  next
    case (Cons c g)
    with assms(1) \<open>ms = m # ms'\<close> m show ?thesis by (simp add: starts_number_def)
  qed
qed (simp add: assms)

lemma in_set_tl: "x \<in> set (tl xs) \<Longrightarrow> x \<in> set xs"
  by (cases xs) simp_all

lemma iter_mentions:
  assumes "digits_apart db" "\<forall>m \<in> set ms. spoken db m \<and> silent db (fst m)" "silent db post"
    "\<forall>(gap, _) \<in> set (tl ms). \<not> starts_number db gap" "ms \<noteq> [] \<longrightarrow> \<not> starts_number db post"
  shows "map (group 1) (rx_iter (FRAME_MENTION db) False i (reply_text ms post)) = map (\<lambda>(_, _, _, num). num) ms"
  using assms(2,4,5)
proof (induction ms arbitrary: i)
  case Nil
  show ?case by (simp add: rx_iter.simps search_silent assms(1,3))
next
  case (Cons m ms)
  obtain gap cap sp num where m: "m = (gap, cap, sp, num)" by (cases m)
  let ?j = "i + length gap + length (frame_word cap @ sp @ num)"
  have sp: "spoken db (gap, cap, sp, num)" "silent db gap" using Cons.prems(1) by (auto simp: m)
  then have ne: "frame_word cap @ sp @ num \<noteq> []" by (auto simp: spoken_def)
  have "\<not> starts_number db (reply_text ms post)" using Cons.prems by (intro reply_starts) auto
  note s = search_mention[OF sp(1) assms(1) sp(2) this, of i]
  have "rx_iter (FRAME_MENTION db) False i (gap @ frame_word cap @ sp @ num @ reply_text ms post) =
      (i + length gap, ?j, [(1, num)]) # rx_iter (FRAME_MENTION db) False ?j (reply_text ms post)"
    using ne by (subst rx_iter.simps) (simp only: s option.case prod.case, auto)
  moreover have "map (group 1) (rx_iter (FRAME_MENTION db) False ?j (reply_text ms post)) = map (\<lambda>(_, _, _, num). num) ms"
    using Cons.prems by (intro Cons.IH) (auto dest: in_set_tl)
  moreover have "group 1 (b, e, [(1, num)]) = num" for b e by (simp add: group_def)
  ultimately show ?case by (simp add: m)
qed

text \<open>
  C19: of a reply that mentions frames, with a capital or a small letter and any white space before
  the number, the program reads exactly the numbers mentioned, in the order of their first
  mention, each once. The text before, between and after the mentions is any that holds no
  mention itself and does not go on with the number before it.
\<close>

theorem mentions_parsed:
  assumes "digits_apart db"
    "\<forall>m \<in> set ms. spoken db m \<and> silent db (fst m)" "silent db post"
    "\<forall>(gap, _) \<in> set (tl ms). \<not> starts_number db gap" "ms \<noteq> [] \<longrightarrow> \<not> starts_number db post"
  shows "parse_frame_numbers db to_int (reply_text ms post) = fromkeys (map (\<lambda>(_, _, _, num). to_int num) ms)"
proof -
  have "map to_int (map (\<lambda>(_, _, _, num). num) ms) = map (\<lambda>(_, _, _, num). to_int num) ms" by (auto simp: comp_def)
  with iter_mentions[OF assms, of 0] show ?thesis
    by (simp only: parse_frame_numbers_def findall_def finditer_def)
qed

theorem mentions_parsed_witness:
  "parse_frame_numbers (digits (sample_tools 2)) text_nat
     (lit ''2 of five: Frame 07, or frame'' @ lit ''   12; Frames of beef, FRAME 3, frame x, then Frame 7.'') = [7, 12]"
proof -
  let ?db = "digits (sample_tools 2)"
  let ?ms = "[(lit ''2 of five: '', True, lit '' '', lit ''07''), (lit '', or '', False, lit ''   '', lit ''12''),
    (lit ''; Frames of beef, FRAME 3, frame x, then '', True, lit '' '', lit ''7'')]"
  have "digits_apart ?db"
    unfolding digits_apart_def
  proof (intro allI impI)
    fix c assume "re_digit ?db c"
    then show "\<not> py_space c" by (cases c) (auto simp: sample_tools_def ascii_digit_def latin_space_def)
  qed
  then have "parse_frame_numbers ?db text_nat (reply_text ?ms (lit ''.'')) = fromkeys (map (\<lambda>(_, _, _, num). text_nat num) ?ms)"
    by (rule mentions_parsed) code_simp+
  moreover have "fromkeys (map (\<lambda>(_, _, _, num). text_nat num) ?ms) = [7, 12]" by code_simp
  moreover have "reply_text ?ms (lit ''.'') =
      lit ''2 of five: Frame 07, or frame'' @ lit ''   12; Frames of beef, FRAME 3, frame x, then Frame 7.''"
    by (simp add: frame_word_def)
  ultimately show ?thesis by (simp only:)
qed

section \<open>Saving\<close>

text \<open>What is copied: for each chosen number in range the frame of that number, to its own name.\<close>

definition copies :: "ustr \<Rightarrow> ustr list \<Rightarrow> nat list \<Rightarrow> ustr \<Rightarrow> (ustr \<times> ustr) list" where
  "copies frames_dir frames ns output_dir =
     map (\<lambda>n. (path_join frames_dir (frames ! (n - 1)), path_join output_dir (selected_name n)))
       (filter (\<lambda>n. 1 \<le> n \<and> n \<le> length frames) ns)"

lemma save_copies:
  "save_selected_frames T frames_dir frames ns output_dir =
     io_bind (make_dirs T output_dir) (\<lambda>_.
       for_each (\<lambda>(src, dst). io_bind (copy_file T src dst) (\<lambda>_. ret dst)) (copies frames_dir frames ns output_dir))"
proof -
  let ?body = "\<lambda>n. if 1 \<le> n \<and> n \<le> length frames
         then (let dst = path_join output_dir (selected_name n)
               in io_bind (copy_file T (path_join frames_dir (frames ! (n - 1))) dst) (\<lambda>_. ret [dst]))
         else ret []"
  have "io_bind (for_each ?body ns) (\<lambda>xs. ret (concat xs)) =
      for_each (\<lambda>(src, dst). io_bind (copy_file T src dst) (\<lambda>_. ret dst)) (copies frames_dir frames ns output_dir)"
  proof (induction ns)
    case (Cons n ns)
    have step: "io_bind (for_each ?body (n # ns)) (\<lambda>xs. ret (concat xs)) =
        io_bind (?body n) (\<lambda>y. io_bind (io_bind (for_each ?body ns) (\<lambda>xs. ret (concat xs))) (\<lambda>zs. ret (y @ zs)))"
      by (simp add: io_bind_assoc del: ret_apply)
    show ?case unfolding step Cons.IH
      by (cases "1 \<le> n \<and> n \<le> length frames") (auto simp add: copies_def io_bind_assoc Let_def simp del: ret_apply)
  qed (simp add: copies_def del: ret_apply)
  then show ?thesis by (simp only: save_selected_frames_def)
qed

lemma selected_name_inject: "selected_name m = selected_name n \<longleftrightarrow> m = n"
  by (simp add: selected_name_def)

lemma path_join_inject:
  assumes "hd a \<noteq> L CHR ''/''" "hd b \<noteq> L CHR ''/''"
  shows "path_join dir a = path_join dir b \<longleftrightarrow> a = b"
  using assms by (auto simp: path_join_def)

text \<open>
  C18: saving copies, for each chosen number that is in range and in the order chosen, the frame
  of that number to a name of its own: distinct numbers never share a destination, so no file
  saved is overwritten; numbers out of range are skipped, and at most as many files are saved
  as there are frames.
\<close>

theorem saves_chosen_frames:
  assumes "distinct ns"
  shows "save_selected_frames T frames_dir frames ns output_dir =
      io_bind (make_dirs T output_dir) (\<lambda>_.
        for_each (\<lambda>(src, dst). io_bind (copy_file T src dst) (\<lambda>_. ret dst)) (copies frames_dir frames ns output_dir)) \<and>
    distinct (map snd (copies frames_dir frames ns output_dir)) \<and>
    length (copies frames_dir frames ns output_dir) \<le> length frames \<and>
    map fst (copies frames_dir frames ns output_dir) =
      map (\<lambda>n. path_join frames_dir (frames ! (n - 1))) (filter (\<lambda>n. 1 \<le> n \<and> n \<le> length frames) ns)"
proof (intro conjI)
  let ?in = "filter (\<lambda>n. 1 \<le> n \<and> n \<le> length frames) ns"
  have "inj_on (\<lambda>n. path_join output_dir (selected_name n)) (set ?in)"
  proof (rule inj_onI)
    fix m n assume "path_join output_dir (selected_name m) = path_join output_dir (selected_name n)"
    moreover have "hd (selected_name k) \<noteq> L CHR ''/''" for k by (simp add: selected_name_def)
    ultimately show "m = n" using path_join_inject selected_name_inject by blast
  qed
  moreover have "distinct ?in" using assms by simp
  ultimately show "distinct (map snd (copies frames_dir frames ns output_dir))"
    by (simp add: copies_def comp_def distinct_map)
  have "length ?in = card (set ?in)" using distinct_card[OF \<open>distinct ?in\<close>] by simp
  also have "\<dots> \<le> card {1..length frames}" by (intro card_mono) auto
  finally show "length (copies frames_dir frames ns output_dir) \<le> length frames" by (simp add: copies_def)
qed (rule save_copies, simp add: copies_def comp_def)

theorem saves_chosen_frames_witness:
  "distinct (map snd (copies (lit ''/t'') (map frame_name [1..<Suc 3]) [3, 9, 1] (lit ''out'')))"
  using saves_chosen_frames[of "[3, 9, 1]" "sample_tools 3" "lit ''/t''" "map frame_name [1..<Suc 3]" "lit ''out''"] by simp

end
