(* ===== verification/ConnLimit.thy ===== *)
theory ConnLimit
  imports Complex_Main Effects Regex
begin

text \<open>
  The probe for a provider's connection limit (\<open>k8s/plex/iptv-poc/conn_limit.py\<close>): the channels
  of a playlist, the state of one stream as its thread updates it, and the ramp that opens the
  streams one at a time. What the network does to each thread, the clock and the user's
  interrupts are parameters, in the record \<open>net\<close>.
\<close>

section \<open>The playlist\<close>

definition GROUP :: ustr where
  "GROUP = lit ''USA Premium''"

text \<open>\<open>line.rsplit(",", 1)[-1].strip()\<close>: what follows the last comma.\<close>

definition channel_name :: "ustr \<Rightarrow> ustr" where
  "channel_name l = strip (rev (takeWhile (\<lambda>c. c \<noteq> L CHR '','') (rev l)))"

definition in_group :: "ustr \<Rightarrow> bool" where
  "in_group l \<longleftrightarrow> occurs (lit ''group-title=\"'' @ GROUP @ lit ''\"'') l"

fun channels :: "ustr list \<Rightarrow> (ustr \<times> ustr) list" where
  "channels (l # m # ls) =
     (if in_group l \<and> prefix (lit ''http'') m then (channel_name l, m) # channels (m # ls)
      else channels (m # ls))"
| "channels _ = []"

section \<open>One stream\<close>

text \<open>\<open>error\<close> and \<open>status\<close> start as None; times are those of \<open>time.time()\<close>, in seconds.\<close>

record stream =
  s_name :: ustr
  s_url :: ustr
  s_bytes :: nat
  last_rx :: rat
  status :: "int option"
  error :: "ustr option"
  stop :: bool

definition fresh :: "ustr \<times> ustr \<Rightarrow> stream" where
  "fresh c = \<lparr>s_name = fst c, s_url = snd c, s_bytes = 0, last_rx = 0, status = None, error = None, stop = False\<rparr>"

text \<open>What \<open>urlopen\<close> and \<open>read\<close> answer to the thread, in the order it sees them.\<close>

datatype event =
    Opened int
  | Received nat rat
  | HttpError int
  | Failed ustr

definition URL :: rx where
  "URL = rx_seq [rx_lit (lit ''http''), rx_opt (Ch (\<lambda>c. c = L CHR ''s'')), rx_lit (lit ''://''),
                 rx_many1 (\<lambda>c. \<not> py_space c)]"

text \<open>The text of an exception, as the thread keeps it.\<close>

definition scrub :: "ustr \<Rightarrow> ustr" where
  "scrub t = re_sub URL (lit ''<url>'') t"

text \<open>An error ends the thread.\<close>

fun on_event :: "event \<Rightarrow> stream \<Rightarrow> stream" where
  "on_event ev s =
     (if error s \<noteq> None then s
      else case ev of
        Opened c \<Rightarrow> s\<lparr>status := Some c\<rparr>
      | Received n t \<Rightarrow>
          if n = 0 then s\<lparr>error := Some (lit ''EOF (server closed)'')\<rparr>
          else s\<lparr>s_bytes := s_bytes s + n, last_rx := t\<rparr>
      | HttpError c \<Rightarrow> s\<lparr>status := Some c, error := Some (lit ''HTTP '' @ int_text c)\<rparr>
      | Failed e \<Rightarrow> s\<lparr>error := Some (scrub e)\<rparr>)"

definition WINDOW :: rat where
  "WINDOW = 5"

definition alive :: "rat \<Rightarrow> stream \<Rightarrow> bool" where
  "alive now s \<longleftrightarrow> error s = None \<and> now - last_rx s < WINDOW"

section \<open>The ramp\<close>

text \<open>
  What happens around the program while \<open>n\<close> streams are open: the events each thread sees, the
  clock when a stream is printed and when it is tested, whether the user interrupts the wait;
  and how \<open>:6.1f\<close> writes a number of bytes as megabytes.
\<close>

record net =
  events :: "nat \<Rightarrow> nat \<Rightarrow> event list"
  printed_at :: "nat \<Rightarrow> nat \<Rightarrow> rat"
  tested_at :: "nat \<Rightarrow> nat \<Rightarrow> rat"
  interrupted :: "nat \<Rightarrow> bool"
  megabytes :: "nat \<Rightarrow> ustr"

text \<open>The list of the program and the lines it has printed.\<close>

type_synonym probe_state = "stream list \<times> ustr list"

definition say :: "ustr \<Rightarrow> (probe_state, unit) io" where
  "say l = (\<lambda>(ss, out). (Inr (), ss, out @ [l]))"

definition start :: "ustr \<times> ustr \<Rightarrow> (probe_state, unit) io" where
  "start c = (\<lambda>(ss, out). (Inr (), ss @ [fresh c], out))"

text \<open>\<open>time.sleep(SETTLE)\<close>: meanwhile every thread runs.\<close>

definition settle :: "net \<Rightarrow> nat \<Rightarrow> (probe_state, unit) io" where
  "settle N n = (\<lambda>(ss, out).
     (if interrupted N n then Inl KeyboardInterrupt else Inr (),
      map (\<lambda>(i, s). fold on_event (events N n i) s) (enumerate 0 ss), out))"

definition pad32 :: "ustr \<Rightarrow> ustr" where
  "pad32 t = t @ replicate (32 - length t) (L CHR '' '')"

definition report_line :: "net \<Rightarrow> nat \<Rightarrow> nat \<times> stream \<Rightarrow> ustr" where
  "report_line N n = (\<lambda>(i, s).
     lit ''  '' @ pad32 (s_name s) @ lit '' '' @
     (if alive (printed_at N n i) s then lit ''OK '' else lit ''DEAD'') @
     lit '' status='' @ (case status s of None \<Rightarrow> lit ''None'' | Some c \<Rightarrow> int_text c) @
     lit '' rx='' @ megabytes N (s_bytes s) @ lit ''MB '' @ (case error s of None \<Rightarrow> [] | Some e \<Rightarrow> e))"

definition report :: "net \<Rightarrow> nat \<Rightarrow> (probe_state, unit) io" where
  "report N n = (\<lambda>(ss, out).
     (Inr (), ss, out @ (lit ''--- '' @ nat_text n @ lit '' open'') # map (report_line N n) (enumerate 0 ss)))"

definition all_alive :: "net \<Rightarrow> nat \<Rightarrow> stream list \<Rightarrow> bool" where
  "all_alive N n ss \<longleftrightarrow> list_all (\<lambda>(i, s). alive (tested_at N n i) s) (enumerate 0 ss)"

definition failure_line :: "nat \<Rightarrow> ustr" where
  "failure_line n = lit ''RESULT: failure at '' @ nat_text n @ lit '' concurrent -> limit is likely '' @ nat_text (n - 1)"

definition healthy_line :: "int \<Rightarrow> ustr" where
  "healthy_line m = lit ''RESULT: '' @ int_text m @ lit '' concurrent all healthy (limit >= '' @ int_text m @ lit '')''"

definition closed_line :: ustr where
  "closed_line = lit ''all streams closed''"

text \<open>The loop over \<open>range(1, MAX_STREAMS + 1)\<close>, with its \<open>else\<close>.\<close>

fun ramp :: "net \<Rightarrow> int \<Rightarrow> (ustr \<times> ustr) list \<Rightarrow> nat list \<Rightarrow> (probe_state, unit) io" where
  "ramp N m chs [] = say (healthy_line m)"
| "ramp N m chs (n # ns) =
     io_bind (lift_res (if n - 1 < length chs then Inr (chs ! (n - 1)) else Inl IndexError)) (\<lambda>c.
     io_bind (start c) (\<lambda>_.
     io_bind (settle N n) (\<lambda>_.
     io_bind (report N n) (\<lambda>_ (ss, out).
       if all_alive N n ss then ramp N m chs ns (ss, out) else say (failure_line n) (ss, out)))))"

definition close_all :: "(probe_state, unit) io" where
  "close_all = (\<lambda>(ss, out). (Inr (), map (\<lambda>s. s\<lparr>stop := True\<rparr>) ss, out @ [closed_line]))"

definition probe :: "net \<Rightarrow> int \<Rightarrow> ustr \<Rightarrow> (probe_state, unit) io" where
  "probe N m playlist =
     io_finally (ramp N m (channels (splitlines playlist)) [1..<Suc (nat m)]) close_all"

section \<open>No stream outlives the probe\<close>

text \<open>
  However the probe ends, by a verdict, by an interrupt or because the playlist has too few
  channels, every stream it opened has been told to stop, and the last line says so.
\<close>

theorem probe_stops_streams:
  "case probe N m playlist w of (r, ss, out) \<Rightarrow> (\<forall>s \<in> set ss. stop s) \<and> last out = closed_line"
  by (auto simp: probe_def io_finally_def close_all_def split: prod.splits)

section \<open>The verdict\<close>

text \<open>
  What the program promises, without the loop: stream \<open>i\<close> after \<open>n\<close> are open has seen the events
  of the periods since it was opened.
\<close>

definition stream_at :: "net \<Rightarrow> (ustr \<times> ustr) list \<Rightarrow> nat \<Rightarrow> nat \<Rightarrow> stream" where
  "stream_at N chs n i = fold on_event (concat (map (\<lambda>k. events N k i) [Suc i..<Suc n])) (fresh (chs ! i))"

definition streams_at :: "net \<Rightarrow> (ustr \<times> ustr) list \<Rightarrow> nat \<Rightarrow> stream list" where
  "streams_at N chs n = map (stream_at N chs n) [0..<n]"

definition healthy :: "net \<Rightarrow> (ustr \<times> ustr) list \<Rightarrow> nat \<Rightarrow> bool" where
  "healthy N chs n \<longleftrightarrow> (\<forall>i < n. alive (tested_at N n i) (stream_at N chs n i))"

text \<open>The exit, how many streams were opened, and the last line before the closing one.\<close>

definition verdict :: "net \<Rightarrow> nat \<Rightarrow> (ustr \<times> ustr) list \<Rightarrow> unit res \<times> nat \<times> ustr option" where
  "verdict N m chs =
     (case List.find (\<lambda>n. \<not> healthy N chs n) [1..<Suc (min m (length chs))] of
        Some n \<Rightarrow> (Inr (), n, Some (failure_line n))
      | None \<Rightarrow> if m \<le> length chs then (Inr (), m, Some (healthy_line (int m)))
                else (Inl IndexError, length chs, None))"

lemma all_alive_streams: "all_alive N n (streams_at N chs n) = healthy N chs n"
  by (auto simp: all_alive_def streams_at_def healthy_def list_all_length nth_enumerate_eq)

lemma settle_streams:
  "map (\<lambda>(i, s). fold on_event (events N (Suc n) i) s) (enumerate 0 (streams_at N chs n @ [fresh (chs ! n)])) =
   streams_at N chs (Suc n)"
proof (rule nth_equalityI)
  fix i assume "i < length (map (\<lambda>(i, s). fold on_event (events N (Suc n) i) s)
    (enumerate 0 (streams_at N chs n @ [fresh (chs ! n)])))"
  then have i: "i < Suc n" by (simp add: streams_at_def)
  show "map (\<lambda>(i, s). fold on_event (events N (Suc n) i) s) (enumerate 0 (streams_at N chs n @ [fresh (chs ! n)])) ! i =
      streams_at N chs (Suc n) ! i"
  proof (cases "i = n")
    case True
    then show ?thesis
      by (simp add: streams_at_def nth_enumerate_eq stream_at_def nth_append)
  next
    case False
    with i have "i < n" by simp
    then show ?thesis
      by (simp add: streams_at_def nth_enumerate_eq stream_at_def nth_append)
  qed
qed (simp add: streams_at_def)

lemma ramp_step:
  assumes "n < length chs" "\<not> interrupted N (Suc n)"
  shows "\<exists>ls. ramp N m chs (Suc n # ns) (streams_at N chs n, out) =
    (if healthy N chs (Suc n) then ramp N m chs ns (streams_at N chs (Suc n), out @ ls)
     else say (failure_line (Suc n)) (streams_at N chs (Suc n), out @ ls))"
  using assms
  by (auto simp: io_bind_def start_def settle_def report_def settle_streams all_alive_streams)

lemma ramp_verdict:
  assumes "\<forall>n \<le> m. \<not> interrupted N n"
    and "n \<le> m" "n \<le> length chs"
  shows "\<exists>ls. ramp N (int m) chs [Suc n..<Suc m] (streams_at N chs n, out) =
    (case List.find (\<lambda>n. \<not> healthy N chs n) [Suc n..<Suc (min m (length chs))] of
       Some k \<Rightarrow> (Inr (), streams_at N chs k, out @ ls @ [failure_line k])
     | None \<Rightarrow> if m \<le> length chs then (Inr (), streams_at N chs m, out @ ls @ [healthy_line (int m)])
               else (Inl IndexError, streams_at N chs (length chs), out @ ls))"
  using assms(2,3)
proof (induction "m - n" arbitrary: n out)
  case 0
  then have "n = m" by simp
  with 0 show ?case by (auto simp: say_def intro: exI[of _ "[]"])
next
  case (Suc d)
  then have up: "[Suc n..<Suc m] = Suc n # [Suc (Suc n)..<Suc m]" and "d = m - Suc n" "Suc n \<le> m"
    by (simp_all add: upt_conv_Cons del: upt_Suc)
  show ?case
  proof (cases "n < length chs")
    case True
    then have up': "[Suc n..<Suc (min m (length chs))] = Suc n # [Suc (Suc n)..<Suc (min m (length chs))]"
      using \<open>Suc n \<le> m\<close> by (simp add: upt_conv_Cons del: upt_Suc)
    obtain ls where ls: "ramp N (int m) chs (Suc n # [Suc (Suc n)..<Suc m]) (streams_at N chs n, out) =
      (if healthy N chs (Suc n) then ramp N (int m) chs [Suc (Suc n)..<Suc m] (streams_at N chs (Suc n), out @ ls)
       else say (failure_line (Suc n)) (streams_at N chs (Suc n), out @ ls))"
      using ramp_step[OF True] assms(1) \<open>Suc n \<le> m\<close> by blast
    show ?thesis
    proof (cases "healthy N chs (Suc n)")
      case False
      then show ?thesis
        unfolding up up' ls by (auto simp: say_def simp del: upt_Suc ramp.simps)
    next
      case h: True
      from Suc.hyps(1)[OF \<open>d = m - Suc n\<close> \<open>Suc n \<le> m\<close>, of "out @ ls"] True obtain ls' where
        ih: "ramp N (int m) chs [Suc (Suc n)..<Suc m] (streams_at N chs (Suc n), out @ ls) =
        (case List.find (\<lambda>n. \<not> healthy N chs n) [Suc (Suc n)..<Suc (min m (length chs))] of
           Some k \<Rightarrow> (Inr (), streams_at N chs k, (out @ ls) @ ls' @ [failure_line k])
         | None \<Rightarrow> if m \<le> length chs then (Inr (), streams_at N chs m, (out @ ls) @ ls' @ [healthy_line (int m)])
                   else (Inl IndexError, streams_at N chs (length chs), (out @ ls) @ ls'))"
        by auto
      show ?thesis
        unfolding up up' ls using h ih
        by (intro exI[of _ "ls @ ls'"]) (simp del: upt_Suc ramp.simps split: option.splits)
    qed
  next
    case False
    with Suc.prems have "n = length chs" by simp
    with \<open>Suc n \<le> m\<close> show ?thesis
      unfolding up by (intro exI[of _ "[]"]) (simp add: io_bind_def min_def del: upt_Suc)
  qed
qed

text \<open>
  C24: unless it is interrupted, the probe implements its verdict: it opens the streams up to the
  first number at which some open stream is dead, and says that this number fails and one less
  is the likely limit; if there is none it says that all are healthy, and with fewer channels
  than asked for it ends in an IndexError without a verdict.
\<close>

theorem probe_refines_verdict:
  assumes "\<forall>n \<le> nat m. \<not> interrupted N n" "0 \<le> m"
  shows "\<exists>ls. probe N m playlist ([], []) =
    (case verdict N (nat m) (channels (splitlines playlist)) of (r, k, line) \<Rightarrow>
       (r, map (\<lambda>s. s\<lparr>stop := True\<rparr>) (streams_at N (channels (splitlines playlist)) k),
        ls @ (case line of None \<Rightarrow> [] | Some l \<Rightarrow> [l]) @ [closed_line]))"
proof -
  let ?chs = "channels (splitlines playlist)"
  have "streams_at N ?chs 0 = []" by (simp add: streams_at_def)
  then have "\<exists>ls. ramp N m ?chs [1..<Suc (nat m)] ([], []) =
     (case List.find (\<lambda>n. \<not> healthy N ?chs n) [1..<Suc (min (nat m) (length ?chs))] of
       Some k \<Rightarrow> (Inr (), streams_at N ?chs k, ls @ [failure_line k])
     | None \<Rightarrow> if nat m \<le> length ?chs then (Inr (), streams_at N ?chs (nat m), ls @ [healthy_line m])
               else (Inl IndexError, streams_at N ?chs (length ?chs), ls))"
    using ramp_verdict[OF assms(1), of 0 ?chs "[]"] assms(2)
    by (simp only: append_Nil One_nat_def int_nat_eq if_True zero_le simp_thms)
  then obtain ls where "ramp N m ?chs [1..<Suc (nat m)] ([], []) =
     (case List.find (\<lambda>n. \<not> healthy N ?chs n) [1..<Suc (min (nat m) (length ?chs))] of
       Some k \<Rightarrow> (Inr (), streams_at N ?chs k, ls @ [failure_line k])
     | None \<Rightarrow> if nat m \<le> length ?chs then (Inr (), streams_at N ?chs (nat m), ls @ [healthy_line m])
               else (Inl IndexError, streams_at N ?chs (length ?chs), ls))" ..
  then show ?thesis
    using assms(2)
    by (intro exI[of _ ls])
      (auto simp: probe_def io_finally_def close_all_def verdict_def simp del: upt_Suc split: option.splits)
qed

section \<open>No address is printed\<close>

text \<open>An address at the head of a text, and one anywhere in it.\<close>

definition schemes :: "ustr list" where
  "schemes = [lit ''http://'', lit ''https://'']"

definition url_at :: "ustr \<Rightarrow> bool" where
  "url_at s \<longleftrightarrow> (\<exists>p \<in> set schemes. \<exists>c w. s = p @ c # w \<and> \<not> py_space c)"

fun has_url :: "ustr \<Rightarrow> bool" where
  "has_url [] = False"
| "has_url (c # s) = (url_at (c # s) \<or> has_url s)"

lemma has_url_iff: "has_url s \<longleftrightarrow> (\<exists>u v. s = u @ v \<and> url_at v)"
proof (induction s)
  case Nil
  show ?case by (auto simp: url_at_def)
next
  case (Cons c s)
  show ?case
  proof
    assume "has_url (c # s)"
    then consider "url_at (c # s)" | u v where "s = u @ v" "url_at v" using Cons.IH by auto
    then show "\<exists>u v. c # s = u @ v \<and> url_at v"
      by cases (metis append_Nil append_Cons)+
  next
    assume "\<exists>u v. c # s = u @ v \<and> url_at v"
    then obtain u v where uv: "c # s = u @ v" "url_at v" by blast
    then show "has_url (c # s)"
      using Cons.IH by (cases u) auto
  qed
qed

abbreviation dark :: "uchar \<Rightarrow> bool" where
  "dark c \<equiv> \<not> py_space c"

lemma mt_URL:
  assumes "p \<in> set schemes" "dark c"
  shows "\<exists>ms. mt URL (i, p @ c # w, g) =
    (i + length p + 1 + length (takeWhile dark w), dropWhile dark w, g) # ms"
proof -
  obtain ms where "runs dark (i + length p + 1) (takeWhile dark w @ dropWhile dark w) g =
      (i + length p + 1 + length (takeWhile dark w), dropWhile dark w, g) # ms"
    using runs_append[of "takeWhile dark w" dark "dropWhile dark w" "i + length p + 1" g]
    by (metis set_takeWhileD hd_dropWhile)
  then show ?thesis
    using assms by (auto simp: schemes_def URL_def rx_opt_def rx_many1_def eval_nat_numeral)
qed

lemma mt_URL_none:
  assumes "\<not> url_at s"
  shows "mt URL (i, s, g) = []"
proof -
  have False if "st \<in> set (mt URL (i, s, g))" for st
    using that assms
    by (auto simp: URL_def rx_opt_def rx_many1_def mt_lit prefix_def url_at_def schemes_def split: list.splits if_splits)
  then show ?thesis by (cases "mt URL (i, s, g)") (auto simp del: mt.simps)
qed

text \<open>What \<open>re.sub\<close> makes of the text from a position on.\<close>

definition sub_from :: "nat \<Rightarrow> ustr \<Rightarrow> ustr" where
  "sub_from i s = splice (lit ''<url>'') i s (rx_iter URL False i s)"

lemma scrub_eq: "scrub s = sub_from 0 s"
  by (simp add: scrub_def re_sub_def sub_from_def finditer_def)

lemma sub_from_Nil [simp]: "sub_from i [] = []"
proof -
  have "\<not> url_at []" by (simp add: url_at_def)
  from mt_URL_none[OF this] show ?thesis by (simp add: sub_from_def rx_iter.simps)
qed

lemma sub_from_skip:
  assumes "\<not> url_at (c # s)"
  shows "sub_from i (c # s) = c # sub_from (Suc i) s"
proof -
  have r: "rx_search URL False i (c # s) = rx_search URL False (Suc i) s"
    using mt_URL_none[OF assms] by simp
  show ?thesis
  proof (cases "rx_search URL False (Suc i) s")
    case None
    then show ?thesis by (simp add: sub_from_def rx_iter.simps[of URL False] r del: rx_search.simps)
  next
    case (Some q)
    obtain b e t g where q: "q = (b, e, t, g)" by (cases q)
    from rx_search_reads[OF Some[unfolded q]] have "Suc i \<le> b" "b \<le> e" by auto
    then show ?thesis
      by (simp add: sub_from_def rx_iter.simps[of URL False i] rx_iter.simps[of URL False "Suc i"] r Some q
          take_Cons' drop_Cons' del: rx_search.simps)
  qed
qed

lemma sub_from_url:
  assumes "url_at s"
  shows "\<exists>j t. sub_from i s = lit ''<url>'' @ sub_from j t \<and> length t < length s"
proof -
  from assms obtain p c w where s: "s = p @ c # w" and p: "p \<in> set schemes" "dark c"
    by (auto simp: url_at_def)
  from mt_URL[OF p] obtain ms where ms: "mt URL (i, s, []) =
      (i + length p + 1 + length (takeWhile dark w), dropWhile dark w, []) # ms" unfolding s by blast
  have "s \<noteq> []" using s by simp
  then obtain d s' where d: "s = d # s'" by (cases s) auto
  have r: "rx_search URL False i s = Some (i, i + length p + 1 + length (takeWhile dark w), dropWhile dark w, [])"
    using ms by (simp add: d)
  have dr: "drop (length p + 1 + length (takeWhile dark w)) s = dropWhile dark w"
    by (simp add: s dropWhile_eq_drop)
  have "sub_from i s = lit ''<url>'' @ sub_from (i + length p + 1 + length (takeWhile dark w)) (dropWhile dark w)"
    using dr by (simp add: sub_from_def rx_iter.simps[of URL False i] r add.assoc)
  moreover have "length (dropWhile dark w) < length s"
    using length_dropWhile_le[of dark w] by (simp add: s)
  ultimately show ?thesis by blast
qed

lemma url_at_h: "url_at s \<Longrightarrow> \<exists>w. s = L CHR ''h'' # w"
  by (auto simp: url_at_def schemes_def)

lemma url_at_cut:
  assumes "url_at (u @ L CHR ''<'' # w)" "dark c"
  shows "url_at (u @ c # v)"
proof -
  from assms obtain p d z where p: "p \<in> set schemes"
    and e: "u @ L CHR ''<'' # w = p @ d # z" "dark d" by (auto simp: url_at_def)
  have "L CHR ''<'' \<notin> set p" using p by (auto simp: schemes_def)
  have "length p \<le> length u"
  proof (rule ccontr)
    assume l: "\<not> length p \<le> length u"
    have "p ! length u = (p @ d # z) ! length u" using l by (simp add: nth_append)
    also have "\<dots> = L CHR ''<''" by (simp flip: e(1))
    finally have "L CHR ''<'' \<in> set p" using l nth_mem[of "length u" p] by simp
    with \<open>L CHR ''<'' \<notin> set p\<close> show False ..
  qed
  with e obtain u' where u': "u = p @ u'" "u' @ L CHR ''<'' # w = d # z"
    by (auto simp: append_eq_append_conv2)
  show ?thesis
  proof (cases u')
    case Nil
    with u' p assms(2) show ?thesis unfolding url_at_def by auto
  next
    case (Cons a u'')
    with u' e have "u @ c # v = p @ a # (u'' @ c # v)" "dark a" by auto
    with p show ?thesis unfolding url_at_def by blast
  qed
qed

lemma sub_from_prefix: "url_at (u @ sub_from i s) \<Longrightarrow> url_at (u @ s)"
proof (induction "length s" arbitrary: u i s rule: less_induct)
  case less
  show ?case
  proof (cases "url_at s")
    case True
    with url_at_h obtain w where "s = L CHR ''h'' # w" by blast
    moreover from sub_from_url[OF True] obtain v where "sub_from i s = L CHR ''<'' # v" by fastforce
    ultimately show ?thesis
      using url_at_cut[of u v "L CHR ''h''" w] less.prems by (simp add: latin_space_def)
  next
    case False
    show ?thesis
    proof (cases s)
      case (Cons c s')
      with less.prems False have "url_at ((u @ [c]) @ sub_from (Suc i) s')" by (simp add: sub_from_skip)
      from less.hyps[OF _ this] Cons show ?thesis by simp
    qed (use less.prems in simp)
  qed
qed

lemma has_url_mark: "has_url (lit ''<url>'' @ s) = has_url s"
proof -
  have "\<not> url_at (c # w)" if "c \<noteq> L CHR ''h''" for c w using url_at_h[of "c # w"] that by auto
  then show ?thesis by simp
qed

lemma sub_from_no_url: "\<not> has_url (sub_from i s)"
proof (induction "length s" arbitrary: i s rule: less_induct)
  case less
  show ?case
  proof (cases "url_at s")
    case True
    then obtain j u where "sub_from i s = lit ''<url>'' @ sub_from j u" "length u < length s"
      using sub_from_url by blast
    with less.hyps show ?thesis by (simp only: has_url_mark simp_thms)
  next
    case False
    then show ?thesis
      using less.hyps sub_from_prefix[of "[hd s]" "Suc i" "tl s"] by (cases s) (auto simp: sub_from_skip)
  qed
qed

lemma sub_from_id: "\<not> has_url s \<Longrightarrow> sub_from i s = s"
  by (induction s arbitrary: i) (auto simp: sub_from_skip)

text \<open>
  C37: the text of an exception is printed with no address in it, whatever it was; but only what
  follows a scheme is taken out: a text without \<open>http://\<close> or \<open>https://\<close>, such as one that quotes
  the path of the request, is kept as it is.
\<close>

theorem scrub_addresses: "\<not> has_url (scrub t) \<and> (scrub t = t \<longleftrightarrow> \<not> has_url t)"
  using sub_from_no_url[of 0 t] sub_from_id[of t 0] by (auto simp: scrub_eq)

section \<open>Examples\<close>

text \<open>Two streams that receive, and a third that makes the provider refuse and the first stall.\<close>

definition sample_net :: net where
  "sample_net =
     \<lparr>events = (\<lambda>n i. if n = 3 then (if i = 2 then [HttpError 403] else []) else [Opened 200, Received 65536 (of_nat (15 * n))]),
      printed_at = (\<lambda>n i. of_nat (15 * n)), tested_at = (\<lambda>n i. of_nat (15 * n) + 1), interrupted = (\<lambda>_. False),
      megabytes = nat_text\<rparr>"

definition sample_entry :: "ustr \<Rightarrow> ustr \<Rightarrow> ustr" where
  "sample_entry g c =
     lit ''#EXTINF:-1 group-title=\"'' @ g @ lit ''\", '' @ c @ [newline] @ lit ''http://host/'' @ c @ [newline]"

definition sample_playlist :: ustr where
  "sample_playlist = sample_entry GROUP (lit ''a'') @ sample_entry (lit ''News'') (lit ''b'') @
     sample_entry GROUP (lit ''c'') @ sample_entry GROUP (lit ''d'')"

lemma sample_channels:
  "channels (splitlines sample_playlist) = map (\<lambda>c. (lit c, lit (''http://host/'' @ c))) [''a'', ''c'', ''d'']"
  by code_simp

lemma sample_verdict:
  "verdict sample_net 3 (channels (splitlines sample_playlist)) = (Inr (), 3, Some (failure_line 3))"
  unfolding sample_channels by code_simp

theorem probe_refines_verdict_witness:
  "\<exists>ls ss. probe sample_net 3 sample_playlist ([], []) =
     (Inr (), ss, ls @ [lit ''RESULT: failure at 3 concurrent -> limit is likely 2'', closed_line])"
proof -
  have l: "failure_line 3 = lit ''RESULT: failure at 3 concurrent -> limit is likely 2''" by code_simp
  have "\<forall>n \<le> nat 3. \<not> interrupted sample_net n" by (simp add: sample_net_def)
  from probe_refines_verdict[OF this, of sample_playlist]
  show ?thesis by (auto simp: sample_verdict l simp del: append_assoc)
qed

end
