(* ===== verification/BenchApi.thy ===== *)
theory BenchApi
  imports Complex_Main Effects Json
begin

text \<open>
  How the benchmark (\<open>servers/ai-runner/poc/benchmark.py\<close>) talks to the inference server: requests,
  the chat and completion calls with their time limits, the streamed first token and the metrics
  page. The network, the clock and the interpreter's number conversions are parameters.
\<close>

section \<open>The outside\<close>

text \<open>
  \<open>http\<close> takes the method, the path, the body and the socket timeout, and answers with the status
  and the body (\<open>None\<close> when it is not UTF-8); a connection that fails is an exception. \<open>stream\<close>
  gives the lines of a streamed reply with the time each arrives, and the time it ends. The last
  three are the globals of the module that \<open>main\<close> sets.
\<close>

record 'w net =
  http :: "ustr \<Rightarrow> ustr \<Rightarrow> ustr option \<Rightarrow> nat \<Rightarrow> ('w, int \<times> ustr option) io"
  stream :: "ustr \<Rightarrow> ('w, rat \<times> (rat \<times> ustr option) list \<times> rat) io"
  shell :: "ustr list \<Rightarrow> ('w, int \<times> ustr \<times> ustr) io"
  clock :: "'w \<Rightarrow> rat"
  sleep :: "rat \<Rightarrow> 'w \<Rightarrow> 'w"
  interp :: pyenv
  float_of :: "ustr \<Rightarrow> ustr option"
  int_of :: "ustr \<Rightarrow> int option"
  model_id :: pyval
  thinking_budget :: int
  ssh_host :: ustr

definition LLM_TIMEOUT :: nat where
  "LLM_TIMEOUT = 90"

definition PER_PROBLEM_TIMEOUT :: nat where
  "PER_PROBLEM_TIMEOUT = 180"

definition pystr :: "string \<Rightarrow> pyval" where
  "pystr s = PStr (lit s)"

definition pydict :: "(string \<times> pyval) list \<Rightarrow> pyval" where
  "pydict d = PDict (map (\<lambda>(k, v). (pystr k, v)) d)"

definition decode_json :: "'w net \<Rightarrow> ustr option \<Rightarrow> pyval res" where
  "decode_json E body =
     (case body of None \<Rightarrow> Inl ValueError
      | Some t \<Rightarrow> (case json_loads (interp E) t of Some v \<Rightarrow> Inr v | None \<Rightarrow> Inl ValueError))"

definition post :: "'w net \<Rightarrow> string \<Rightarrow> pyval \<Rightarrow> nat \<Rightarrow> ('w, pyval) io" where
  "post E path payload timeout =
     io_bind (lift_res (case dumps False payload of Some t \<Rightarrow> Inr t | None \<Rightarrow> Inl TypeError)) (\<lambda>data.
     io_bind (http E (lit ''POST'') (lit ''/v1/'' @ lit path) (Some data) timeout) (\<lambda>(status, body).
       lift_res (if status \<noteq> 200 then Inl RuntimeError else decode_json E body)))"

definition get_json :: "'w net \<Rightarrow> string \<Rightarrow> nat \<Rightarrow> ('w, pyval) io" where
  "get_json E path timeout =
     io_bind (http E (lit ''GET'') (lit ''/v1/'' @ lit path) None timeout) (\<lambda>(status, body).
       lift_res (if status \<noteq> 200 then Inr (PDict [])
         else case decode_json E body of
           Inr v \<Rightarrow> Inr v
         | Inl _ \<Rightarrow> (case body of Some t \<Rightarrow> Inr (PStr t) | None \<Rightarrow> Inl ValueError)))"

text \<open>\<open>except Exception\<close>: the interrupt and the exit pass through.\<close>

fun is_exception :: "exc \<Rightarrow> bool" where
  "is_exception KeyboardInterrupt = False"
| "is_exception (SystemExit _) = False"
| "is_exception _ = True"

definition except_exception :: "('w, 'a) io \<Rightarrow> (exc \<Rightarrow> ('w, 'a) io) \<Rightarrow> ('w, 'a) io" where
  "except_exception m h = io_catch m (\<lambda>e. if is_exception e then h e else lift_res (Inl e))"

section \<open>Calls with a time limit\<close>

text \<open>
  \<open>with ThreadPoolExecutor() as ex: ex.submit(m).result(timeout=limit)\<close>, a timeout raised again as
  TimeoutError: leaving the block waits for the thread, so the world is the one after \<open>m\<close>.
\<close>

definition within_limit :: "'w net \<Rightarrow> nat \<Rightarrow> ('w, 'a) io \<Rightarrow> ('w, 'a) io" where
  "within_limit E limit m w =
     (case m w of (r, w') \<Rightarrow>
        if of_nat limit < clock E w' - clock E w then (Inl TimeoutError, w') else (r, w'))"

definition chat_payload :: "'w net \<Rightarrow> pyval \<Rightarrow> int \<Rightarrow> pyval \<Rightarrow> pyval" where
  "chat_payload E messages max_tokens temperature =
     pydict [(''model'', model_id E), (''messages'', messages),
             (''max_tokens'', PInt (max_tokens + thinking_budget E)), (''temperature'', temperature)]"

definition chat_request :: "'w net \<Rightarrow> pyval \<Rightarrow> int \<Rightarrow> pyval \<Rightarrow> ('w, pyval) io" where
  "chat_request E messages max_tokens temperature =
     post E ''chat/completions'' (chat_payload E messages max_tokens temperature) LLM_TIMEOUT"

definition message_content :: "pyval \<Rightarrow> pyval res" where
  "message_content result =
     bind_res (py_item result ''choices'') (\<lambda>cs. bind_res (py_first cs) (\<lambda>c.
     bind_res (py_item c ''message'') (\<lambda>m. bind_res (py_item m ''content'') (\<lambda>t. Inr (py_or t (PStr []))))))"

definition chat_with_usage :: "'w net \<Rightarrow> pyval \<Rightarrow> int \<Rightarrow> pyval \<Rightarrow> nat \<Rightarrow> ('w, pyval \<times> pyval) io" where
  "chat_with_usage E messages max_tokens temperature timeout =
     within_limit E timeout
       (io_bind (chat_request E messages max_tokens temperature) (\<lambda>result.
          lift_res (bind_res (message_content result) (\<lambda>content.
            bind_res (py_get result ''usage'' (PDict [])) (\<lambda>usage. Inr (content, usage))))))"

definition chat :: "'w net \<Rightarrow> pyval \<Rightarrow> int \<Rightarrow> pyval \<Rightarrow> nat \<Rightarrow> ('w, pyval) io" where
  "chat E messages max_tokens temperature timeout =
     within_limit E timeout
       (io_bind (chat_request E messages max_tokens temperature)
         (\<lambda>result. lift_res (message_content result)))"

text \<open>The completions endpoint: no thinking budget is added.\<close>

definition complete :: "'w net \<Rightarrow> ustr \<Rightarrow> int \<Rightarrow> pyval \<Rightarrow> nat \<Rightarrow> ('w, pyval) io" where
  "complete E prompt max_tokens temperature timeout =
     within_limit E timeout
       (io_bind (post E ''completions''
          (pydict [(''model'', model_id E), (''prompt'', PStr prompt), (''max_tokens'', PInt max_tokens),
                   (''temperature'', temperature)]) LLM_TIMEOUT)
         (\<lambda>result. lift_res (bind_res (py_item result ''choices'') (\<lambda>cs. bind_res (py_first cs) (\<lambda>c. py_item c ''text'')))))"

section \<open>The first token and the metrics\<close>

definition delta_content :: "'w net \<Rightarrow> ustr \<Rightarrow> pyval res" where
  "delta_content E body =
     bind_res (decode_json E (Some body)) (\<lambda>chunk. bind_res (py_item chunk ''choices'') (\<lambda>cs.
     bind_res (py_first cs) (\<lambda>c. bind_res (py_get c ''delta'' (PDict [])) (\<lambda>d. py_get d ''content'' (PStr [])))))"

text \<open>The loop over the lines: the time of the first line that settles the answer.\<close>

fun first_token :: "'w net \<Rightarrow> (rat \<times> ustr option) list \<Rightarrow> rat \<Rightarrow> rat res" where
  "first_token E [] ended = Inr ended"
| "first_token E ((t, raw_line) # ls) ended =
     (case raw_line of
        None \<Rightarrow> Inl ValueError
      | Some raw \<Rightarrow>
          (let line = strip raw; body = strip (drop 5 line)
           in if \<not> prefix (lit ''data:'') line then first_token E ls ended
              else if body = lit ''[DONE]'' then Inr t
              else case delta_content E body of
                  Inr content \<Rightarrow> if truthy content then Inr t else first_token E ls ended
                | Inl _ \<Rightarrow> first_token E ls ended))"

definition measure_ttft :: "'w net \<Rightarrow> ustr \<Rightarrow> int \<Rightarrow> ('w, rat) io" where
  "measure_ttft E prompt max_tokens =
     io_bind (lift_res (case dumps False
         (pydict [(''model'', model_id E),
                  (''messages'', PList [pydict [(''role'', pystr ''user''), (''content'', PStr prompt)]]),
                  (''max_tokens'', PInt max_tokens), (''stream'', PBool True), (''temperature'', PFloat (lit ''0.0''))])
         of Some t \<Rightarrow> Inr t | None \<Rightarrow> Inl TypeError)) (\<lambda>payload.
     io_bind (stream E payload) (\<lambda>(t0, ls, ended).
       lift_res (bind_res (first_token E ls ended) (\<lambda>t. Inr (t - t0)))))"

definition metric_keys :: "string list" where
  "metric_keys = [''vllm:avg_generation_throughput_toks_per_s'', ''vllm:gpu_cache_usage_perc'', ''vllm:num_requests_running'']"

text \<open>\<open>line.split()[-1]\<close>.\<close>

definition last_word :: "ustr \<Rightarrow> ustr" where
  "last_word l = rev (takeWhile (\<lambda>c. \<not> py_space c) (rev (rstrip l)))"

definition metric_line :: "'w net \<Rightarrow> ustr \<Rightarrow> (pyval \<times> pyval) list \<Rightarrow> (pyval \<times> pyval) list" where
  "metric_line E l out =
     (if prefix (lit ''#'') l then out
      else fold (\<lambda>key out.
          if prefix (lit key @ lit '' '') l \<or> prefix (lit key @ lit ''{'') l
          then (case float_of E (last_word l) of Some r \<Rightarrow> dict_set out (pystr key) (PFloat r) | None \<Rightarrow> out)
          else out) metric_keys out)"

definition get_vllm_metrics :: "'w net \<Rightarrow> ('w, pyval) io" where
  "get_vllm_metrics E =
     io_bind (http E (lit ''GET'') (lit ''/metrics'') None 5) (\<lambda>(_, body).
       lift_res (case body of
           None \<Rightarrow> Inl ValueError
         | Some t \<Rightarrow> Inr (PDict (fold (metric_line E) (splitlines t) []))))"

section \<open>GPU statistics\<close>

definition nvidia_smi_cmd :: "ustr list" where
  "nvidia_smi_cmd =
     [lit ''nvidia-smi'',
      lit ''--query-gpu=index,name,memory.used,memory.free,memory.total,temperature.gpu'',
      lit ''--format=csv,noheader,nounits'']"

text \<open>\<open>_remote\<close>: over SSH when a host is set; with \<open>check\<close> a failure is an exception.\<close>

definition full_command :: "'w net \<Rightarrow> bool \<Rightarrow> ustr list \<Rightarrow> ustr list" where
  "full_command E sudo cmd =
     (let c = if sudo then lit ''sudo'' # cmd else cmd
      in if ssh_host E \<noteq> [] then [lit ''ssh'', ssh_host E] @ c else c)"

definition remote :: "'w net \<Rightarrow> ustr list \<Rightarrow> bool \<Rightarrow> bool \<Rightarrow> ('w, int \<times> ustr \<times> ustr) io" where
  "remote E cmd check sudo =
     io_bind (shell E (full_command E sudo cmd)) (\<lambda>(rc, out, err).
       lift_res (if check \<and> rc \<noteq> 0 then Inl CalledProcessError else Inr (rc, out, err)))"

record gpu =
  g_index :: int
  g_name :: ustr
  vram_used_mb :: int
  vram_free_mb :: int
  vram_total_mb :: int
  temp_c :: int

definition py_int :: "'w net \<Rightarrow> ustr \<Rightarrow> int res" where
  "py_int E t = (case int_of E t of Some i \<Rightarrow> Inr i | None \<Rightarrow> Inl ValueError)"

definition gpu_line :: "'w net \<Rightarrow> ustr \<Rightarrow> gpu res" where
  "gpu_line E line =
     (case map strip (split_on (L CHR '','') line) of
        [idx, name, used, free, tot, temp] \<Rightarrow>
          bind_res (py_int E idx) (\<lambda>i. bind_res (py_int E used) (\<lambda>u. bind_res (py_int E free) (\<lambda>f.
          bind_res (py_int E tot) (\<lambda>t. bind_res (py_int E temp) (\<lambda>c.
            Inr \<lparr>g_index = i, g_name = name, vram_used_mb = u, vram_free_mb = f, vram_total_mb = t, temp_c = c\<rparr>)))))
      | _ \<Rightarrow> Inl ValueError)"

datatype gpu_stats =
    Smi "ustr" "gpu list" int
  | MetricsFallback pyval
  | Unavailable exc

definition smi_stats :: "'w net \<Rightarrow> ('w, gpu_stats) io" where
  "smi_stats E =
     io_bind (remote E nvidia_smi_cmd (ssh_host E = []) False) (\<lambda>(rc, out, err).
       lift_res (if rc \<noteq> 0 then Inl RuntimeError
         else bind_res (map_res (gpu_line E) (splitlines (strip out))) (\<lambda>gpus.
           Inr (Smi (if ssh_host E \<noteq> [] then lit ''nvidia-smi-ssh:'' @ ssh_host E else lit ''nvidia-smi'')
                  gpus (sum_list (map vram_used_mb gpus))))))"

definition get_gpu_stats :: "'w net \<Rightarrow> ('w, gpu_stats) io" where
  "get_gpu_stats E =
     except_exception (smi_stats E) (\<lambda>_.
       except_exception
         (io_bind (get_vllm_metrics E) (\<lambda>metrics.
            lift_res (bind_res (py_get metrics ''vllm:gpu_cache_usage_perc'' PNone) (\<lambda>v. Inr (MetricsFallback v)))))
         (\<lambda>e. ret (Unavailable e)))"

section \<open>The limit on a call\<close>

lemma within_limit_snd: "snd (within_limit E limit m w) = snd (m w)"
  by (simp add: within_limit_def split: prod.splits)

lemma io_bind_lift_snd: "snd (io_bind m (\<lambda>x. lift_res (f x)) w) = snd (m w)"
  by (auto simp: io_bind_def split: prod.splits sum.splits)

text \<open>
  The time limit of a chat call does not bound it: the call ends only when the request has
  ended, however long that takes, and then a reply that took longer than the limit is thrown
  away and reported as a timeout; one that did not is what the reply says.
\<close>

theorem chat_waits_for_reply:
  "snd (chat E messages max_tokens temperature timeout w) = snd (chat_request E messages max_tokens temperature w) \<and>
   fst (chat E messages max_tokens temperature timeout w) =
     (if of_nat timeout < clock E (snd (chat_request E messages max_tokens temperature w)) - clock E w
      then Inl TimeoutError
      else bind_res (fst (chat_request E messages max_tokens temperature w)) message_content)"
  unfolding chat_def
  by (auto simp: within_limit_snd io_bind_lift_snd within_limit_def io_bind_def split: prod.splits sum.splits)

end
