(* ===== verification/BenchServe.thy ===== *)
theory BenchServe
  imports VideoFrames BenchApi
begin

text \<open>
  The inference server the benchmark (\<open>servers/ai-runner/poc/benchmark.py\<close>) runs against: the
  model configurations, the commands that start and stop it, and the wait until it answers.
  Lines written to the log are left out.
\<close>

section \<open>Model configurations\<close>

text \<open>A key that is absent from a configuration, or None in it, is \<open>None\<close>.\<close>

record fim_tokens =
  fim_prefix :: ustr
  fim_suffix :: ustr
  fim_middle :: ustr

record model_config =
  hf_id :: ustr
  quantization :: "ustr option"
  max_model_len :: "nat option"
  reasoning_parser :: "ustr option"
  is_reasoning :: bool
  fim_tokens :: "fim_tokens option"
  chat_template :: "ustr option"
  image :: "ustr option"

definition mistral_template :: ustr where
  "mistral_template =
     lit ''{{ bos_token }}'' @
     lit ''{% for message in messages %}'' @
     lit ''{% if message['' @ [L CHR 0x27] @ lit ''role'' @ [L CHR 0x27] @ lit ''] == '' @ [L CHR 0x27] @ lit ''user'' @ [L CHR 0x27] @ lit '' %}'' @
     lit ''{{ '' @ [L CHR 0x27] @ lit ''[INST] '' @ [L CHR 0x27] @ lit '' + message['' @ [L CHR 0x27] @ lit ''content'' @ [L CHR 0x27] @ lit ''] + '' @ [L CHR 0x27] @ lit '' [/INST]'' @ [L CHR 0x27] @ lit '' }}'' @
     lit ''{% elif message['' @ [L CHR 0x27] @ lit ''role'' @ [L CHR 0x27] @ lit ''] == '' @ [L CHR 0x27] @ lit ''assistant'' @ [L CHR 0x27] @ lit '' %}'' @
     lit ''{{ message['' @ [L CHR 0x27] @ lit ''content'' @ [L CHR 0x27] @ lit ''] + eos_token + '' @ [L CHR 0x27] @ lit '' '' @ [L CHR 0x27] @ lit '' }}'' @
     lit ''{% endif %}'' @
     lit ''{% endfor %}''"

definition cfg_phi_4 :: model_config where
  "cfg_phi_4 =
     \<lparr>hf_id = lit ''microsoft/phi-4'',
      quantization = None, max_model_len = None, reasoning_parser = None,
      is_reasoning = False,
      fim_tokens = None,
      chat_template = None, image = None\<rparr>"

definition cfg_qwen2_5_coder_7b :: model_config where
  "cfg_qwen2_5_coder_7b =
     \<lparr>hf_id = lit ''Qwen/Qwen2.5-Coder-7B-Instruct'',
      quantization = None, max_model_len = None, reasoning_parser = None,
      is_reasoning = False,
      fim_tokens = Some \<lparr>fim_prefix = lit ''<|fim_prefix|>'', fim_suffix = lit ''<|fim_suffix|>'',
        fim_middle = lit ''<|fim_middle|>''\<rparr>,
      chat_template = None, image = None\<rparr>"

definition cfg_deepseek_coder_v2_lite :: model_config where
  "cfg_deepseek_coder_v2_lite =
     \<lparr>hf_id = lit ''deepseek-ai/DeepSeek-Coder-V2-Lite-Instruct'',
      quantization = None, max_model_len = None, reasoning_parser = None,
      is_reasoning = False,
      fim_tokens = Some \<lparr>fim_prefix = lit ''<'' @ [uchr 65372] @ lit ''fim'' @ [uchr 9601] @ lit ''begin'' @ [uchr 65372] @ lit ''>'', 
        fim_suffix = lit ''<'' @ [uchr 65372] @ lit ''fim'' @ [uchr 9601] @ lit ''hole'' @ [uchr 65372] @ lit ''>'',
        fim_middle = lit ''<'' @ [uchr 65372] @ lit ''fim'' @ [uchr 9601] @ lit ''end'' @ [uchr 65372] @ lit ''>''\<rparr>,
      chat_template = None, image = None\<rparr>"

definition cfg_codestral_22b :: model_config where
  "cfg_codestral_22b =
     \<lparr>hf_id = lit ''solidrust/Codestral-22B-v0.1-hf-AWQ'',
      quantization = Some (lit ''awq_marlin''), max_model_len = None, reasoning_parser = None,
      is_reasoning = False,
      fim_tokens = Some \<lparr>fim_prefix = lit ''[PREFIX]'', fim_suffix = lit ''[SUFFIX]'',
        fim_middle = lit ''[MIDDLE]''\<rparr>,
      chat_template = Some mistral_template, image = None\<rparr>"

definition cfg_gemma4_26b :: model_config where
  "cfg_gemma4_26b =
     \<lparr>hf_id = lit ''cyankiwi/gemma-4-26B-A4B-it-AWQ-8bit'',
      quantization = None, max_model_len = Some 32768, reasoning_parser = None,
      is_reasoning = False,
      fim_tokens = None,
      chat_template = None, image = Some (lit ''docker.io/vllm/vllm-openai:gemma4'')\<rparr>"

definition cfg_qwen3_30b :: model_config where
  "cfg_qwen3_30b =
     \<lparr>hf_id = lit ''QuixiAI/Qwen3-30B-A3B-AWQ'',
      quantization = Some (lit ''awq_marlin''), max_model_len = Some 32768, reasoning_parser = Some (lit ''qwen3''),
      is_reasoning = True,
      fim_tokens = None,
      chat_template = None, image = None\<rparr>"

definition cfg_qwen2_5_coder_32b :: model_config where
  "cfg_qwen2_5_coder_32b =
     \<lparr>hf_id = lit ''Qwen/Qwen2.5-Coder-32B-Instruct-AWQ'',
      quantization = Some (lit ''awq_marlin''), max_model_len = Some 32768, reasoning_parser = None,
      is_reasoning = False,
      fim_tokens = Some \<lparr>fim_prefix = lit ''<|fim_prefix|>'', fim_suffix = lit ''<|fim_suffix|>'',
        fim_middle = lit ''<|fim_middle|>''\<rparr>,
      chat_template = None, image = None\<rparr>"

definition cfg_deepseek_r1_qwen_32b :: model_config where
  "cfg_deepseek_r1_qwen_32b =
     \<lparr>hf_id = lit ''casperhansen/deepseek-r1-distill-qwen-32b-awq'',
      quantization = Some (lit ''awq_marlin''), max_model_len = Some 32768, reasoning_parser = Some (lit ''deepseek_r1''),
      is_reasoning = True,
      fim_tokens = None,
      chat_template = None, image = None\<rparr>"

definition cfg_gemma4_31b :: model_config where
  "cfg_gemma4_31b =
     \<lparr>hf_id = lit ''QuantTrio/gemma-4-31B-it-AWQ'',
      quantization = Some (lit ''awq_marlin''), max_model_len = Some 32768, reasoning_parser = None,
      is_reasoning = False,
      fim_tokens = None,
      chat_template = None, image = Some (lit ''docker.io/vllm/vllm-openai:gemma4'')\<rparr>"

definition cfg_qwq_32b :: model_config where
  "cfg_qwq_32b =
     \<lparr>hf_id = lit ''Qwen/QwQ-32B-AWQ'',
      quantization = Some (lit ''awq_marlin''), max_model_len = Some 32768, reasoning_parser = Some (lit ''qwen3''),
      is_reasoning = True,
      fim_tokens = None,
      chat_template = None, image = None\<rparr>"

definition cfg_qwen3_coder_80b :: model_config where
  "cfg_qwen3_coder_80b =
     \<lparr>hf_id = lit ''bullpoint/Qwen3-Coder-Next-AWQ-4bit'',
      quantization = Some (lit ''awq_marlin''), max_model_len = Some 16384, reasoning_parser = Some (lit ''qwen3''),
      is_reasoning = True,
      fim_tokens = None,
      chat_template = None, image = None\<rparr>"

definition cfg_llama3_3_70b :: model_config where
  "cfg_llama3_3_70b =
     \<lparr>hf_id = lit ''casperhansen/llama-3.3-70b-instruct-awq'',
      quantization = Some (lit ''awq_marlin''), max_model_len = Some 8192, reasoning_parser = None,
      is_reasoning = False,
      fim_tokens = None,
      chat_template = None, image = None\<rparr>"

definition cfg_deepseek_r1_llama_70b :: model_config where
  "cfg_deepseek_r1_llama_70b =
     \<lparr>hf_id = lit ''casperhansen/deepseek-r1-distill-llama-70b-awq'',
      quantization = Some (lit ''awq_marlin''), max_model_len = Some 16384, reasoning_parser = Some (lit ''deepseek_r1''),
      is_reasoning = True,
      fim_tokens = None,
      chat_template = None, image = None\<rparr>"

definition MODEL_CONFIGS :: "(string \<times> model_config) list" where
  "MODEL_CONFIGS =
     [(''phi-4'', cfg_phi_4),
      (''qwen2.5-coder-7b'', cfg_qwen2_5_coder_7b),
      (''deepseek-coder-v2-lite'', cfg_deepseek_coder_v2_lite),
      (''codestral-22b'', cfg_codestral_22b),
      (''gemma4-26b'', cfg_gemma4_26b),
      (''qwen3-30b'', cfg_qwen3_30b),
      (''qwen2.5-coder-32b'', cfg_qwen2_5_coder_32b),
      (''deepseek-r1-qwen-32b'', cfg_deepseek_r1_qwen_32b),
      (''gemma4-31b'', cfg_gemma4_31b),
      (''qwq-32b'', cfg_qwq_32b),
      (''qwen3-coder-80b'', cfg_qwen3_coder_80b),
      (''llama3.3-70b'', cfg_llama3_3_70b),
      (''deepseek-r1-llama-70b'', cfg_deepseek_r1_llama_70b)]"

section \<open>Starting and stopping\<close>

definition VLLM_IMAGE :: ustr where
  "VLLM_IMAGE = lit ''docker.io/vllm/vllm-openai:latest''"

definition CONTAINER :: ustr where
  "CONTAINER = lit ''vllm-bench''"

definition MODEL_CACHE :: ustr where
  "MODEL_CACHE = lit ''/var/lib/vllm/models''"

definition PROD_SERVICES :: "ustr list" where
  "PROD_SERVICES = [lit ''vllm-1'', lit ''litellm'']"

definition sudo :: "'w net \<Rightarrow> ustr list \<Rightarrow> ('w, int \<times> ustr \<times> ustr) io" where
  "sudo E cmd = remote E cmd False True"

definition podman_stop :: "ustr \<Rightarrow> ustr list" where
  "podman_stop c = [lit ''podman'', lit ''stop'', c]"

definition podman_rm :: "ustr \<Rightarrow> ustr list" where
  "podman_rm c = [lit ''podman'', lit ''rm'', c]"

definition stop_container :: "'w net \<Rightarrow> ustr \<Rightarrow> ('w, unit) io" where
  "stop_container E c = io_bind (sudo E (podman_stop c)) (\<lambda>_. io_bind (sudo E (podman_rm c)) (\<lambda>_. ret ()))"

definition stop_prod_services :: "'w net \<Rightarrow> ('w, unit) io" where
  "stop_prod_services E =
     io_bind (for_each (\<lambda>svc. sudo E [lit ''systemctl'', lit ''stop'', svc]) PROD_SERVICES) (\<lambda>_. ret ())"

definition restart_prod_services :: "'w net \<Rightarrow> ('w, unit) io" where
  "restart_prod_services E =
     io_bind (for_each (\<lambda>svc. sudo E [lit ''systemctl'', lit ''start'', svc]) (rev PROD_SERVICES)) (\<lambda>_. ret ())"

definition kill_vllm :: "ustr list" where
  "kill_vllm =
     [lit ''bash'', lit ''-c'',
      lit ''podman ps -q --filter '' @ [L CHR 0x27] @ lit ''name=vllm'' @ [L CHR 0x27] @ lit '' | xargs -r podman stop; '' @
      lit ''podman ps -aq --filter '' @ [L CHR 0x27] @ lit ''name=vllm'' @ [L CHR 0x27] @ lit '' | xargs -r podman rm'']"

definition image_exists :: "ustr \<Rightarrow> ustr list" where
  "image_exists i = [lit ''podman'', lit ''image'', lit ''exists'', i]"

definition image_pull :: "ustr \<Rightarrow> ustr list" where
  "image_pull i = [lit ''podman'', lit ''pull'', i]"

text \<open>\<open>cfg.get("image", VLLM_IMAGE)\<close>, and the port of the address, 8001 when it has none or zero.\<close>

definition image_of :: "model_config \<Rightarrow> ustr" where
  "image_of cfg = (case image cfg of Some i \<Rightarrow> i | None \<Rightarrow> VLLM_IMAGE)"

definition port_of :: "nat option \<Rightarrow> nat" where
  "port_of p = (case p of Some (Suc n) \<Rightarrow> Suc n | _ \<Rightarrow> 8001)"

definition option_args :: "string \<Rightarrow> ustr option \<Rightarrow> ustr list" where
  "option_args flag v = (case v of Some x \<Rightarrow> if x \<noteq> [] then [lit flag, x] else [] | None \<Rightarrow> [])"

definition container_tpl :: ustr where
  "container_tpl = lit ''/root/.cache/huggingface/chat_template.jinja''"

definition podman_args :: "ustr list" where
  "podman_args =
     [lit ''podman'', lit ''run'', lit ''--name'', CONTAINER, lit ''--device'', lit ''nvidia.com/gpu=all'',
      lit ''--ipc=host'', lit ''--ulimit'', lit ''memlock=-1'', lit ''--network=host'',
      lit ''-v'', MODEL_CACHE @ lit '':/root/.cache/huggingface:z'', lit ''--env-file'', lit ''/etc/vllm/env'', lit ''-d'']"

definition vllm_args :: "nat \<Rightarrow> model_config \<Rightarrow> ustr list" where
  "vllm_args port cfg =
     [lit ''--model'', hf_id cfg, lit ''--tensor-parallel-size'', lit ''2'',
      lit ''--gpu-memory-utilization'', lit ''0.95'', lit ''--max-num-seqs'', lit ''32'', lit ''--enable-prefix-caching'',
      lit ''--host'', lit ''0.0.0.0'', lit ''--port'', nat_text port] @
     option_args ''--quantization'' (quantization cfg) @
     (case max_model_len cfg of Some n \<Rightarrow> if n \<noteq> 0 then [lit ''--max-model-len'', nat_text n] else [] | None \<Rightarrow> []) @
     option_args ''--reasoning-parser'' (reasoning_parser cfg) @
     (case chat_template cfg of Some t \<Rightarrow> if t \<noteq> [] then [lit ''--chat-template'', container_tpl] else [] | None \<Rightarrow> [])"

definition run_command :: "nat \<Rightarrow> model_config \<Rightarrow> ustr list" where
  "run_command port cfg = podman_args @ [image_of cfg] @ vllm_args port cfg"

text \<open>\<open>str.encode()\<close>.\<close>

fun utf8_char :: "nat \<Rightarrow> nat list" where
  "utf8_char n =
     (if n < 128 then [n]
      else if n < 2048 then [192 + n div 64, 128 + n mod 64]
      else if n < 65536 then [224 + n div 4096, 128 + n div 64 mod 64, 128 + n mod 64]
      else [240 + n div 262144, 128 + n div 4096 mod 64, 128 + n div 64 mod 64, 128 + n mod 64])"

definition utf8 :: "ustr \<Rightarrow> nat list" where
  "utf8 s = concat (map (\<lambda>c. utf8_char (ucode c)) s)"

definition write_template :: "ustr \<Rightarrow> ustr list" where
  "write_template t =
     [lit ''bash'', lit ''-c'',
      lit ''echo '' @ b64encode (utf8 t) @ lit '' | base64 -d > '' @ MODEL_CACHE @ lit ''/chat_template.jinja'']"

definition pull_image :: "'w net \<Rightarrow> ustr \<Rightarrow> ('w, unit) io" where
  "pull_image E i =
     io_bind (sudo E (image_exists i)) (\<lambda>(rc, _, _).
       if rc \<noteq> 0 then io_bind (sudo E (image_pull i)) (\<lambda>(rc, _, _). lift_res (if rc \<noteq> 0 then Inl RuntimeError else Inr ()))
       else ret ())"

definition send_template :: "'w net \<Rightarrow> model_config \<Rightarrow> ('w, unit) io" where
  "send_template E cfg =
     (case chat_template cfg of
        Some t \<Rightarrow> if t \<noteq> [] then io_bind (sudo E (write_template t)) (\<lambda>_. ret ()) else ret ()
      | None \<Rightarrow> ret ())"

definition start_vllm :: "'w net \<Rightarrow> nat option \<Rightarrow> model_config \<Rightarrow> ('w, unit) io" where
  "start_vllm E url_port cfg =
     io_bind (sudo E kill_vllm) (\<lambda>_.
     io_bind (stop_container E CONTAINER) (\<lambda>_.
     io_bind (pull_image E (image_of cfg)) (\<lambda>_.
     io_bind (send_template E cfg) (\<lambda>_.
     io_bind (remote E (run_command (port_of url_port) cfg) True True) (\<lambda>_. ret ())))))"

section \<open>Waiting for the model\<close>

text \<open>\<open>round(q, k)\<close>, exact halves to the even neighbour.\<close>

definition py_round :: "nat \<Rightarrow> rat \<Rightarrow> rat" where
  "py_round k q =
     (let y = q * 10 ^ k; n = \<lfloor>y\<rfloor>; f = y - of_int n
      in of_int (if f < 1 / 2 then n else if 1 / 2 < f then n + 1 else if even n then n else n + 1) / 10 ^ k)"

definition container_logs :: "'w net \<Rightarrow> nat option \<Rightarrow> ('w, ustr) io" where
  "container_logs E tail =
     io_bind (sudo E ([lit ''podman'', lit ''logs''] @
         (case tail of Some n \<Rightarrow> [lit ''--tail'', nat_text n] | None \<Rightarrow> []) @ [CONTAINER]))
       (\<lambda>(rc, out, err). ret (strip (out @ err)))"

definition container_status :: "'w net \<Rightarrow> ('w, ustr) io" where
  "container_status E =
     io_bind (sudo E [lit ''podman'', lit ''inspect'', lit ''--format'', lit ''{{.State.Status}}'', CONTAINER])
       (\<lambda>(rc, out, err). ret (if rc = 0 then strip out else lit ''unknown''))"

text \<open>The model the endpoint reports; every exception counts as not ready.\<close>

definition ready_model :: "'w net \<Rightarrow> ('w, pyval option) io" where
  "ready_model E =
     except_exception
       (io_bind (get_json E ''models'' 5) (\<lambda>result.
          lift_res (case result of
            PDict d \<Rightarrow>
              (let served = dict_get d (lit ''data'') PNone
               in if truthy served
                  then bind_res (py_first served) (\<lambda>m. bind_res (py_item m ''id'') (\<lambda>i. Inr (Some i)))
                  else Inr None)
          | _ \<Rightarrow> Inr None)))
       (\<lambda>_. ret None)"

text \<open>One turn of the loop before its sleep: ready, crashed, or None.\<close>

definition poll :: "'w net \<Rightarrow> rat \<Rightarrow> ('w, (pyval \<times> rat) option) io" where
  "poll E t_start =
     io_bind (ready_model E) (\<lambda>m. case m of
         Some i \<Rightarrow> (\<lambda>w. (Inr (Some (i, py_round 1 (clock E w - t_start))), w))
       | None \<Rightarrow>
           io_bind (container_status E) (\<lambda>status.
             if status \<notin> {lit ''running'', lit ''unknown''}
             then io_bind (container_logs E None) (\<lambda>_. lift_res (Inl TimeoutError))
             else ret None))"

partial_function (option) wait_loop :: "'w net \<Rightarrow> rat \<Rightarrow> rat \<Rightarrow> 'w \<Rightarrow> ((pyval \<times> rat) res \<times> 'w) option" where
  "wait_loop E t_start deadline w =
     (if clock E w < deadline
      then (case poll E t_start w of
          (Inl e, w') \<Rightarrow> Some (Inl e, w')
        | (Inr (Some r), w') \<Rightarrow> Some (Inr r, w')
        | (Inr None, w') \<Rightarrow> wait_loop E t_start deadline (sleep E 5 w'))
      else Some (io_bind (container_logs E (Some 200)) (\<lambda>_. lift_res (Inl TimeoutError)) w))"

definition wait_for_ready :: "'w net \<Rightarrow> nat \<Rightarrow> 'w \<Rightarrow> ((pyval \<times> rat) res \<times> 'w) option" where
  "wait_for_ready E timeout w = wait_loop E (clock E w) (clock E w + of_nat timeout) w"

section \<open>The wait ends\<close>

text \<open>Time does not go back, and a sleep takes at least the time it is asked for.\<close>

definition ticking :: "'w net \<Rightarrow> bool" where
  "ticking E \<longleftrightarrow>
     (\<forall>m p b t w. clock E w \<le> clock E (snd (http E m p b t w))) \<and>
     (\<forall>cmd w. clock E w \<le> clock E (snd (shell E cmd w))) \<and>
     (\<forall>d w. clock E w + d \<le> clock E (sleep E d w))"

lemma keeps_except [keeps_rules]:
  "keeps P m \<Longrightarrow> (\<And>e. keeps P (h e)) \<Longrightarrow> keeps P (except_exception m h)"
  unfolding except_exception_def by (intro keeps_rules)

lemma keeps_read: "keeps P (\<lambda>w. (f w, w))"
  by (simp add: keeps_def)

lemma shell_keeps:
  assumes "ticking E"
  shows "keeps (\<lambda>w. c \<le> clock E w) (shell E cmd)" "keeps (\<lambda>w. c \<le> clock E w) (http E m p b t)"
  using assms unfolding ticking_def keeps_def by (meson order_trans)+

lemma remote_keeps: "ticking E \<Longrightarrow> keeps (\<lambda>w. c \<le> clock E w) (remote E cmd check su)"
  unfolding remote_def by (intro keeps_bind shell_keeps) (auto split: prod.splits)

lemma poll_keeps:
  assumes "ticking E"
  shows "keeps (\<lambda>w. c \<le> clock E w) (poll E t_start)"
proof -
  have l: "keeps (\<lambda>w. c \<le> clock E w) (container_logs E n)" "keeps (\<lambda>w. c \<le> clock E w) (container_status E)" for n
    unfolding container_logs_def container_status_def sudo_def
    by (intro keeps_bind remote_keeps assms; auto split: prod.splits simp del: ret_apply)+
  have "keeps (\<lambda>w. c \<le> clock E w) (ready_model E)"
    unfolding ready_model_def get_json_def
    by (intro keeps_except keeps_bind shell_keeps assms) (auto split: prod.splits simp del: ret_apply)
  then show ?thesis
    unfolding poll_def
    by (intro keeps_bind) (auto intro!: keeps_bind keeps_read keeps_rules l split: option.splits simp del: ret_apply)
qed

lemma poll_ready:
  assumes "poll E t_start w = (Inr (Some (i, el)), w')"
  shows "ready_model E w = (Inr (Some i), w') \<and> el = py_round 1 (clock E w' - t_start)"
  using assms by (auto simp: poll_def io_bind_def split: prod.splits sum.splits option.splits if_splits)

text \<open>The turns of the loop: \<open>v\<close> is the state in which the turn after \<open>n\<close> sleeps begins.\<close>

inductive polled :: "'w net \<Rightarrow> rat \<Rightarrow> rat \<Rightarrow> 'w \<Rightarrow> nat \<Rightarrow> 'w \<Rightarrow> bool" for E t_start deadline where
  here: "polled E t_start deadline w 0 w"
| next_turn: "clock E w < deadline \<Longrightarrow> poll E t_start w = (Inr None, w') \<Longrightarrow>
    polled E t_start deadline (sleep E 5 w') n v \<Longrightarrow> polled E t_start deadline w (Suc n) v"

text \<open>What the last turn, which begins in \<open>v\<close>, makes of the wait.\<close>

definition last_turn :: "'w net \<Rightarrow> rat \<Rightarrow> rat \<Rightarrow> 'w \<Rightarrow> (pyval \<times> rat) res \<times> 'w \<Rightarrow> bool" where
  "last_turn E t_start deadline v = (\<lambda>(r, w').
     if clock E v < deadline
     then (case r of
         Inr (i, el) \<Rightarrow> ready_model E v = (Inr (Some i), w') \<and> el = py_round 1 (clock E w' - t_start)
       | Inl e \<Rightarrow> poll E t_start v = (Inl e, w'))
     else (r, w') = io_bind (container_logs E (Some 200)) (\<lambda>_. lift_res (Inl TimeoutError)) v)"

lemma turn_time:
  assumes "ticking E" "poll E t_start w = (r, w')"
  shows "clock E w + 5 \<le> clock E (sleep E 5 w')"
proof -
  have "clock E w \<le> clock E w'"
    using keepsD[OF poll_keeps[OF assms(1), of "clock E w"] order_refl assms(2)] .
  moreover have "clock E w' + 5 \<le> clock E (sleep E 5 w')" using assms(1) unfolding ticking_def by blast
  ultimately show ?thesis by linarith
qed

lemma polled_time:
  assumes "polled E t_start deadline w n v" "ticking E"
  shows "clock E w + 5 * of_nat n \<le> clock E v \<and> (n = 0 \<or> 5 * of_nat n < deadline - clock E w + 5)"
  using assms(1)
proof (induction rule: polled.induct)
  case (next_turn w w' n v)
  from turn_time[OF assms(2) next_turn.hyps(2)] next_turn.IH next_turn.hyps(1) show ?case
    by (cases n) (auto simp: algebra_simps)
qed simp

lemma wait_loop_ends:
  assumes "ticking E"
  shows "\<exists>r w' n v. wait_loop E t_start deadline w = Some (r, w') \<and> polled E t_start deadline w n v \<and>
    last_turn E t_start deadline v (r, w')"
proof (induction "nat \<lceil>(deadline - clock E w) / 5\<rceil>" arbitrary: w rule: less_induct)
  case less
  show ?case
  proof (cases "clock E w < deadline")
    case False
    obtain r :: "(pyval \<times> rat) res" and w' where
      "io_bind (container_logs E (Some 200)) (\<lambda>_. lift_res (Inl TimeoutError)) w = (r, w')"
      by fastforce
    with False have "wait_loop E t_start deadline w = Some (r, w')" "last_turn E t_start deadline w (r, w')"
      by (simp_all add: wait_loop.simps[of E t_start deadline w] last_turn_def)
    then show ?thesis using polled.here[of E t_start deadline w] by blast
  next
    case True
    obtain r w' where p: "poll E t_start w = (r, w')" by fastforce
    consider e where "r = Inl e" | i el where "r = Inr (Some (i, el))" | "r = Inr None"
      by (metis option.exhaust surj_pair sum.exhaust)
    then show ?thesis
    proof cases
      case (1 e)
      with True p have "wait_loop E t_start deadline w = Some (Inl e, w')" "last_turn E t_start deadline w (Inl e, w')"
        by (simp_all add: wait_loop.simps[of E t_start deadline w] last_turn_def)
      then show ?thesis using polled.here[of E t_start deadline w] by blast
    next
      case (2 i el)
      with True p poll_ready[of E t_start w i el w'] have "wait_loop E t_start deadline w = Some (Inr (i, el), w')"
        "last_turn E t_start deadline w (Inr (i, el), w')"
        by (simp_all add: wait_loop.simps[of E t_start deadline w] last_turn_def)
      then show ?thesis using polled.here[of E t_start deadline w] by blast
    next
      case 3
      let ?w = "sleep E 5 w'"
      have "(deadline - clock E ?w) / 5 \<le> (deadline - clock E w) / 5 - 1"
        using turn_time[OF assms p] by (simp add: field_simps)
      then have "\<lceil>(deadline - clock E ?w) / 5\<rceil> \<le> \<lceil>(deadline - clock E w) / 5\<rceil> - 1"
        by (metis ceiling_mono ceiling_diff_one)
      moreover have "0 < \<lceil>(deadline - clock E w) / 5\<rceil>" using True by simp
      ultimately have "nat \<lceil>(deadline - clock E ?w) / 5\<rceil> < nat \<lceil>(deadline - clock E w) / 5\<rceil>" by linarith
      from less[OF this] obtain r' v' n v where ih: "wait_loop E t_start deadline ?w = Some (r', v')"
        "polled E t_start deadline ?w n v" "last_turn E t_start deadline v (r', v')" by blast
      from True p 3 ih(1) have "wait_loop E t_start deadline w = Some (r', v')"
        by (simp add: wait_loop.simps[of E t_start deadline w])
      moreover have "polled E t_start deadline w (Suc n) v"
        using polled.next_turn[OF True _ ih(2)] p 3 by simp
      ultimately show ?thesis using ih(3) by blast
    qed
  qed
qed

text \<open>
  C22: the wait always returns: after fewer turns than one for every five seconds of the timeout
  and one more, it gives the model that the endpoint reported in its last turn, with the time
  that took, or the exception of that turn, or, the deadline passed, the timeout.
\<close>

theorem wait_for_ready_returns:
  assumes "ticking E"
  shows "\<exists>r w' n v. wait_for_ready E timeout w = Some (r, w') \<and> 5 * n < timeout + 5 \<and>
    polled E (clock E w) (clock E w + of_nat timeout) w n v \<and>
    last_turn E (clock E w) (clock E w + of_nat timeout) v (r, w')"
proof -
  obtain r w' n v where e: "wait_loop E (clock E w) (clock E w + of_nat timeout) w = Some (r, w')"
    and p: "polled E (clock E w) (clock E w + of_nat timeout) w n v"
    and l: "last_turn E (clock E w) (clock E w + of_nat timeout) v (r, w')"
    using wait_loop_ends[OF assms] by blast
  have "n = 0 \<or> of_nat (5 * n) < (of_nat (timeout + 5) :: rat)"
    using polled_time[OF p assms] by simp
  then have "5 * n < timeout + 5" by (auto simp only: of_nat_less_iff)
  with e p l show ?thesis unfolding wait_for_ready_def by blast
qed

section \<open>The commands of a start\<close>

text \<open>A log of the commands run: every one is appended to it.\<close>

definition recorded :: "('w \<Rightarrow> ustr list list) \<Rightarrow> 'w net \<Rightarrow> bool" where
  "recorded lg E \<longleftrightarrow> (\<forall>cmd w. lg (snd (shell E cmd w)) = lg w @ [cmd])"

lemma remote_recorded:
  assumes "recorded lg E" "remote E cmd check su w = (r, w')"
  shows "lg w' = lg w @ [full_command E su cmd]"
proof -
  have "snd (remote E cmd check su w) = snd (shell E (full_command E su cmd) w)"
    by (auto simp: remote_def io_bind_def split: prod.splits sum.splits)
  with assms show ?thesis unfolding recorded_def by (metis snd_conv)
qed

lemmas sudo_recorded = remote_recorded[where check = False and su = True, folded sudo_def]

lemma io_bind_done: "io_bind m f w = (Inr y, w') \<longleftrightarrow> (\<exists>x v. m w = (Inr x, v) \<and> f x v = (Inr y, w'))"
  by (rule io_bind_eq_Inr)

text \<open>The value a command line gives to an option.\<close>

fun option_value :: "ustr \<Rightarrow> ustr list \<Rightarrow> ustr option" where
  "option_value flag (a # b # as) = (if a = flag then Some b else option_value flag (b # as))"
| "option_value flag _ = None"

definition template_commands :: "model_config \<Rightarrow> ustr list list" where
  "template_commands cfg =
     (case chat_template cfg of Some t \<Rightarrow> if t \<noteq> [] then [write_template t] else [] | None \<Rightarrow> [])"


text \<open>Text that does not look like an option.\<close>

definition no_dash :: "ustr \<Rightarrow> bool" where
  "no_dash x \<longleftrightarrow> x = [] \<or> hd x \<noteq> L CHR ''-''"

definition option_text :: "ustr option \<Rightarrow> ustr option" where
  "option_text v = (case v of Some x \<Rightarrow> if x \<noteq> [] then Some x else None | None \<Rightarrow> None)"

lemma no_dash_flag [simp]: "no_dash x \<Longrightarrow> x \<noteq> L CHR ''-'' # s"
  by (auto simp: no_dash_def)

lemma no_dash_nat [simp]: "no_dash (nat_text n)"
proof -
  have "ascii_digit (hd (nat_text n))" using nat_text_digits[of "hd (nat_text n)" n] by simp
  then show ?thesis by (auto simp: no_dash_def ascii_digit_def)
qed

definition plain_config :: "model_config \<Rightarrow> bool" where
  "plain_config cfg \<longleftrightarrow> no_dash (hf_id cfg) \<and>
     (case quantization cfg of Some q \<Rightarrow> no_dash q | None \<Rightarrow> True) \<and>
     (case reasoning_parser cfg of Some q \<Rightarrow> no_dash q | None \<Rightarrow> True)"

text \<open>
  C34: the server is told what the configuration says: reading its arguments back gives the
  model, the port, and the quantization, length cap and reasoning parser where they are set.
\<close>

theorem vllm_args_read_back:
  assumes "plain_config cfg"
  shows "option_value (lit ''--model'') (vllm_args port cfg) = Some (hf_id cfg) \<and>
    option_value (lit ''--port'') (vllm_args port cfg) = Some (nat_text port) \<and>
    option_value (lit ''--quantization'') (vllm_args port cfg) = option_text (quantization cfg) \<and>
    option_value (lit ''--reasoning-parser'') (vllm_args port cfg) = option_text (reasoning_parser cfg) \<and>
    option_value (lit ''--max-model-len'') (vllm_args port cfg) =
      (case max_model_len cfg of Some n \<Rightarrow> if n = 0 then None else Some (nat_text n) | None \<Rightarrow> None)"
proof -
  have "no_dash (hf_id cfg)" "\<And>q. quantization cfg = Some q \<Longrightarrow> no_dash q" "\<And>q. reasoning_parser cfg = Some q \<Longrightarrow> no_dash q"
    using assms by (auto simp: plain_config_def)
  then show ?thesis
    by (cases "quantization cfg"; cases "max_model_len cfg"; cases "reasoning_parser cfg"; cases "chat_template cfg")
      (simp_all add: vllm_args_def option_args_def option_text_def container_tpl_def)
qed

lemma model_configs_plain: "list_all (\<lambda>(_, cfg). plain_config cfg) MODEL_CONFIGS"
  by code_simp

section \<open>Examples\<close>

text \<open>A server that takes twelve seconds to answer; its world is the time.\<close>

definition slow_server :: "rat net" where
  "slow_server =
     \<lparr>http = (\<lambda>m p b t w. (if w < 12 then Inl OSError else Inr (200, Some (lit ''{ }'')), w + 1)),
      stream = (\<lambda>_ w. (Inl OSError, w)), shell = (\<lambda>_ w. (Inr (0, lit ''running'', []), w)), clock = (\<lambda>w. w),
      sleep = (\<lambda>d w. w + d), interp = plain_env, float_of = (\<lambda>_. None), int_of = (\<lambda>_. None), model_id = PNone,
      thinking_budget = 0, ssh_host = []\<rparr>"

theorem wait_for_ready_returns_witness:
  "\<exists>r w' n v. wait_for_ready slow_server 60 0 = Some (r, w') \<and> 5 * n < 60 + 5 \<and>
     polled slow_server 0 60 0 n v \<and> last_turn slow_server 0 60 v (r, w')"
proof -
  have "ticking slow_server" by (simp add: ticking_def slow_server_def)
  from wait_for_ready_returns[OF this, of 60 0] show ?thesis by (simp add: slow_server_def)
qed

text \<open>A host that records the commands; all succeed.\<close>

definition recording_host :: "ustr list list net" where
  "recording_host =
     \<lparr>http = (\<lambda>m p b t w. (Inl OSError, w)), stream = (\<lambda>_ w. (Inl OSError, w)),
      shell = (\<lambda>cmd w. (Inr (0, [], []), w @ [cmd])), clock = (\<lambda>w. 0), sleep = (\<lambda>d w. w), interp = plain_env,
      float_of = (\<lambda>_. None), int_of = (\<lambda>_. None), model_id = PNone, thinking_budget = 0, ssh_host = lit ''host''\<rparr>"

lemma recording_host_records: "recorded (\<lambda>w. w) recording_host"
  by (simp add: recorded_def recording_host_def)


theorem vllm_args_read_back_witness:
  "option_value (lit ''--max-model-len'') (vllm_args 8001 cfg_qwen3_30b) = Some (lit ''32768'')"
proof -
  have p: "plain_config cfg_qwen3_30b" by code_simp
  have n: "nat_text 32768 = lit ''32768''" by code_simp
  have "max_model_len cfg_qwen3_30b = Some 32768" by (simp add: cfg_qwen3_30b_def)
  then show ?thesis using vllm_args_read_back[OF p, of 8001] n by simp
qed

end
