(* ===== verification/BenchContext.thy ===== *)
theory BenchContext
  imports BenchServe
begin

text \<open>
  The context stress test of the benchmark (\<open>servers/ai-runner/poc/benchmark.py\<close>): which lengths
  are tried, the padded prompt of each, and how a reply is judged.
\<close>

section \<open>Judging a reply\<close>

text \<open>
  \<open>str.isprintable\<close> of a character; above U+00FF the character database decides. The source
  compares the printable share with 0.8 as floats; replies that get there have at most 500
  characters, for which this is the comparison of the exact quotients.
\<close>

fun printable :: "(nat \<Rightarrow> bool) \<Rightarrow> uchar \<Rightarrow> bool" where
  "printable pr (L c) =
     (let n = (of_char c :: nat) in 32 \<le> n \<and> n \<le> 126 \<or> 161 \<le> n \<and> n \<noteq> 173)"
| "printable pr (U n) = pr (n + 256)"

text \<open>What the character database and \<open>repr\<close> give.\<close>

record chars =
  db :: unidb
  is_printable :: "nat \<Rightarrow> bool"
  text_repr :: "ustr \<Rightarrow> ustr"

definition check_coherence :: "chars \<Rightarrow> ustr \<Rightarrow> bool \<times> ustr" where
  "check_coherence C reply =
     (if strip reply = [] then (False, lit ''empty_response'')
      else if \<not> occurs (lit ''ready'') (lower (db C) reply)
      then (False, lit ''wrong_content: '' @ text_repr C (take 80 reply))
      else if 500 < length reply then (False, lit ''excessive_length: '' @ nat_text (length reply) @ lit '' chars'')
      else if 10 * length (filter (printable (is_printable C)) reply) < 8 * length reply
      then (False, lit ''garbage_characters'')
      else (True, lit ''ok''))"

section \<open>The lengths\<close>

definition base_levels :: "nat list" where
  "base_levels = [4096, 8192, 16384, 32768]"

text \<open>\<open>api_max_model_len or config_max_model_len\<close>.\<close>

definition ceiling_of :: "nat option \<Rightarrow> nat option \<Rightarrow> nat option" where
  "ceiling_of reported configured = (case reported of Some (Suc n) \<Rightarrow> Some (Suc n) | _ \<Rightarrow> configured)"

definition context_levels :: "nat option \<Rightarrow> nat list" where
  "context_levels cap =
     (let levels = filter (\<lambda>l. case cap of None \<Rightarrow> True | Some c \<Rightarrow> l \<le> c) base_levels
      in case cap of
           Some c \<Rightarrow> if c \<noteq> 0 \<and> c \<notin> set levels \<and> c < 65536 then insort c levels else levels
         | None \<Rightarrow> levels)"

definition filler :: ustr where
  "filler = concat (replicate 200 (lit ''The quick brown fox jumps over the lazy dog. ''))"

definition chars_needed :: "nat \<Rightarrow> nat" where
  "chars_needed ctx = nat (max 0 ((int ctx - 100) * 4))"

definition padding :: "nat \<Rightarrow> ustr" where
  "padding ctx =
     take (chars_needed ctx) (concat (replicate (chars_needed ctx div length filler + 2) filler))"

definition instruction :: ustr where
  "instruction = lit ''Ignore the following text and reply with only the single word READY.'' @ [newline, newline]"

definition context_prompt :: "nat \<Rightarrow> ustr" where
  "context_prompt ctx = instruction @ padding ctx"

section \<open>The test\<close>

definition CONTEXT_TEST_TIMEOUT :: nat where
  "CONTEXT_TEST_TIMEOUT = 240"

definition context_reply_limit :: int where
  "context_reply_limit = 20"

definition user_message :: "ustr \<Rightarrow> pyval" where
  "user_message t = PList [pydict [(''role'', pystr ''user''), (''content'', PStr t)]]"

datatype level_result =
    Judged bool ustr rat ustr
  | TimedOut nat
  | Failed exc rat

text \<open>What a call returns where the code goes on with a string.\<close>

definition as_text :: "pyval \<Rightarrow> ustr res" where
  "as_text v = (case v of PStr s \<Rightarrow> Inr s | _ \<Rightarrow> Inl AttributeError)"

definition test_level :: "chars \<Rightarrow> 'w net \<Rightarrow> nat \<Rightarrow> ('w, level_result) io" where
  "test_level C E ctx = (\<lambda>w0.
     except_exception
       (io_bind (chat E (user_message (context_prompt ctx)) context_reply_limit (PFloat (lit ''0.0'')) CONTEXT_TEST_TIMEOUT) (\<lambda>v w.
          lift_res (bind_res (as_text v) (\<lambda>reply.
            case check_coherence C reply of (ok, reason) \<Rightarrow>
              Inr (Judged ok reason (py_round 1 (clock E w - clock E w0)) (take 120 reply)))) w))
       (\<lambda>e w. if e = TimeoutError then (Inr (TimedOut CONTEXT_TEST_TIMEOUT), w)
         else (Inr (Failed e (py_round 1 (clock E w - clock E w0))), w)) w0)"

text \<open>\<open>None\<close>: skipped. Otherwise the ceiling and the results by length.\<close>

definition test_context_lengths ::
    "chars \<Rightarrow> 'w net \<Rightarrow> nat option \<Rightarrow> nat option \<Rightarrow> ('w, (nat option \<times> (nat \<times> level_result) list) option) io" where
  "test_context_lengths C E reported configured =
     (let cap = ceiling_of reported configured; levels = context_levels cap
      in if levels = [] then ret None
         else io_bind (for_each (test_level C E) levels) (\<lambda>rs. ret (Some (cap, zip levels rs))))"

section \<open>The lengths tried\<close>

lemma sorted_levels: "sorted (context_levels cap) \<and> distinct (context_levels cap)"
  by (auto simp: context_levels_def Let_def base_levels_def sorted_insort distinct_insort split: option.splits)

lemma levels_cases:
  "set (context_levels (Some c)) = {l \<in> set base_levels. l \<le> c} \<union> (if 0 < c \<and> c < 65536 then {c} else {})"
  by (auto simp: context_levels_def Let_def set_insort_key)

text \<open>
  C35: the lengths tried are increasing and none exceeds the ceiling; they are the standard ones
  within it, and the ceiling itself when it is below 65536. So for a positive ceiling there is
  always a length to try, and the test is never skipped. The docstring of \<open>test_context_lengths\<close>
  says that the ceiling is always one of the lengths; from 65536 on it is not, which a comment
  beside the code explains.
\<close>

theorem context_levels_within_ceiling:
  assumes "0 < c"
  shows "sorted_wrt (<) (context_levels (Some c)) \<and> last (context_levels (Some c)) \<le> c \<and>
    set (context_levels (Some c)) = {l \<in> set base_levels. l \<le> c} \<union> (if c < 65536 then {c} else {}) \<and>
    context_levels (Some c) \<noteq> []"
proof -
  have "c \<in> set (context_levels (Some c)) \<or> 4096 \<in> set (context_levels (Some c))"
  proof (cases "c < 65536")
    case False
    then have "4096 \<le> c" by linarith
    moreover have "4096 \<in> set base_levels" unfolding base_levels_def by (rule list.set_intros)
    ultimately show ?thesis unfolding levels_cases by blast
  qed (use assms in \<open>simp add: levels_cases\<close>)
  then have ne: "set (context_levels (Some c)) \<noteq> {}" by (elim disjE) (metis empty_iff)+
  moreover have "sorted_wrt (<) (context_levels (Some c))"
    using sorted_levels[of "Some c"] by (simp add: strict_sorted_iff)
  moreover have "last (context_levels (Some c)) \<in> set (context_levels (Some c))" using ne by simp
  then have "last (context_levels (Some c)) \<le> c" unfolding levels_cases by (auto split: if_splits)
  moreover have "context_levels (Some c) \<noteq> []" using ne set_empty by blast
  ultimately show ?thesis using assms unfolding levels_cases by simp
qed

theorem context_levels_within_ceiling_witness:
  "last (context_levels (Some 16384)) \<le> 16384 \<and> context_levels (Some 2000) \<noteq> []"
  using context_levels_within_ceiling[of 16384] context_levels_within_ceiling[of 2000] by simp

section \<open>The size of a request\<close>

lemma length_filler: "length filler = 9000"
  by (simp add: filler_def length_concat sum_list_replicate)

lemma length_padding: "length (padding ctx) = chars_needed ctx"
proof -
  have "chars_needed ctx \<le> (chars_needed ctx div length filler + 2) * length filler"
    using div_mult_mod_eq[of "chars_needed ctx" "length filler"] mod_less_divisor[of "length filler" "chars_needed ctx"]
    by (simp add: length_filler algebra_simps)
  then show ?thesis by (simp add: padding_def concat_replicate_length)
qed

lemma length_instruction: "length instruction = 70"
  by (simp add: instruction_def)

text \<open>
  By the program's own measure of four characters for a token, the prompt for a window of
  \<open>c\<close> tokens and the tokens it asks for fit the window when no thinking budget is added, and
  overflow it with the budget of 6144 that reasoning models get.
\<close>

theorem context_request_fits_iff:
  assumes "100 \<le> c"
  shows "int (length (context_prompt c)) + 4 * (context_reply_limit + budget) \<le> 4 * int c \<longleftrightarrow> budget \<le> 62"
proof -
  have "int (chars_needed c) = 4 * int c - 400" using assms by (simp add: chars_needed_def)
  then show ?thesis
    by (simp add: context_prompt_def length_padding length_instruction context_reply_limit_def) linarith
qed

theorem context_request_fits_iff_witness:
  "int (length (context_prompt 32768)) + 4 * (context_reply_limit + 0) \<le> 4 * int 32768 \<and>
   \<not> int (length (context_prompt 32768)) + 4 * (context_reply_limit + 6144) \<le> 4 * int 32768"
  using context_request_fits_iff[of 32768 0] context_request_fits_iff[of 32768 6144] by simp

end
