(* ===== verification/BenchExtract.thy ===== *)
theory BenchExtract
  imports Regex
begin

text \<open>
  How the benchmark (\<open>servers/ai-runner/poc/benchmark.py\<close>) takes code out of a reply: the last
  fenced block, and one Go function out of it by counting braces.
\<close>

section \<open>The operations\<close>

text \<open>\<open>\w\<close>: alphanumeric or an underscore; above U+00FF the character database decides.\<close>

definition latin_word :: "nat \<Rightarrow> bool" where
  "latin_word n \<longleftrightarrow>
     48 \<le> n \<and> n \<le> 57 \<or> 65 \<le> n \<and> n \<le> 90 \<or> 97 \<le> n \<and> n \<le> 122 \<or> 192 \<le> n \<and> n \<le> 255 \<and> n \<noteq> 215 \<and> n \<noteq> 247 \<or>
     n \<in> {95, 170, 178, 179, 181, 185, 186, 188, 189, 190}"

fun re_word :: "(nat \<Rightarrow> bool) \<Rightarrow> uchar \<Rightarrow> bool" where
  "re_word wd (L c) = latin_word (of_char c)"
| "re_word wd (U n) = wd (n + 256)"

definition lang_aliases :: "string \<Rightarrow> string list" where
  "lang_aliases language =
     (if language = ''javascript'' then [''javascript'', ''js'', ''node'']
      else if language = ''python'' then [''python'', ''py'']
      else [language])"

fun rx_alts :: "rx list \<Rightarrow> rx" where
  "rx_alts [] = Eps"
| "rx_alts [r] = r"
| "rx_alts (r # s # rs) = Alt r (rx_alts (s # rs))"

definition ticks :: ustr where
  "ticks = lit ''```''"

definition code_fence :: "string \<Rightarrow> rx" where
  "code_fence language =
     rx_seq [rx_lit ticks, rx_opt (rx_alts (map rx_ilit (lang_aliases language))), Ch (\<lambda>c. c = newline),
             Grp 1 (Few any_char), rx_lit ticks]"

definition open_fence :: "(nat \<Rightarrow> bool) \<Rightarrow> rx" where
  "open_fence wd = rx_seq [Bol, rx_lit ticks, Many (re_word wd), rx_opt (Ch (\<lambda>c. c = newline))]"

definition close_fence :: rx where
  "close_fence = rx_seq [rx_opt (Ch (\<lambda>c. c = newline)), rx_lit ticks, Eol]"

definition extract_code :: "(nat \<Rightarrow> bool) \<Rightarrow> ustr \<Rightarrow> string \<Rightarrow> ustr" where
  "extract_code wd response language =
     (let blocks = findall (code_fence language) response
      in if blocks \<noteq> [] then strip (last blocks)
         else strip (re_sub close_fence [] (re_sub (open_fence wd) [] (strip response))))"

definition go_signature :: "ustr \<Rightarrow> rx" where
  "go_signature func_name =
     Grp 1 (rx_seq [rx_lit (lit ''func''), rx_many1 py_space, rx_lit func_name, Many py_space,
                    Ch (\<lambda>c. c = L CHR ''(''), Many any_char])"

text \<open>The text up to the brace that brings the depth back to zero.\<close>

fun to_closing :: "int \<Rightarrow> ustr \<Rightarrow> ustr option" where
  "to_closing depth [] = None"
| "to_closing depth (c # s) =
     (if c = L CHR ''{'' then map_option (Cons c) (to_closing (depth + 1) s)
      else if c = L CHR ''}'' then
        (if depth - 1 = 0 then Some [c] else map_option (Cons c) (to_closing (depth - 1) s))
      else map_option (Cons c) (to_closing depth s))"

definition cut_function :: "ustr \<Rightarrow> ustr" where
  "cut_function fn_text =
     (let before = takeWhile (\<lambda>c. c \<noteq> L CHR ''{'') fn_text; rest = dropWhile (\<lambda>c. c \<noteq> L CHR ''{'') fn_text
      in case to_closing 0 rest of Some w \<Rightarrow> before @ w | None \<Rightarrow> fn_text)"

definition extract_go_function :: "(nat \<Rightarrow> bool) \<Rightarrow> ustr \<Rightarrow> ustr \<Rightarrow> ustr" where
  "extract_go_function wd response func_name =
     (let code = extract_code wd response ''go''
      in case re_search (go_signature func_name) code of
           None \<Rightarrow> code
         | Some (b, e, g) \<Rightarrow> cut_function (slice b e code))"

section \<open>Fenced blocks\<close>

abbreviation tick :: uchar where
  "tick \<equiv> L CHR 0x60"

lemma ticks_eq: "ticks = [tick, tick, tick]"
  by (simp add: ticks_def)

definition tags :: "string \<Rightarrow> ustr list" where
  "tags language = [] # map lit (lang_aliases language)"

lemma mt_Seq_Ch: "mt (Seq (Ch p) r) (i, s, g) = (case s of [] \<Rightarrow> [] | c # s' \<Rightarrow> if p c then mt r (Suc i, s', g) else [])"
  by (cases s) auto

lemma mt_Seq_Alt: "mt (Seq (Alt a b) r) st = mt (Seq a r) st @ mt (Seq b r) st"
  by simp

lemma mt_Seq_Eps: "mt (Seq Eps r) st = mt r st"
  by simp

lemma concat_map_concat: "concat (map f (concat xss)) = concat (map (\<lambda>xs. concat (map f xs)) xss)"
  by (induction xss) auto

lemma mt_Seq_Seq: "mt (Seq (Seq a b) r) st = mt (Seq a (Seq b r)) st"
  by (auto simp: concat_map_concat comp_def intro!: arg_cong[where f = concat] map_cong)

lemma folds_apart:
  "\<not> folds_to CHR ''p'' newline" "\<not> folds_to CHR ''j'' newline" "\<not> folds_to CHR ''n'' newline"
  "\<not> folds_to CHR ''g'' newline" "\<not> folds_to CHR ''t'' newline" "\<not> folds_to CHR ''s'' (L CHR ''a'')"
  "\<not> folds_to CHR ''a'' (L CHR ''s'')" "\<not> folds_to CHR ''n'' (L CHR ''j'')" "\<not> folds_to CHR ''j'' (L CHR ''n'')"
  by code_simp+

lemmas mt_seqs = mt_Seq_Ch mt_Seq_Alt mt_Seq_Eps mt_Seq_Seq rx_ilit.simps rx_alts.simps list.map

lemma mt_tag:
  assumes "language \<in> {''python'', ''javascript'', ''go''}" "tag \<in> set (tags language)"
  shows "mt (Seq (rx_opt (rx_alts (map rx_ilit (lang_aliases language)))) (Seq (Ch (\<lambda>c. c = newline)) r)) (i, tag @ newline # s, g) =
    mt r (i + length tag + 1, s, g)"
  using assms
  by (auto simp: tags_def lang_aliases_def rx_opt_def mt_seqs folds_apart eval_nat_numeral simp del: mt.simps)

definition fenced :: "ustr \<times> ustr \<times> ustr \<Rightarrow> ustr" where
  "fenced = (\<lambda>(gap, tag, body). gap @ ticks @ tag @ [newline] @ body @ ticks)"

definition body_ok :: "ustr \<Rightarrow> bool" where
  "body_ok body \<longleftrightarrow> \<not> occurs ticks (body @ [tick, tick])"

lemma mt_fence:
  assumes "language \<in> {''python'', ''javascript'', ''go''}" "tag \<in> set (tags language)" "body_ok body"
  shows "\<exists>ms. mt (code_fence language) (i, ticks @ tag @ [newline] @ body @ ticks @ rest, []) =
    (i + length tag + length body + 7, rest, [(1, body)]) # ms"
proof -
  have "mt (code_fence language) (i, ticks @ tag @ [newline] @ body @ ticks @ rest, []) =
      mt (Seq (rx_opt (rx_alts (map rx_ilit (lang_aliases language)))) (Seq (Ch (\<lambda>c. c = newline))
        (Seq (Grp 1 (Few any_char)) (rx_lit ticks)))) (i + 3, tag @ newline # body @ ticks @ rest, [])"
    unfolding code_fence_def rx_seq.simps
    by (simp only: mt.simps(3)[of "rx_lit ticks"] mt_lit_append) (simp add: ticks_eq eval_nat_numeral del: mt.simps)
  also have "\<dots> = mt (Seq (Grp 1 (Few any_char)) (rx_lit ticks)) (i + 3 + length tag + 1, body @ ticks @ rest, [])"
    by (rule mt_tag[OF assms(1,2)])
  finally show ?thesis
    using mt_up_to[of ticks body 1 "i + 3 + length tag + 1" rest "[]"] assms(3)
    by (auto simp: body_ok_def ticks_eq eval_nat_numeral simp del: mt.simps)
qed

lemma mt_no_ticks:
  assumes "\<not> prefix ticks s"
  shows "mt (code_fence language) (i, s, g) = []"
  using assms unfolding code_fence_def rx_seq.simps by (simp add: mt_lit)

text \<open>A match of the pattern has two runs of three ticks, so six.\<close>

definition count_ticks :: "ustr \<Rightarrow> nat" where
  "count_ticks s = length (filter (\<lambda>c. c = tick) s)"

lemma count_ticks_simps [simp]:
  "count_ticks [] = 0" "count_ticks (c # s) = (if c = tick then Suc (count_ticks s) else count_ticks s)"
  "count_ticks (s @ u) = count_ticks s + count_ticks u" "count_ticks ticks = 3"
  by (simp_all add: count_ticks_def ticks_eq)

lemma count_ticks_0: "tick \<notin> set s \<Longrightarrow> count_ticks s = 0"
  by (auto simp: count_ticks_def filter_empty_conv)

lemma body_ok_plain: "tick \<notin> set body \<Longrightarrow> body_ok body"
proof (unfold body_ok_def occurs_iff, clarify)
  fix u v assume "tick \<notin> set body" and e: "body @ [tick, tick] = u @ ticks @ v"
  then have "count_ticks (u @ ticks @ v) = 2" unfolding e[symmetric] by (simp add: count_ticks_0)
  then show False by simp
qed

lemma reads_ticks: "rx_match (rx_lit ticks) (i, s, g) (j, t, h) \<Longrightarrow> s = ticks @ t"
  by (auto simp: mt_iff_match[symmetric] mt_lit prefix_def split: if_splits)

lemma reads_count: "reads (i, s, g) (j, t, h) \<Longrightarrow> count_ticks t \<le> count_ticks s"
  by (auto simp: reads_def)

lemma match_reads: "rx_match r st st' \<Longrightarrow> reads st st'"
  using mt_reads mt_iff_match by blast

lemma mt_few_ticks:
  assumes "count_ticks s < 6"
  shows "mt (code_fence language) (i, s, g) = []"
proof (rule ccontr)
  assume "mt (code_fence language) (i, s, g) \<noteq> []"
  then obtain st where "rx_match (code_fence language) (i, s, g) st"
    unfolding mt_iff_match[symmetric] by (meson list.set_sel(1))
  then obtain a b c d where m: "rx_match (rx_lit ticks) (i, s, g) a"
    "rx_match (rx_opt (rx_alts (map rx_ilit (lang_aliases language)))) a b"
    "rx_match (Ch (\<lambda>c. c = newline)) b c" "rx_match (Grp 1 (Few any_char)) c d" "rx_match (rx_lit ticks) d st"
    unfolding code_fence_def rx_seq.simps by (blast elim: rx_match_cases)
  obtain ia sa ga id' sd gd ie se ge where e: "a = (ia, sa, ga)" "d = (id', sd, gd)" "st = (ie, se, ge)"
    by (metis prod_cases3)
  have "s = ticks @ sa" "sd = ticks @ se" using m(1,5) reads_ticks by (simp_all add: e)
  moreover have "reads a d"
    using m(2-4) by (blast intro: reads_trans match_reads)
  then have "count_ticks sd \<le> count_ticks sa" using reads_count by (simp add: e)
  ultimately show False using assms by simp
qed

lemma search_few_ticks:
  assumes "count_ticks s < 6"
  shows "rx_search (code_fence language) adv i s = None"
proof (rule search_none)
  fix u v assume "s = u @ v"
  with assms show "mt (code_fence language) (i + length u, v, []) = []" by (intro mt_few_ticks) simp
qed

lemma search_fence:
  assumes "language \<in> {''python'', ''javascript'', ''go''}" "tag \<in> set (tags language)" "body_ok body" "tick \<notin> set gap"
  shows "rx_search (code_fence language) False i (fenced (gap, tag, body) @ rest) =
    Some (i + length gap, i + length (fenced (gap, tag, body)), rest, [(1, body)])"
proof -
  obtain ms where "mt (code_fence language) (i + length gap, ticks @ tag @ [newline] @ body @ ticks @ rest, []) =
      (i + length gap + length tag + length body + 7, rest, [(1, body)]) # ms"
    using mt_fence[OF assms(1-3)] by blast
  moreover have "mt (code_fence language) (i + length u, v @ s, []) = []" if "gap = u @ v" "v \<noteq> []" for u v s
    using that assms(4) by (intro mt_no_ticks) (cases v; auto simp: ticks_eq)
  ultimately have "rx_search (code_fence language) False i (gap @ ticks @ tag @ [newline] @ body @ ticks @ rest) =
      Some (i + length gap, i + length gap + length tag + length body + 7, rest, [(1, body)])"
    by (rule search_after_gap[rotated])
  then show ?thesis by (simp add: fenced_def ticks_eq ac_simps del: rx_search.simps)
qed

lemma blocks_found:
  assumes "language \<in> {''python'', ''javascript'', ''go''}"
    and "\<forall>(gap, tag, body) \<in> set bs. tick \<notin> set gap \<and> tag \<in> set (tags language) \<and> body_ok body"
    and "tick \<notin> set post"
  shows "map (group 1) (rx_iter (code_fence language) False i (concat (map fenced bs) @ post)) = map (\<lambda>(_, _, body). body) bs"
  using assms(2)
proof (induction bs arbitrary: i)
  case Nil
  show ?case using search_few_ticks[of post] assms(3) by (simp add: rx_iter.simps count_ticks_0)
next
  case (Cons b bs)
  obtain gap tag body where b: "b = (gap, tag, body)" by (cases b)
  with Cons.prems have ok: "tag \<in> set (tags language)" "body_ok body" "tick \<notin> set gap" by auto
  let ?rest = "concat (map fenced bs) @ post"
  note s = search_fence[OF assms(1) ok, of i ?rest]
  have "(i + length gap = i + length (fenced b)) = False" by (simp add: b fenced_def ticks_eq)
  then have "rx_iter (code_fence language) False i (fenced b @ ?rest) =
      (i + length gap, i + length (fenced b), [(1, body)]) #
      rx_iter (code_fence language) False (i + length (fenced b)) ?rest"
    by (subst rx_iter.simps) (simp only: s b option.case prod.case)
  with Cons show ?case by (simp add: b group_def)
qed

text \<open>
  C29: of a reply with fenced blocks of the language asked for, or with no tag, in prose without
  ticks, the last block is what is taken, without the white space around it.
\<close>

theorem last_block_extracted:
  assumes "language \<in> {''python'', ''javascript'', ''go''}" "bs \<noteq> []"
    and "\<forall>(gap, tag, body) \<in> set bs. tick \<notin> set gap \<and> tag \<in> set (tags language) \<and> body_ok body"
    and "tick \<notin> set post"
  shows "extract_code wd (concat (map fenced bs) @ post) language = strip (snd (snd (last bs)))"
proof -
  have f: "findall (code_fence language) (concat (map fenced bs) @ post) = map (\<lambda>(_, _, body). body) bs"
    using blocks_found[OF assms(1,3,4)] by (simp add: findall_def finditer_def)
  show ?thesis
    using assms(2) by (simp add: extract_code_def f last_map case_prod_unfold)
qed

lemma mt_foreign_alts:
  assumes "as \<noteq> []" "\<forall>a \<in> set as. a \<noteq> [] \<and> \<not> folds_to (hd a) d"
  shows "mt (Seq (rx_alts (map rx_ilit as)) r) (i, d # s, g) = []"
  using assms
proof (induction as rule: induct_list012)
  case (2 a)
  then show ?case by (cases a) (auto simp: mt_Seq_Seq mt_Seq_Ch simp del: mt.simps)
next
  case (3 a b as)
  then have "mt (Seq (rx_ilit a) r) (i, d # s, g) = []"
    by (cases a) (auto simp: mt_Seq_Seq mt_Seq_Ch simp del: mt.simps)
  with 3 show ?case by (simp add: mt_Seq_Alt del: mt.simps)
qed simp

lemma mt_foreign_tag:
  assumes "language \<in> {''python'', ''javascript'', ''go''}"
    and "tag \<noteq> []" "\<forall>a \<in> set (lang_aliases language). \<not> folds_to (hd a) (hd tag)" "hd tag \<noteq> newline"
  shows "mt (Seq (rx_opt (rx_alts (map rx_ilit (lang_aliases language)))) (Seq (Ch (\<lambda>c. c = newline)) r)) (i, tag @ u, g) = []"
proof -
  have al: "lang_aliases language \<noteq> []" "\<forall>a \<in> set (lang_aliases language). a \<noteq> []"
    using assms(1) by (auto simp: lang_aliases_def)
  obtain d z where tag: "tag = d # z" using assms(2) by (cases tag) auto
  show ?thesis
    using mt_foreign_alts[OF al(1), of d] al(2) assms(3,4)
    by (simp add: rx_opt_def mt_Seq_Alt mt_Seq_Eps mt_Seq_Ch tag del: mt.simps)
qed

lemma inside_fence:
  assumes "ticks @ tag @ [newline] @ script = u @ v" "v \<noteq> []" "u \<noteq> []" "tag \<noteq> []" "tick \<notin> set (tag @ script)"
  shows "\<not> prefix ticks (v @ s)"
proof
  assume p: "prefix ticks (v @ s)"
  have tl: "tick \<notin> set (tag @ [newline] @ script)" using assms(5) by auto
  obtain d z where z: "tag @ [newline] @ script = d # z" "d \<noteq> tick" using assms(4) tl by (cases tag) auto
  have "tick # tick # tick # d # z = u @ v" using assms(1) z by (simp add: ticks_eq)
  then consider "v = tick # tick # d # z" | "v = tick # d # z" | w where "d # z = w @ v"
    using assms(3) by (auto simp: Cons_eq_append_conv)
  then show False
  proof cases
    case 3
    then have "set v \<subseteq> set (tag @ [newline] @ script)" using z(1) by simp
    with tl have "tick \<notin> set v" by blast
    with p assms(2) show False by (cases v) (auto simp: ticks_eq)
  qed (use p z(2) in \<open>auto simp: ticks_eq\<close>)
qed

text \<open>
  C38: a block in another language breaks this: its closing ticks are taken for the opening of a
  block without a tag, so what is extracted is the prose between it and the next block.
\<close>

theorem foreign_block_misleads:
  assumes "language \<in> {''python'', ''javascript'', ''go''}"
    and "tag \<noteq> []" "\<forall>a \<in> set (lang_aliases language). \<not> folds_to (hd a) (hd tag)" "hd tag \<noteq> newline"
    and "tick \<notin> set (tag @ script @ prose @ code)"
  shows "extract_code wd
      (ticks @ tag @ [newline] @ script @ ticks @ [newline] @ prose @ ticks @ lit language @ [newline] @ code @ ticks)
      language = strip prose"
proof -
  let ?gap = "ticks @ tag @ [newline] @ script"
  let ?rest = "lit language @ [newline] @ code @ ticks"
  let ?s = "ticks @ [] @ [newline] @ prose @ ticks @ ?rest"
  have gap: "mt (code_fence language) (i + length u, v @ ?s, []) = []" if "?gap = u @ v" "v \<noteq> []" for u v i
  proof (cases "u = []")
    case False
    show ?thesis
      using inside_fence[OF that(1) that(2) False assms(2)] assms(5) by (intro mt_no_ticks) simp
  next
    case True
    with that have "v = ticks @ tag @ [newline] @ script" by simp
    then show ?thesis
      using mt_foreign_tag[OF assms(1-4)] unfolding code_fence_def rx_seq.simps
      by (simp only: mt.simps(3)[of "rx_lit ticks"] append_assoc mt_lit_append list.map concat.simps) simp
  qed
  have "body_ok prose"
    using assms(5) by (intro body_ok_plain) simp
  then obtain ms where "mt (code_fence language) (length ?gap, ?s, []) =
      (length ?gap + length prose + 7, ?rest, [(1, prose)]) # ms"
    using mt_fence[OF assms(1), of "[]" prose "length ?gap" ?rest] by (auto simp: tags_def)
  then have s: "rx_search (code_fence language) False 0 (?gap @ ?s) =
      Some (0 + length ?gap, length ?gap + length prose + 7, ?rest, [(1, prose)])"
    using search_after_gap[of ?gap "code_fence language" 0 ?s, OF gap] by simp
  have c: "count_ticks ?rest < 6"
  proof -
    have "tick \<notin> set (lit language)" using assms(1) by auto
    with assms(5) show ?thesis by (simp add: count_ticks_0)
  qed
  have "findall (code_fence language) (?gap @ ?s) = [prose]"
    using s rx_iter.simps[of "code_fence language" False "length ?gap + length prose + 7" ?rest, unfolded search_few_ticks[OF c]]
    by (simp add: findall_def finditer_def rx_iter.simps[of _ _ 0] group_def ticks_eq)
  then show ?thesis by (simp add: extract_code_def)
qed

section \<open>A Go function\<close>

text \<open>Text whose braces close each other: the depth after it, unless it closes too many.\<close>

fun level :: "nat \<Rightarrow> ustr \<Rightarrow> nat option" where
  "level d [] = Some d"
| "level d (c # s) =
     (if c = L CHR ''{'' then level (Suc d) s
      else if c = L CHR ''}'' then (case d of 0 \<Rightarrow> None | Suc e \<Rightarrow> level e s)
      else level d s)"

definition balanced :: "ustr \<Rightarrow> bool" where
  "balanced s \<longleftrightarrow> level 0 s = Some 0"

lemma to_closing_level:
  "level d mid = Some d' \<Longrightarrow>
   to_closing (int d + 1) (mid @ rest) = map_option (append mid) (to_closing (int d' + 1) rest)"
proof (induction d mid rule: level.induct)
  case (2 d c s)
  then show ?case
    by (cases d) (auto simp: option.map_comp comp_def add.commute split: if_splits)
next
  case (1 d)
  then show ?case by (cases "to_closing (int d + 1) rest") auto
qed

lemma cut_at_closing:
  assumes "L CHR ''{'' \<notin> set sig" "balanced mid"
  shows "cut_function (sig @ L CHR ''{'' # mid @ L CHR ''}'' # rest) = sig @ L CHR ''{'' # mid @ [L CHR ''}'']"
proof -
  have "to_closing 1 (mid @ L CHR ''}'' # rest) = Some (mid @ [L CHR ''}''])"
    using to_closing_level[of 0 mid 0 "L CHR ''}'' # rest"] assms(2) by (simp add: balanced_def)
  moreover have "takeWhile (\<lambda>c. c \<noteq> L CHR ''{'') (sig @ L CHR ''{'' # s) = sig"
    "dropWhile (\<lambda>c. c \<noteq> L CHR ''{'') (sig @ L CHR ''{'' # s) = L CHR ''{'' # s" for s
    using assms(1) by (auto simp: takeWhile_append dropWhile_append)
  ultimately show ?thesis by (simp add: cut_function_def)
qed

lemma match_signature:
  fixes rest :: ustr
  assumes "ws \<noteq> []" "\<forall>c \<in> set (ws @ ws'). py_space c" "name \<noteq> []" "\<not> py_space (hd name)"
  defines "s \<equiv> lit ''func'' @ ws @ name @ ws' @ L CHR ''('' # rest"
  shows "first (go_signature name) (i, s, []) (i + length s, [], [(1, s)])"
proof -
  have f1: "first (rx_many1 py_space) (j, ws @ name @ u, g) (j + length ws, name @ u, g)" for j u g
    using assms(1-4) by (intro first_many1) auto
  have f2: "first (Many py_space) (j, ws' @ L CHR ''('' # u, g) (j + length ws', L CHR ''('' # u, g)" for j u g
    using assms(2) by (intro first_many) (auto simp: latin_space_def)
  have f3: "first (Many any_char) (j, rest @ [], g) (j + length rest, [], g)" for j g
    by (intro first_many) (auto simp: any_char)
  have "first (rx_seq [rx_lit (lit ''func''), rx_many1 py_space, rx_lit name, Many py_space,
      Ch (\<lambda>c. c = L CHR ''(''), Many any_char]) (i, lit ''func'' @ ws @ name @ ws' @ L CHR ''('' # rest @ [], [])
    (Suc (i + length (lit ''func'') + length ws + length name + length ws') + length rest, [], [])"
    unfolding rx_seq.simps
    by (rule first_seq[OF first_lit first_seq[OF f1 first_seq[OF first_lit first_seq[OF f2 first_seq[OF first_ch f3]]]]]) simp
  from first_grp[OF this, of 1] show ?thesis
    unfolding go_signature_def s_def by (simp add: ac_simps)
qed

lemma no_func_straddles:
  assumes "\<not> occurs (lit ''func'') (u @ v)" "v \<noteq> []"
  shows "\<not> prefix (lit ''func'') (v @ lit ''func'' @ s)"
proof
  assume "prefix (lit ''func'') (v @ lit ''func'' @ s)"
  then obtain z where z: "v @ lit ''func'' @ s = lit ''func'' @ z" by (auto simp: prefix_def)
  then have "length v \<ge> 4 \<longrightarrow> (\<exists>y. v = lit ''func'' @ y)"
    by (auto simp: append_eq_Cons_conv Cons_eq_append_conv)
  moreover have "\<not> length v < 4"
  proof
    assume "length v < 4"
    moreover have "length v \<noteq> 0" using assms(2) by simp
    ultimately consider "length v = 1" | "length v = 2" | "length v = 3" by linarith
    then show False using z by cases (auto simp: length_Suc_conv numeral_eq_Suc)
  qed
  ultimately obtain y where "v = lit ''func'' @ y" by auto
  with assms(1) show False by (metis occurs_iff append_assoc)
qed

lemma go_function_cut:
  assumes "extract_code wd response ''go'' = before @ lit ''func'' @ ws @ name @ ws' @ L CHR ''('' # sig @ L CHR ''{'' # mid @ L CHR ''}'' # rest"
    and "\<not> occurs (lit ''func'') before" "L CHR ''{'' \<notin> set (name @ sig)" "balanced mid"
    and "ws \<noteq> []" "\<forall>c \<in> set (ws @ ws'). py_space c" "name \<noteq> []" "\<not> py_space (hd name)"
  shows "extract_go_function wd response name =
    lit ''func'' @ ws @ name @ ws' @ L CHR ''('' # sig @ L CHR ''{'' # mid @ [L CHR ''}'']"
proof -
  let ?head = "lit ''func'' @ ws @ name @ ws' @ L CHR ''('' # sig"
  let ?tail = "L CHR ''{'' # mid @ L CHR ''}'' # rest"
  let ?fn = "lit ''func'' @ ws @ name @ ws' @ L CHR ''('' # (sig @ ?tail)"
  have m: "first (go_signature name) (length before, ?fn, []) (length before + length ?fn, [], [(1, ?fn)])"
    using match_signature[OF assms(5-8)] .
  have "mt (go_signature name) (0 + length u, v @ ?fn, []) = []" if "before = u @ v" "v \<noteq> []" for u v
    using no_func_straddles[of u v "ws @ name @ ws' @ L CHR ''('' # (sig @ ?tail)"] assms(2) that
    unfolding go_signature_def rx_seq.simps by (simp add: mt_lit del: rx_lit.simps list.map)
  from search_after_gap[of before _ 0, OF this] m
  have s: "re_search (go_signature name) (before @ ?fn) = Some (length before, length before + length ?fn, [(1, ?fn)])"
    unfolding first_def re_search_def by fastforce
  have sl: "slice (length before) (length before + length ?fn) (before @ ?fn) = ?fn"
    by (simp add: slice_def)
  have "L CHR ''{'' \<notin> set (ws @ ws')"
  proof
    assume "L CHR ''{'' \<in> set (ws @ ws')"
    with assms(6) have "py_space (L CHR ''{'')" by blast
    then show False by (simp add: latin_space_def)
  qed
  then have "L CHR ''{'' \<notin> set ?head" using assms(3) by auto
  from cut_at_closing[OF this assms(4), of rest] have c: "cut_function ?fn = ?head @ L CHR ''{'' # mid @ [L CHR ''}'']"
    by simp
  have e: "extract_code wd response ''go'' = before @ ?fn" using assms(1) by simp
  show ?thesis unfolding extract_go_function_def e Let_def s option.case prod.case sl c by simp
qed

text \<open>
  C30: a Go function is taken out whole: of code in which \<open>func\<close> first occurs at its signature,
  what is returned starts there and ends at the brace that closes the first one, provided
  the braces between them close each other.
\<close>

theorem go_function_extracted:
  assumes "extract_code wd response ''go'' = before @ lit ''func'' @ ws @ name @ ws' @ L CHR ''('' # sig @ L CHR ''{'' # mid @ L CHR ''}'' # rest"
    and "\<not> occurs (lit ''func'') before" "L CHR ''{'' \<notin> set (name @ sig)" "balanced mid"
    and "ws \<noteq> []" "\<forall>c \<in> set (ws @ ws'). py_space c" "name \<noteq> []" "\<not> py_space (hd name)"
  shows "extract_go_function wd response name =
    lit ''func'' @ ws @ name @ ws' @ L CHR ''('' # sig @ L CHR ''{'' # mid @ [L CHR ''}'']"
  using assms by (rule go_function_cut)

text \<open>
  The first brace need not open the body: of a function with a parameter of type
  \<open>interface{}\<close> only the signature up to that type is returned, whatever follows.
\<close>

theorem interface_cuts_function:
  assumes "extract_code wd response ''go'' =
      before @ lit ''func '' @ name @ L CHR ''('' # params @ lit ''interface{}'' @ rest"
    and "\<not> occurs (lit ''func'') before" "L CHR ''{'' \<notin> set (name @ params)" "name \<noteq> []" "\<not> py_space (hd name)"
  shows "extract_go_function wd response name = lit ''func '' @ name @ L CHR ''('' # params @ lit ''interface{}''"
  using go_function_cut[of wd response before "lit '' ''" name "[]" "params @ lit ''interface''" "[]" rest] assms
  by (simp add: balanced_def latin_space_def)

section \<open>Examples\<close>

definition ascii_word :: "nat \<Rightarrow> bool" where
  "ascii_word n = False"

theorem last_block_extracted_witness:
  "extract_code ascii_word (concat (map fenced [(lit ''Try '', lit ''py'', lit ''x = 1''), (lit '' or '', [], lit '' y = 2 '')]) @ lit ''.'')
     ''python'' = lit ''y = 2''"
  by (subst last_block_extracted) (auto simp: tags_def lang_aliases_def body_ok_def ticks_def latin_space_def text_simps strip_def)

theorem foreign_block_misleads_witness:
  "extract_code ascii_word
     (ticks @ lit ''bash'' @ [newline] @ lit ''pip install x;'' @ ticks @ [newline] @ lit ''Then:'' @ ticks @
      lit ''python'' @ [newline] @ lit ''import x'' @ ticks) ''python'' = lit ''Then:''"
  by (subst foreign_block_misleads)
    (auto simp: lang_aliases_def folds_to_def latin_space_def text_simps strip_def)

definition sample_go :: "ustr \<Rightarrow> ustr" where
  "sample_go sig = ticks @ lit ''go'' @ [newline] @ lit ''package main; func F('' @ sig @ lit ''{ if n > 0 { return 1 }; return 0 } // F'' @ ticks"

lemma sample_go_code:
  assumes "sig = lit ''n int) int '' \<or> sig = lit ''x interface{}) int ''"
  shows "extract_code ascii_word (sample_go sig) ''go'' =
    lit ''package main; func F('' @ sig @ lit ''{ if n > 0 { return 1 }; return 0 } // F''"
proof -
  let ?code = "lit ''package main; func F('' @ sig @ lit ''{ if n > 0 { return 1 }; return 0 } // F''"
  have "sample_go sig = concat (map fenced [([], lit ''go'', ?code)]) @ []"
    by (simp add: sample_go_def fenced_def)
  moreover have "body_ok ?code" by (rule body_ok_plain) (use assms in auto)
  moreover have "strip ?code = ?code" by (rule strip_fix) (use assms in \<open>auto simp: latin_space_def\<close>)
  ultimately show ?thesis
    using blocks_found[of "''go''" "[([], lit ''go'', ?code)]" "[]" 0]
    by (simp add: extract_code_def findall_def finditer_def tags_def lang_aliases_def)
qed

theorem go_function_extracted_witness:
  "extract_go_function ascii_word (sample_go (lit ''n int) int '')) (lit ''F'') =
     lit ''func F(n int) int { if n > 0 { return 1 }; return 0 }''"
proof -
  have "extract_go_function ascii_word (sample_go (lit ''n int) int '')) (lit ''F'') =
     lit ''func'' @ lit '' '' @ lit ''F'' @ [] @ L CHR ''('' # lit ''n int) int '' @ L CHR ''{'' #
       lit '' if n > 0 { return 1 }; return 0 '' @ [L CHR ''}'']"
    by (rule go_function_extracted[where before = "lit ''package main; ''" and rest = "lit '' // F''"])
      (simp_all add: sample_go_code balanced_def latin_space_def)
  then show ?thesis by simp
qed

theorem interface_cuts_function_witness:
  "extract_go_function ascii_word (sample_go (lit ''x interface{}) int '')) (lit ''F'') = lit ''func F(x interface{}''"
proof -
  have "extract_go_function ascii_word (sample_go (lit ''x interface{}) int '')) (lit ''F'') =
     lit ''func '' @ lit ''F'' @ L CHR ''('' # lit ''x '' @ lit ''interface{}''"
    by (rule interface_cuts_function[where before = "lit ''package main; ''"
          and rest = "lit '') int { if n > 0 { return 1 }; return 0 } // F''"])
      (simp_all add: sample_go_code latin_space_def)
  then show ?thesis by simp
qed

end
