(* ===== verification/BenchRun.thy ===== *)
theory BenchRun
  imports Effects PyText
begin

text \<open>
  How the benchmark (\<open>servers/ai-runner/poc/benchmark.py\<close>) executes the code of a model: a
  temporary file, a subprocess with a time limit, and a count of the lines that say PASS.
\<close>

section \<open>Files and processes\<close>

text \<open>The temporary files, by name, and whatever else a process can change.\<close>

record 's world =
  files :: "(ustr \<times> ustr) list"
  others :: 's

text \<open>How \<open>subprocess.run\<close> ends; an exception other than the two \<open>_run\<close> catches passes on.\<close>

datatype outcome =
    Exited int ustr ustr
  | TimedOut
  | NotFound
  | Raised exc

text \<open>
  What the interpreter and the operating system supply: the name \<open>tempfile\<close> picks, the run of a
  command, and \<open>repr\<close> of a string.
\<close>

record 's sandbox =
  temp_name :: "ustr \<Rightarrow> 's world \<Rightarrow> ustr"
  spawn :: "ustr list \<Rightarrow> 's world \<Rightarrow> outcome \<times> 's world"
  py_repr :: "ustr \<Rightarrow> ustr"

text \<open>Text that has a UTF-8 encoding: no surrogates.\<close>

definition encodable :: "ustr \<Rightarrow> bool" where
  "encodable s \<longleftrightarrow> list_all (\<lambda>c. ucode c < 55296 \<or> 57343 < ucode c) s"

text \<open>
  \<open>with NamedTemporaryFile(mode="w", suffix=..., delete=False) as f: f.write(text)\<close>: the file
  exists before the text is written.
\<close>

definition write_temp :: "'s sandbox \<Rightarrow> ustr \<Rightarrow> ustr \<Rightarrow> ('s world, ustr) io" where
  "write_temp S ext t w =
     (let f = temp_name S ext w
      in if encodable t then (Inr f, w\<lparr>files := files w @ [(f, t)]\<rparr>)
         else (Inl ValueError, w\<lparr>files := files w @ [(f, [])]\<rparr>))"

definition unlink :: "ustr \<Rightarrow> ('s world, unit) io" where
  "unlink f w =
     (if f \<in> fst ` set (files w) then (Inr (), w\<lparr>files := filter (\<lambda>(g, _). g \<noteq> f) (files w)\<rparr>)
      else (Inl OSError, w))"

definition run_process :: "'s sandbox \<Rightarrow> ustr list \<Rightarrow> ('s world, int \<times> ustr \<times> ustr) io" where
  "run_process S cmd w =
     (case spawn S cmd w of
        (Exited rc out err, w') \<Rightarrow> (Inr (rc, out, err), w')
      | (TimedOut, w') \<Rightarrow> (Inr (- 1, [], lit ''TIMEOUT''), w')
      | (NotFound, w') \<Rightarrow> (Inr (- 2, [], lit ''RUNTIME_NOT_FOUND: '' @ hd cmd), w')
      | (Raised e, w') \<Rightarrow> (Inl e, w'))"

text \<open>The common shape of the runners: write the file, run it, remove it whatever happened.\<close>

type_synonym verdict = "nat \<times> nat \<times> ustr list"

definition run_script ::
    "'s sandbox \<Rightarrow> ustr \<Rightarrow> ustr list \<Rightarrow> ustr \<Rightarrow> (int \<times> ustr \<times> ustr \<Rightarrow> verdict) \<Rightarrow> ('s world, verdict) io" where
  "run_script S ext cmd t judge =
     io_bind (write_temp S ext t) (\<lambda>fname.
       io_finally (io_bind (run_process S (cmd @ [fname])) (\<lambda>r. ret (judge r))) (unlink fname))"

section \<open>The runners\<close>

definition lines_of :: "ustr \<Rightarrow> ustr \<Rightarrow> ustr list" where
  "lines_of out err = splitlines (strip (out @ err))"

definition passes :: "ustr list \<Rightarrow> nat" where
  "passes ls = length (filter (\<lambda>l. strip l = lit ''PASS'') ls)"

text \<open>A test case of the Python problems: the call and the expected expression.\<close>

definition harness_lines :: "ustr \<times> ustr \<Rightarrow> ustr list" where
  "harness_lines = (\<lambda>(call, expected).
     [lit ''try:'',
      lit ''    _got = '' @ call,
      lit ''    _exp = '' @ expected,
      lit ''    print('' @ [L CHR 0x27] @ lit ''PASS'' @ [L CHR 0x27] @ lit '' if _got == _exp else f'' @ [L CHR 0x27] @
        lit ''FAIL: got {_got!r} exp {_exp!r}'' @ [L CHR 0x27] @ lit '')'',
      lit ''except Exception as _e:'',
      lit ''    print(f'' @ [L CHR 0x27] @ lit ''ERROR: {_e}'' @ [L CHR 0x27] @ lit '')''])"

definition python_harness :: "ustr \<Rightarrow> (ustr \<times> ustr) list \<Rightarrow> ustr" where
  "python_harness code tests =
     code @ [newline, newline] @ join [newline] (concat (map harness_lines tests))"

definition judge_lines :: "nat \<Rightarrow> int \<times> ustr \<times> ustr \<Rightarrow> verdict" where
  "judge_lines n_tests = (\<lambda>(rc, out, err). (passes (lines_of out err), n_tests, lines_of out err))"

definition run_python_tests :: "'s sandbox \<Rightarrow> ustr \<Rightarrow> (ustr \<times> ustr) list \<Rightarrow> ('s world, verdict) io" where
  "run_python_tests S code test_cases =
     run_script S (lit ''.py'') [lit ''python3''] (python_harness code test_cases) (judge_lines (length test_cases))"

definition run_node_tests :: "'s sandbox \<Rightarrow> ustr \<Rightarrow> ustr \<Rightarrow> nat \<Rightarrow> ('s world, verdict) io" where
  "run_node_tests S code test_js n_tests =
     run_script S (lit ''.js'') [lit ''node''] (code @ [newline, newline] @ test_js) (judge_lines n_tests)"

text \<open>The first import block the source builds is overwritten by the second; this is the second.\<close>

definition import_block :: "ustr list \<Rightarrow> ustr" where
  "import_block imports =
     lit ''import ('' @ [newline] @
     join [newline] (map (\<lambda>i. [L CHR 0x09, quote] @ i @ [quote]) (fromkeys (lit ''fmt'' # imports))) @
     [newline] @ lit '')'' @ [newline]"

definition go_test_program :: "ustr \<Rightarrow> ustr list \<Rightarrow> ustr \<Rightarrow> ustr" where
  "go_test_program fn_code imports test_main =
     lit ''package main'' @ [newline, newline] @ import_block imports @ [newline] @ fn_code @ [newline, newline] @
     lit ''func main() {'' @ test_main @ lit ''}'' @ [newline]"

definition go_missing :: "nat \<Rightarrow> (int \<times> ustr \<times> ustr \<Rightarrow> verdict) \<Rightarrow> int \<times> ustr \<times> ustr \<Rightarrow> verdict" where
  "go_missing n judge = (\<lambda>(rc, out, err). if rc = - 2 then (0, n, [lit ''GO_NOT_FOUND'']) else judge (rc, out, err))"

definition go_run :: "ustr list" where
  "go_run = [lit ''go'', lit ''run'']"

definition run_go_tests :: "'s sandbox \<Rightarrow> ustr \<Rightarrow> ustr list \<Rightarrow> ustr \<Rightarrow> nat \<Rightarrow> ('s world, verdict) io" where
  "run_go_tests S fn_code imports test_main n_tests =
     run_script S (lit ''.go'') go_run (go_test_program fn_code imports test_main) (go_missing n_tests (judge_lines n_tests))"

definition output_detail :: "'s sandbox \<Rightarrow> ustr \<Rightarrow> ustr \<Rightarrow> ustr" where
  "output_detail S out expected =
     (if strip out = strip expected then lit ''PASS''
      else lit ''FAIL: got '' @ py_repr S (strip out) @ lit '' exp '' @ py_repr S (strip expected))"

definition judge_output :: "'s sandbox \<Rightarrow> ustr \<Rightarrow> int \<times> ustr \<times> ustr \<Rightarrow> verdict" where
  "judge_output S expected = (\<lambda>(rc, out, err).
     (if strip out = strip expected then 1 else 0, 1, [output_detail S out expected]))"

definition judge_go_output :: "'s sandbox \<Rightarrow> ustr \<Rightarrow> int \<times> ustr \<times> ustr \<Rightarrow> verdict" where
  "judge_go_output S expected = (\<lambda>(rc, out, err).
     (if strip out = strip expected then 1 else 0, 1,
      [output_detail S out expected @ (if strip err \<noteq> [] then lit '' | stderr: '' @ strip err else [])]))"

definition run_go_program :: "'s sandbox \<Rightarrow> ustr \<Rightarrow> ustr \<Rightarrow> ('s world, verdict) io" where
  "run_go_program S full_program expected_output =
     run_script S (lit ''.go'') go_run full_program (go_missing 1 (judge_go_output S expected_output))"

definition run_python_fim :: "'s sandbox \<Rightarrow> ustr \<Rightarrow> ustr \<Rightarrow> ('s world, verdict) io" where
  "run_python_fim S assembled expected =
     run_script S (lit ''.py'') [lit ''python3''] assembled (judge_output S expected)"

definition run_node_fim :: "'s sandbox \<Rightarrow> ustr \<Rightarrow> ustr \<Rightarrow> ('s world, verdict) io" where
  "run_node_fim S assembled expected =
     run_script S (lit ''.js'') [lit ''node''] assembled (judge_output S expected)"

section \<open>The temporary file\<close>

text \<open>The six kinds of run, and the text of the file each writes.\<close>

datatype job =
    PythonTests ustr "(ustr \<times> ustr) list"
  | NodeTests ustr ustr nat
  | GoTests ustr "ustr list" ustr nat
  | GoProgram ustr ustr
  | PythonFim ustr ustr
  | NodeFim ustr ustr

fun run_job :: "'s sandbox \<Rightarrow> job \<Rightarrow> ('s world, verdict) io" where
  "run_job S (PythonTests c ts) = run_python_tests S c ts"
| "run_job S (NodeTests c t n) = run_node_tests S c t n"
| "run_job S (GoTests c is t n) = run_go_tests S c is t n"
| "run_job S (GoProgram p e) = run_go_program S p e"
| "run_job S (PythonFim a e) = run_python_fim S a e"
| "run_job S (NodeFim a e) = run_node_fim S a e"

fun job_text :: "job \<Rightarrow> ustr" where
  "job_text (PythonTests c ts) = python_harness c ts"
| "job_text (NodeTests c t n) = c @ [newline, newline] @ t"
| "job_text (GoTests c is t n) = go_test_program c is t"
| "job_text (GoProgram p e) = p"
| "job_text (PythonFim a e) = a"
| "job_text (NodeFim a e) = a"

fun job_ext :: "job \<Rightarrow> ustr" where
  "job_ext (PythonTests _ _) = lit ''.py''"
| "job_ext (PythonFim _ _) = lit ''.py''"
| "job_ext (NodeTests _ _ _) = lit ''.js''"
| "job_ext (NodeFim _ _) = lit ''.js''"
| "job_ext _ = lit ''.go''"

fun job_command :: "job \<Rightarrow> ustr list" where
  "job_command (PythonTests _ _) = [lit ''python3'']"
| "job_command (PythonFim _ _) = [lit ''python3'']"
| "job_command (NodeTests _ _ _) = [lit ''node'']"
| "job_command (NodeFim _ _) = [lit ''node'']"
| "job_command _ = go_run"

fun job_judge :: "'s sandbox \<Rightarrow> job \<Rightarrow> int \<times> ustr \<times> ustr \<Rightarrow> verdict" where
  "job_judge S (PythonTests _ ts) = judge_lines (length ts)"
| "job_judge S (NodeTests _ _ n) = judge_lines n"
| "job_judge S (GoTests _ _ _ n) = go_missing n (judge_lines n)"
| "job_judge S (GoProgram _ e) = go_missing 1 (judge_go_output S e)"
| "job_judge S (PythonFim _ e) = judge_output S e"
| "job_judge S (NodeFim _ e) = judge_output S e"

text \<open>The documented behaviour the cleanup relies on: a new name, and processes that leave the files alone.\<close>

definition tidy :: "'s sandbox \<Rightarrow> bool" where
  "tidy S \<longleftrightarrow> (\<forall>ext w. temp_name S ext w \<notin> fst ` set (files w)) \<and>
     (\<forall>cmd w. files (snd (spawn S cmd w)) = files w)"

lemma run_job_script: "run_job S j = run_script S (job_ext j) (job_command j) (job_text j) (job_judge S j)"
  by (cases j) (auto simp: run_python_tests_def run_node_tests_def run_go_tests_def run_go_program_def
      run_python_fim_def run_node_fim_def)

lemma run_process_files:
  assumes "tidy S"
  shows "files (snd (run_process S cmd w)) = files w"
proof -
  obtain p w' where p: "spawn S cmd w = (p, w')" by (cases "spawn S cmd w")
  with assms have "files w' = files w" unfolding tidy_def by (metis snd_conv)
  with p show ?thesis by (cases p) (auto simp: run_process_def)
qed

lemma unlink_last:
  assumes "f \<notin> fst ` set fs" "files w = fs @ [(f, t)]"
  shows "unlink f w = (Inr (), w\<lparr>files := fs\<rparr>)"
proof -
  have "filter (\<lambda>(g, _). g \<noteq> f) fs = fs" using assms(1) by (force simp: filter_id_conv)
  then show ?thesis using assms(2) by (simp add: unlink_def)
qed

lemma run_script_cases:
  assumes "tidy S"
  shows "files (snd (run_script S ext cmd t judge w)) =
      (if encodable t then files w else files w @ [(temp_name S ext w, [])])"
    and "\<not> encodable t \<Longrightarrow> fst (run_script S ext cmd t judge w) = Inl ValueError"
proof -
  let ?f = "temp_name S ext w"
  let ?m = "io_bind (run_process S (cmd @ [?f])) (\<lambda>r. ret (judge r))"
  let ?w = "w\<lparr>files := files w @ [(?f, t)]\<rparr>"
  have f: "?f \<notin> fst ` set (files w)" using assms by (simp add: tidy_def)
  have "files (snd (?m ?w)) = files w @ [(?f, t)]"
    using run_process_files[OF assms, of "cmd @ [?f]" ?w]
    by (auto simp: io_bind_def split: prod.splits sum.splits)
  moreover obtain r w' where m: "?m ?w = (r, w')" by (cases "?m ?w")
  ultimately have "unlink ?f w' = (Inr (), w'\<lparr>files := files w\<rparr>)"
    by (intro unlink_last[OF f, of w' t]) simp
  then have "files (snd (io_finally ?m (unlink ?f) ?w)) = files w"
    by (simp add: io_finally_def m)
  then show "files (snd (run_script S ext cmd t judge w)) =
      (if encodable t then files w else files w @ [(?f, [])])"
    by (simp add: run_script_def io_bind_def[of "write_temp S ext t"] write_temp_def Let_def)
  show "\<not> encodable t \<Longrightarrow> fst (run_script S ext cmd t judge w) = Inl ValueError"
    by (simp add: run_script_def io_bind_def[of "write_temp S ext t"] write_temp_def Let_def)
qed

text \<open>
  C32: no run leaves its temporary file behind, however the process ends, as long as the text can
  be encoded. But the file is created before the protected block begins, so code with a
  surrogate in it, which a JSON reply can carry, makes the run raise and leave an empty file.
\<close>

theorem script_files:
  assumes "tidy S"
  shows "if encodable (job_text j) then files (snd (run_job S j w)) = files w
    else fst (run_job S j w) = Inl ValueError \<and> (\<exists>f. files (snd (run_job S j w)) = files w @ [(f, [])])"
  using run_script_cases[OF assms, where t = "job_text j"] by (simp add: run_job_script)

section \<open>Counting the passes\<close>

definition one_line :: "ustr \<Rightarrow> bool" where
  "one_line v \<longleftrightarrow> v \<noteq> [] \<and> strip v = v \<and> (\<forall>c \<in> set v. \<not> line_break c)"

lemma splitlines_join:
  "vs \<noteq> [] \<Longrightarrow> \<forall>v \<in> set vs. one_line v \<Longrightarrow> splitlines (join [newline] vs) = vs"
proof (induction vs rule: induct_list012)
  case (2 v)
  then show ?case using splitlines_from_last[of v "[]"] by (simp add: splitlines_def one_line_def)
next
  case (3 v u vs)
  then show ?case using splitlines_from_line[of v "[]"] by (simp add: splitlines_def one_line_def)
qed simp

lemma printed_join: "vs \<noteq> [] \<Longrightarrow> printed vs = join [newline] vs @ [newline]"
  by (induction vs rule: induct_list012) (simp_all add: printed_def)

lemma join_ends:
  assumes "vs \<noteq> []" "\<forall>v \<in> set vs. one_line v"
  shows "join [newline] vs \<noteq> [] \<and> hd (join [newline] vs) = hd (hd vs) \<and> last (join [newline] vs) = last (last vs)"
  using assms by (induction vs rule: induct_list012) (auto simp: one_line_def)

lemma strip_printed:
  assumes "vs \<noteq> []" "\<forall>v \<in> set vs. one_line v"
  shows "strip (printed vs) = join [newline] vs"
proof -
  have "one_line (hd vs)" "one_line (last vs)" using assms by auto
  then have "\<not> py_space (hd (hd vs))" "\<not> py_space (last (last vs))"
    using strip_ends[of "hd vs"] strip_ends[of "last vs"] by (auto simp: one_line_def)
  then have "strip (join [newline] vs) = join [newline] vs"
    using join_ends[OF assms] by (intro strip_fix) auto
  then show ?thesis
    using strip_padded[of "[]" "[newline]" "join [newline] vs"] printed_join[OF assms(1)]
    by (simp add: latin_space_def)
qed

lemma passes_printed:
  assumes "vs \<noteq> []" "\<forall>v \<in> set vs. one_line v"
  shows "lines_of (printed vs) [] = vs" "passes (lines_of (printed vs) []) = count_list vs (lit ''PASS'')"
proof -
  show l: "lines_of (printed vs) [] = vs"
    using strip_printed[OF assms] splitlines_join[OF assms] by (simp add: lines_of_def)
  have "filter (\<lambda>l. strip l = lit ''PASS'') vs = filter ((=) (lit ''PASS'')) vs"
    using assms(2) by (intro filter_cong) (auto simp: one_line_def)
  then show "passes (lines_of (printed vs) []) = count_list vs (lit ''PASS'')"
    unfolding l passes_def count_list_eq_length_filter by simp
qed

text \<open>The world the process of a run starts in.\<close>

definition started :: "'s sandbox \<Rightarrow> job \<Rightarrow> 's world \<Rightarrow> 's world" where
  "started S j w = w\<lparr>files := files w @ [(temp_name S (job_ext j) w, job_text j)]\<rparr>"

definition launch :: "'s sandbox \<Rightarrow> job \<Rightarrow> 's world \<Rightarrow> outcome" where
  "launch S j w = fst (spawn S (job_command j @ [temp_name S (job_ext j) w]) (started S j w))"

lemma run_job_judged:
  assumes "tidy S" "encodable (job_text j)" "launch S j w = Exited rc out err"
  shows "fst (run_job S j w) = Inr (job_judge S j (rc, out, err))"
proof -
  let ?f = "temp_name S (job_ext j) w"
  let ?m = "io_bind (run_process S (job_command j @ [?f])) (\<lambda>r. ret (job_judge S j r))"
  obtain w' where s: "spawn S (job_command j @ [?f]) (started S j w) = (Exited rc out err, w')"
    using assms(3) unfolding launch_def by (metis fst_conv surj_pair)
  then have "files w' = files (started S j w)" using assms(1) unfolding tidy_def by (metis snd_conv)
  then have "unlink ?f w' = (Inr (), w'\<lparr>files := files w\<rparr>)"
    using assms(1) by (intro unlink_last) (auto simp: tidy_def started_def)
  then have "fst (io_finally ?m (unlink ?f) (started S j w)) = Inr (job_judge S j (rc, out, err))"
    using s by (simp add: io_finally_def io_bind_def run_process_def)
  then show ?thesis
    using assms(2)
    by (simp add: run_job_script run_script_def io_bind_def[of "write_temp S _ _"] write_temp_def Let_def started_def)
qed

fun counts_lines :: "job \<Rightarrow> nat option" where
  "counts_lines (PythonTests _ ts) = Some (length ts)"
| "counts_lines (NodeTests _ _ n) = Some n"
| "counts_lines (GoTests _ _ _ n) = Some n"
| "counts_lines _ = None"

text \<open>
  C33: the verdict of a run that prints one line for each test is the number of lines that say
  PASS, out of the number of tests, with the lines themselves.
\<close>

theorem passes_counted:
  assumes "tidy S" "encodable (job_text j)" "counts_lines j = Some n"
    and "launch S j w = Exited rc (printed vs) []" "rc \<noteq> - 2"
    and "vs \<noteq> []" "\<forall>v \<in> set vs. one_line v"
  shows "fst (run_job S j w) = Inr (count_list vs (lit ''PASS''), n, vs)"
  using run_job_judged[OF assms(1,2,4)] assms(3,5) passes_printed[OF assms(6,7)]
  by (cases j) (auto simp: judge_lines_def go_missing_def)

text \<open>
  Nothing ties the lines to the tests: code that prints PASS by itself, and then ends the
  process so that the harness never runs, is credited with as many passes as it printed, for
  any number of tests.
\<close>

theorem forged_passes_counted:
  assumes "tidy S" "encodable (job_text j)" "counts_lines j = Some n"
    and "launch S j w = Exited 0 (printed (replicate (Suc k) (lit ''PASS''))) []"
  shows "\<exists>ls. fst (run_job S j w) = Inr (Suc k, n, ls)"
proof -
  have "one_line (lit ''PASS'')" by (simp add: one_line_def strip_fix latin_space_def)
  then have p: "passes (lines_of (printed (replicate (Suc k) (lit ''PASS''))) []) = Suc k"
    using passes_printed(2)[of "replicate (Suc k) (lit ''PASS'')"]
    by (simp add: count_list_eq_length_filter del: replicate_Suc)
  show ?thesis
    using run_job_judged[OF assms(1,2,4)] assms(3) p
    by (cases j) (auto simp: judge_lines_def go_missing_def simp del: replicate_Suc)
qed

text \<open>The runs that compare the output pass their one test exactly when the output is as expected.\<close>

lemma output_compared:
  assumes "tidy S" "encodable a" "launch S (PythonFim a e) w = Exited rc out err"
  shows "\<exists>p ls. fst (run_python_fim S a e w) = Inr (p, 1, ls) \<and> p \<le> 1 \<and> (p = 1 \<longleftrightarrow> strip out = strip e)"
proof -
  have "encodable (job_text (PythonFim a e))" using assms(2) by simp
  from run_job_judged[OF assms(1) this assms(3)] show ?thesis by (simp add: judge_output_def)
qed

section \<open>Examples\<close>

text \<open>A sandbox whose processes print a fixed text; names count the files.\<close>

definition sample_sandbox :: "ustr \<Rightarrow> unit sandbox" where
  "sample_sandbox out =
     \<lparr>temp_name = (\<lambda>ext w. concat (map fst (files w)) @ lit ''t'' @ ext),
      spawn = (\<lambda>cmd w. (Exited 0 out [], w)), py_repr = (\<lambda>s. s)\<rparr>"

lemma name_longer: "f \<in> fst ` set fs \<Longrightarrow> length f \<le> length (concat (map fst fs))"
  by (induction fs) fastforce+

lemma tidy_sample: "tidy (sample_sandbox out)"
proof -
  have False if "concat (map fst fs) @ lit ''t'' @ ext \<in> fst ` set fs" for fs :: "(ustr \<times> ustr) list" and ext
    using name_longer[OF that] by simp
  then show ?thesis by (auto simp: tidy_def sample_sandbox_def)
qed

definition no_files :: "unit world" where
  "no_files = \<lparr>files = [], others = ()\<rparr>"

definition sample_job :: "ustr \<Rightarrow> job" where
  "sample_job code = NodeTests code (lit ''run()'') 2"

theorem script_files_witness:
  "files (snd (run_job (sample_sandbox []) (sample_job (lit ''x'')) no_files)) = files no_files \<and>
   fst (run_job (sample_sandbox []) (sample_job [uchr 56000]) no_files) = Inl ValueError"
proof -
  have e: "encodable (job_text (sample_job (lit ''x'')))" "\<not> encodable (job_text (sample_job [uchr 56000]))"
    by (simp_all add: sample_job_def encodable_def)
  from script_files[OF tidy_sample[of "[]"], of "sample_job (lit ''x'')" no_files]
    script_files[OF tidy_sample[of "[]"], of "sample_job [uchr 56000]" no_files] e
  show ?thesis by (simp only: if_True if_False simp_thms)
qed

lemma launch_sample: "launch (sample_sandbox out) j w = Exited 0 out []"
  by (simp add: launch_def sample_sandbox_def)

theorem passes_counted_witness:
  "fst (run_job (sample_sandbox (printed [lit ''PASS'', lit ''FAIL: 2''])) (sample_job (lit ''x'')) no_files) =
     Inr (1, 2, [lit ''PASS'', lit ''FAIL: 2''])"
proof -
  have "fst (run_job (sample_sandbox (printed [lit ''PASS'', lit ''FAIL: 2''])) (sample_job (lit ''x'')) no_files) =
     Inr (count_list [lit ''PASS'', lit ''FAIL: 2''] (lit ''PASS''), 2, [lit ''PASS'', lit ''FAIL: 2''])"
    by (rule passes_counted[OF tidy_sample _ _ launch_sample])
      (auto simp: sample_job_def encodable_def one_line_def strip_fix latin_space_def)
  then show ?thesis by simp
qed

theorem forged_passes_counted_witness:
  "\<exists>ls. fst (run_job (sample_sandbox (printed (replicate (Suc 9) (lit ''PASS'')))) (sample_job (lit ''x'')) no_files) =
     Inr (Suc 9, 2, ls)"
  by (rule forged_passes_counted[OF tidy_sample _ _ launch_sample]) (simp_all add: sample_job_def encodable_def)

end
