(* ===== verification/BenchTracks.thy ===== *)
theory BenchTracks
  imports BenchContext BenchExtract BenchRun
begin

text \<open>
  The three tracks of the benchmark (\<open>servers/ai-runner/poc/benchmark.py\<close>) and the score made of
  them. The tables of problems are lists of the records below.
\<close>

section \<open>Problems and prompts\<close>

record python_problem =
  py_id :: ustr
  py_prompt :: ustr
  test_cases :: "(ustr \<times> ustr) list"

record node_problem =
  js_id :: ustr
  js_prompt :: ustr
  test_js :: ustr
  js_tests :: nat

record go_problem =
  go_id :: ustr
  go_prompt :: ustr
  go_imports :: "ustr list"
  func_name :: ustr
  test_main :: ustr
  go_tests :: nat

record fim_problem =
  fim_id :: ustr
  before_gap :: ustr
  after_gap :: ustr
  run_template :: ustr
  expected_output :: ustr

definition codegen_messages :: "ustr \<Rightarrow> pyval" where
  "codegen_messages prompt =
     user_message (prompt @ [newline, newline] @ lit ''Return only the function code, no explanation.'')"

definition bugfix_messages_python :: "ustr \<Rightarrow> pyval" where
  "bugfix_messages_python prompt =
     user_message (prompt @ [newline, newline] @ lit ''Return only the fixed function code, no explanation.'')"

definition go_messages :: "ustr \<Rightarrow> pyval" where
  "go_messages prompt =
     user_message (prompt @ [newline, newline] @ lit ''Return only the Go function, no package declaration, no imports.'')"

definition bugfix_messages_js :: "ustr \<Rightarrow> pyval" where
  "bugfix_messages_js prompt =
     user_message (prompt @ [newline, newline] @ lit ''Return only the fixed JavaScript function code, no explanation.'')"

definition bugfix_messages_go :: "ustr \<Rightarrow> pyval" where
  "bugfix_messages_go prompt =
     user_message (prompt @ [newline, newline] @ lit ''Return only the fixed Go function, no package declaration, no imports.'')"

definition refactor_messages_js :: "ustr \<Rightarrow> pyval" where
  "refactor_messages_js prompt =
     user_message (prompt @ [newline, newline] @ lit ''Return only the refactored JavaScript function, no explanation.'')"

definition fim_chat_messages :: "ustr \<Rightarrow> ustr \<Rightarrow> string \<Rightarrow> pyval" where
  "fim_chat_messages prefix_code suffix_code language =
     user_message
       (lit ''Complete the following '' @ lit language @ lit '' code. '' @
        lit ''Output only the missing code that goes in place of the gap, no explanation, no code fences.'' @
        [newline, newline] @ lit ''[CODE BEFORE GAP]'' @ [newline] @ prefix_code @ [newline] @
        lit ''[CODE AFTER GAP]'' @ [newline] @ suffix_code)"

definition fim_native_prompt :: "fim_tokens \<Rightarrow> ustr \<Rightarrow> ustr \<Rightarrow> ustr" where
  "fim_native_prompt tokens prefix_code suffix_code =
     fim_prefix tokens @ prefix_code @ fim_suffix tokens @ suffix_code @ fim_middle tokens"

section \<open>Scoring one problem\<close>

text \<open>An entry of \<open>results["problems"]\<close>, and the summary of a group.\<close>

datatype entry =
    ChatFailed ustr exc
  | Scored ustr string nat nat "ustr list" "ustr option"
  | Filled ustr string bool "ustr list" ustr
  | Skipped ustr string

record tally =
  t_passed :: nat
  t_total :: nat

definition pass_rate :: "nat \<Rightarrow> nat \<Rightarrow> rat" where
  "pass_rate p t = (if t \<noteq> 0 then py_round 3 (of_nat p / of_nat t) else 0)"

text \<open>What an entry quotes, of the reply and the code taken from it.\<close>

definition code_start :: "ustr \<Rightarrow> ustr \<Rightarrow> ustr option" where
  "code_start response code = Some (take 300 code)"

definition no_quote :: "ustr \<Rightarrow> ustr \<Rightarrow> ustr option" where
  "no_quote response code = None"

definition reply_start :: "ustr \<Rightarrow> ustr \<Rightarrow> ustr option" where
  "reply_start response code = Some (take 200 response)"

type_synonym quoting = "ustr \<Rightarrow> ustr \<Rightarrow> ustr option"

text \<open>
  One turn of a group's loop: a chat that raises is recorded and the loop goes on; what raises
  after it ends the track.
\<close>

definition attempt ::
    "'s world net \<Rightarrow> quoting \<Rightarrow> ustr \<Rightarrow> string \<Rightarrow> pyval \<Rightarrow> (ustr \<Rightarrow> ustr) \<Rightarrow> (ustr \<Rightarrow> ('s world, verdict) io) \<Rightarrow> ('s world, entry) io" where
  "attempt E quoted pid language msgs extract run_fn =
     io_bind (except_exception
         (io_bind (chat E msgs 512 (PFloat (lit ''0.0'')) PER_PROBLEM_TIMEOUT) (\<lambda>v. ret (Inr v)))
         (\<lambda>e. ret (Inl e)))
       (\<lambda>answer. case answer of
           Inl e \<Rightarrow> ret (ChatFailed pid e)
         | Inr v \<Rightarrow> io_bind (lift_res (as_text v)) (\<lambda>response.
             io_bind (run_fn (extract response)) (\<lambda>(p, t, ls).
               ret (Scored pid language p t ls (quoted response (extract response))))))"

fun entry_tally :: "entry \<Rightarrow> nat \<times> nat" where
  "entry_tally (Scored _ _ p t _ _) = (p, t)"
| "entry_tally _ = (0, 0)"

definition tally_of :: "entry list \<Rightarrow> tally" where
  "tally_of es = \<lparr>t_passed = sum_list (map (fst \<circ> entry_tally) es), t_total = sum_list (map (snd \<circ> entry_tally) es)\<rparr>"

text \<open>What \<open>extract_code\<close> needs of the character database.\<close>

type_synonym words = "nat \<Rightarrow> bool"

definition python_attempt ::
    "'s world net \<Rightarrow> 's sandbox \<Rightarrow> words \<Rightarrow> quoting \<Rightarrow> (ustr \<Rightarrow> pyval) \<Rightarrow> python_problem \<Rightarrow> ('s world, entry) io" where
  "python_attempt E S wd quoted messages p =
     attempt E quoted (py_id p) ''python'' (messages (py_prompt p)) (\<lambda>r. extract_code wd r ''python'')
       (\<lambda>code. run_python_tests S code (test_cases p))"

definition node_attempt ::
    "'s world net \<Rightarrow> 's sandbox \<Rightarrow> words \<Rightarrow> quoting \<Rightarrow> (ustr \<Rightarrow> pyval) \<Rightarrow> node_problem \<Rightarrow> ('s world, entry) io" where
  "node_attempt E S wd quoted messages p =
     attempt E quoted (js_id p) ''javascript'' (messages (js_prompt p)) (\<lambda>r. extract_code wd r ''javascript'')
       (\<lambda>code. run_node_tests S code (test_js p) (js_tests p))"

definition go_attempt ::
    "'s world net \<Rightarrow> 's sandbox \<Rightarrow> words \<Rightarrow> quoting \<Rightarrow> (ustr \<Rightarrow> pyval) \<Rightarrow> go_problem \<Rightarrow> ('s world, entry) io" where
  "go_attempt E S wd quoted messages p =
     attempt E quoted (go_id p) ''go'' (messages (go_prompt p)) (\<lambda>r. extract_go_function wd r (func_name p))
       (\<lambda>fn_code. run_go_tests S fn_code (go_imports p) (test_main p) (go_tests p))"

text \<open>\<open>subprocess.run(["which", tool]).returncode == 0\<close>.\<close>

definition available :: "'s sandbox \<Rightarrow> string \<Rightarrow> ('s world, bool) io" where
  "available S tool w =
     (case spawn S [lit ''which'', lit tool] w of
        (Exited rc _ _, w') \<Rightarrow> (Inr (rc = 0), w')
      | (TimedOut, w') \<Rightarrow> (Inl TimeoutError, w')
      | (NotFound, w') \<Rightarrow> (Inl OSError, w')
      | (Raised e, w') \<Rightarrow> (Inl e, w'))"

text \<open>A group whose runtime may be missing: then all its tests count, none passed.\<close>

definition optional_group :: "bool \<Rightarrow> ('p \<Rightarrow> ('s world, entry) io) \<Rightarrow> ('p \<Rightarrow> nat) \<Rightarrow> 'p list \<Rightarrow> ('s world, entry list \<times> tally) io" where
  "optional_group runtime try_one tests ps =
     (if runtime then io_bind (for_each try_one ps) (\<lambda>es. ret (es, tally_of es))
      else ret ([], \<lparr>t_passed = 0, t_total = sum_list (map tests ps)\<rparr>))"

definition add_tally :: "tally \<Rightarrow> tally \<Rightarrow> tally" where
  "add_tally a b = \<lparr>t_passed = t_passed a + t_passed b, t_total = t_total a + t_total b\<rparr>"

section \<open>Tracks 1 and 2\<close>

text \<open>The entries, the summary of each group and of the whole, and the whole's pass rate.\<close>

record track_result =
  problems :: "entry list"
  python_group :: tally
  nodejs_group :: tally
  go_group :: tally
  refactoring :: "tally option"
  whole :: tally
  whole_rate :: rat

definition run_track1 ::
    "'s world net \<Rightarrow> 's sandbox \<Rightarrow> words \<Rightarrow> python_problem list \<Rightarrow> node_problem list \<Rightarrow> go_problem list \<Rightarrow>
     ('s world, track_result) io" where
  "run_track1 E S wd TRACK1_PYTHON TRACK1_NODEJS TRACK1_GO =
     io_bind (available S ''node'') (\<lambda>node_available.
     io_bind (available S ''go'') (\<lambda>go_available.
     io_bind (for_each (python_attempt E S wd code_start codegen_messages) TRACK1_PYTHON) (\<lambda>py.
     io_bind (optional_group node_available (node_attempt E S wd code_start codegen_messages) js_tests TRACK1_NODEJS) (\<lambda>(js, js_sum).
     io_bind (optional_group go_available (go_attempt E S wd code_start go_messages) go_tests TRACK1_GO) (\<lambda>(go, go_sum).
       let py_sum = tally_of py; all = add_tally (add_tally py_sum js_sum) go_sum
       in ret \<lparr>problems = py @ js @ go, python_group = py_sum, nodejs_group = js_sum, go_group = go_sum,
               refactoring = None, whole = all, whole_rate = pass_rate (t_passed all) (t_total all)\<rparr>)))))"

definition run_track2 ::
    "'s world net \<Rightarrow> 's sandbox \<Rightarrow> words \<Rightarrow> python_problem list \<Rightarrow> node_problem list \<Rightarrow> go_problem list \<Rightarrow>
     python_problem list \<Rightarrow> node_problem list \<Rightarrow> ('s world, track_result) io" where
  "run_track2 E S wd TRACK2_PYTHON TRACK2_NODEJS TRACK2_GO TRACK2_REFACTOR_PYTHON TRACK2_REFACTOR_NODEJS =
     io_bind (available S ''node'') (\<lambda>node_available.
     io_bind (available S ''go'') (\<lambda>go_available.
     io_bind (for_each (python_attempt E S wd no_quote bugfix_messages_python) TRACK2_PYTHON) (\<lambda>py.
     io_bind (optional_group node_available (node_attempt E S wd no_quote bugfix_messages_js) js_tests TRACK2_NODEJS) (\<lambda>(js, js_sum).
     io_bind (optional_group go_available (go_attempt E S wd no_quote bugfix_messages_go) go_tests TRACK2_GO) (\<lambda>(go, go_sum).
     io_bind (for_each (python_attempt E S wd reply_start bugfix_messages_python) TRACK2_REFACTOR_PYTHON) (\<lambda>rpy.
     io_bind (optional_group node_available (node_attempt E S wd reply_start refactor_messages_js) js_tests TRACK2_REFACTOR_NODEJS) (\<lambda>(rjs, rjs_sum).
       let py_sum = tally_of py; re_sum = add_tally (tally_of rpy) rjs_sum;
           all = add_tally (add_tally (add_tally py_sum js_sum) go_sum) re_sum
       in ret \<lparr>problems = py @ js @ go @ rpy @ rjs, python_group = py_sum, nodejs_group = js_sum, go_group = go_sum,
               refactoring = Some re_sum, whole = all, whole_rate = pass_rate (t_passed all) (t_total all)\<rparr>)))))))"

section \<open>Track 3\<close>

text \<open>\<open>template.replace("{FILL}", middle, 1)\<close>.\<close>

fun replace_first :: "ustr \<Rightarrow> ustr \<Rightarrow> ustr \<Rightarrow> ustr" where
  "replace_first old new [] = (if old = [] then new else [])"
| "replace_first old new (c # s) =
     (if prefix old (c # s) then new @ drop (length old) (c # s) else c # replace_first old new s)"

definition fill :: "ustr \<Rightarrow> ustr \<Rightarrow> ustr" where
  "fill template middle = replace_first (lit ''{FILL}'') middle template"

text \<open>The middle the model gives: by the native prompt, or by chat. What raises here ends the track.\<close>

definition fim_middle_text ::
    "'s world net \<Rightarrow> words \<Rightarrow> fim_tokens option \<Rightarrow> string \<Rightarrow> string \<Rightarrow> fim_problem \<Rightarrow> ('s world, ustr) io" where
  "fim_middle_text E wd tokens label language p =
     (case tokens of
        Some toks \<Rightarrow>
          io_bind (complete E (fim_native_prompt toks (before_gap p) (after_gap p)) 200 (PFloat (lit ''0.0'')) PER_PROBLEM_TIMEOUT)
            (\<lambda>raw. lift_res (bind_res (as_text raw) (\<lambda>t. Inr (strip t))))
      | None \<Rightarrow>
          io_bind (chat E (fim_chat_messages (before_gap p) (after_gap p) label) 200 (PFloat (lit ''0.0'')) PER_PROBLEM_TIMEOUT)
            (\<lambda>reply. lift_res (bind_res (as_text reply) (\<lambda>t.
               Inr (if occurs ticks (strip t) then extract_code wd (strip t) language else strip t)))))"

text \<open>What the three loops of the track carry along: the entries and the two counters.\<close>

record fim_state =
  fim_entries :: "entry list"
  total_pass :: nat
  total_tests :: nat

definition fim_attempt ::
    "'s world net \<Rightarrow> words \<Rightarrow> fim_tokens option \<Rightarrow> string \<Rightarrow> string \<Rightarrow> (ustr \<Rightarrow> ustr \<Rightarrow> ('s world, verdict) io) \<Rightarrow>
     fim_problem \<Rightarrow> fim_state \<Rightarrow> ('s world, fim_state) io" where
  "fim_attempt E wd tokens label language run_fn p st =
     io_bind (fim_middle_text E wd tokens label language p) (\<lambda>middle.
     io_bind (run_fn (fill (run_template p) middle) (expected_output p)) (\<lambda>(p_pass, _, ls).
       ret (st\<lparr>total_pass := total_pass st + p_pass, total_tests := total_tests st + 1,
               fim_entries := fim_entries st @ [Filled (fim_id p) language (p_pass = 1) ls (take 200 middle)]\<rparr>)))"

text \<open>A turn of a loop whose runtime may be missing: the problem is an entry without a result, and a test.\<close>

definition fim_turn ::
    "bool \<Rightarrow> string \<Rightarrow> (fim_problem \<Rightarrow> fim_state \<Rightarrow> ('s world, fim_state) io) \<Rightarrow>
     fim_problem \<Rightarrow> fim_state \<Rightarrow> ('s world, fim_state) io" where
  "fim_turn runtime reason try_one p st =
     (if \<not> runtime
      then ret (st\<lparr>fim_entries := fim_entries st @ [Skipped (fim_id p) reason], total_tests := total_tests st + 1\<rparr>)
      else try_one p st)"

fun for_state :: "('b \<Rightarrow> 'c \<Rightarrow> ('w, 'c) io) \<Rightarrow> 'b list \<Rightarrow> 'c \<Rightarrow> ('w, 'c) io" where
  "for_state f [] st = ret st"
| "for_state f (x # xs) st = io_bind (f x st) (for_state f xs)"

record fim_result =
  fim_native :: bool
  fim_problems :: "entry list"
  fim_passed :: nat
  fim_total :: nat
  fim_rate :: rat

definition run_track3 ::
    "'s world net \<Rightarrow> 's sandbox \<Rightarrow> words \<Rightarrow> model_config \<Rightarrow> fim_problem list \<Rightarrow> fim_problem list \<Rightarrow> fim_problem list \<Rightarrow>
     ('s world, fim_result) io" where
  "run_track3 E S wd cfg TRACK3_PYTHON TRACK3_NODEJS TRACK3_GO =
     (let tokens = fim_tokens cfg in
     io_bind (available S ''node'') (\<lambda>node_available.
     io_bind (available S ''go'') (\<lambda>go_available.
     io_bind (for_state (fim_attempt E wd tokens ''Python'' ''python'' (run_python_fim S)) TRACK3_PYTHON
       \<lparr>fim_entries = [], total_pass = 0, total_tests = 0\<rparr>) (\<lambda>st.
     io_bind (for_state (fim_turn node_available ''node not found''
         (fim_attempt E wd tokens ''JavaScript'' ''javascript'' (run_node_fim S))) TRACK3_NODEJS st) (\<lambda>st.
     io_bind (for_state (fim_turn go_available ''go not found''
         (fim_attempt E wd tokens ''Go'' ''go'' (run_go_program S))) TRACK3_GO st) (\<lambda>st.
       ret \<lparr>fim_native = tokens \<noteq> None, fim_problems = fim_entries st,
            fim_passed = total_pass st, fim_total = total_tests st,
            fim_rate = pass_rate (total_pass st) (total_tests st)\<rparr>))))))"

section \<open>The weighted score\<close>

text \<open>The three rates, 0 for a track that was not run; the throughput's part is left at 0.\<close>

definition compute_weighted_score :: "track_result option \<Rightarrow> track_result option \<Rightarrow> fim_result option \<Rightarrow> rat" where
  "compute_weighted_score t1 t2 t3 =
     (let rate = (\<lambda>t. case t of Some r \<Rightarrow> whole_rate r | None \<Rightarrow> 0);
          rate3 = (case t3 of Some r \<Rightarrow> fim_rate r | None \<Rightarrow> 0)
      in py_round 3 (rate t1 * (30 / 100) + rate t2 * (25 / 100) + rate3 * (15 / 100)))"

section \<open>What the loops return\<close>

lemma for_each_Inr:
  "for_each f xs w = (Inr ys, w') \<Longrightarrow> list_all2 (\<lambda>x y. \<exists>v v'. f x v = (Inr y, v')) xs ys"
proof (induction xs arbitrary: ys w)
  case (Cons x xs)
  then obtain y zs v where "f x w = (Inr y, v)" "for_each f xs v = (Inr zs, w')" "ys = y # zs"
    by (auto simp: io_bind_eq_Inr)
  with Cons.IH[of v zs] show ?case by auto
qed simp

lemma run_script_judged: "run_script S ext cmd t judge w = (Inr v, w') \<Longrightarrow> \<exists>r. v = judge r"
  by (auto simp: run_script_def io_finally_def io_bind_def split: prod.splits sum.splits)

lemma fim_passes:
  "run_python_fim S a e w = (Inr (p, t, ls), w') \<Longrightarrow> p \<le> 1"
  "run_node_fim S a e w = (Inr (p, t, ls), w') \<Longrightarrow> p \<le> 1"
  "run_go_program S a e w = (Inr (p, t, ls), w') \<Longrightarrow> p \<le> 1"
  by (auto simp: run_python_fim_def run_node_fim_def run_go_program_def judge_output_def judge_go_output_def
      go_missing_def dest!: run_script_judged split: prod.splits if_splits)

section \<open>Rates\<close>

lemma py_round_between:
  assumes "of_int a \<le> q * 10 ^ k" "q * 10 ^ k \<le> of_int b"
  shows "of_int a / 10 ^ k \<le> py_round k q \<and> py_round k q \<le> of_int b / 10 ^ k"
proof -
  let ?y = "q * 10 ^ k"
  define m where "m = (if ?y - of_int \<lfloor>?y\<rfloor> < 1 / 2 then \<lfloor>?y\<rfloor> else if 1 / 2 < ?y - of_int \<lfloor>?y\<rfloor> then \<lfloor>?y\<rfloor> + 1
    else if even \<lfloor>?y\<rfloor> then \<lfloor>?y\<rfloor> else \<lfloor>?y\<rfloor> + 1)"
  have m: "py_round k q = of_int m / 10 ^ k" by (simp add: py_round_def Let_def m_def)
  have lo: "a \<le> \<lfloor>?y\<rfloor>" using assms(1) by (simp add: le_floor_iff)
  have hi: "\<lfloor>?y\<rfloor> \<le> b" using assms(2) by linarith
  have "m \<le> b"
  proof (cases "\<lfloor>?y\<rfloor> = b")
    case True
    then have "?y - of_int \<lfloor>?y\<rfloor> < 1 / 2" using assms(2) by linarith
    with hi show ?thesis by (simp add: m_def)
  next
    case False
    with hi show ?thesis by (simp add: m_def)
  qed
  moreover have "a \<le> m" using lo by (simp add: m_def)
  ultimately show ?thesis unfolding m by (simp add: divide_right_mono)
qed

lemma pass_rate_bounds:
  assumes "p \<le> t"
  shows "0 \<le> pass_rate p t \<and> pass_rate p t \<le> 1"
proof (cases "t = 0")
  case False
  define q :: rat where "q = of_nat p / of_nat t"
  have "0 \<le> q" "q \<le> 1" using assms False by (simp_all add: q_def)
  then have "0 \<le> py_round 3 q \<and> py_round 3 q \<le> 1" using py_round_between[of 0 q 3 1000] by simp
  with False show ?thesis by (simp add: pass_rate_def q_def)
qed (simp add: pass_rate_def)

section \<open>Track 3 counts every problem\<close>

fun entry_id :: "entry \<Rightarrow> ustr" where
  "entry_id (ChatFailed i _) = i"
| "entry_id (Scored i _ _ _ _ _) = i"
| "entry_id (Filled i _ _ _ _) = i"
| "entry_id (Skipped i _) = i"

fun right :: "entry \<Rightarrow> bool" where
  "right (Filled _ _ ok _ _) = ok"
| "right _ = False"

text \<open>The invariant of the loops: what is booked after the problems \<open>ps\<close>.\<close>

definition booked :: "fim_problem list \<Rightarrow> fim_state \<Rightarrow> bool" where
  "booked ps st \<longleftrightarrow> map entry_id (fim_entries st) = map fim_id ps \<and> total_tests st = length ps \<and>
     total_pass st = length (filter right (fim_entries st))"

definition books :: "(fim_problem \<Rightarrow> fim_state \<Rightarrow> ('w, fim_state) io) \<Rightarrow> bool" where
  "books f \<longleftrightarrow> (\<forall>ps p st w st' w'. booked ps st \<longrightarrow> f p st w = (Inr st', w') \<longrightarrow> booked (ps @ [p]) st')"

lemma for_state_booked:
  "books f \<Longrightarrow> booked ps st \<Longrightarrow> for_state f qs st w = (Inr st', w') \<Longrightarrow> booked (ps @ qs) st'"
proof (induction qs arbitrary: ps st w)
  case (Cons q qs)
  then obtain st1 v where "f q st w = (Inr st1, v)" and 2: "for_state f qs st1 v = (Inr st', w')"
    by (auto simp: io_bind_eq_Inr)
  with Cons.prems have "booked (ps @ [q]) st1" unfolding books_def by blast
  from Cons.IH[OF Cons.prems(1) this 2] show ?case by simp
qed simp

lemma turn_books:
  assumes "books f"
  shows "books (fim_turn runtime reason f)"
proof -
  have "booked ps st \<Longrightarrow> booked (ps @ [p])
      (st\<lparr>fim_entries := fim_entries st @ [Skipped (fim_id p) reason], total_tests := total_tests st + 1\<rparr>)" for ps p st
    by (simp add: booked_def)
  with assms show ?thesis by (cases runtime) (simp_all add: books_def fim_turn_def)
qed

text \<open>The runners of a filled template share a contract: a template is one test.\<close>

locale template_runner =
  fixes run_fn :: "ustr \<Rightarrow> ustr \<Rightarrow> ('s world, verdict) io"
  assumes one_test: "run_fn a e w = (Inr (p, t, ls), w') \<Longrightarrow> p \<le> 1"
begin

lemma attempt_books: "books (fim_attempt E wd tokens label language run_fn)"
  unfolding books_def
proof (intro allI impI)
  fix ps p st w st' w'
  assume b: "booked ps st" and "fim_attempt E wd tokens label language run_fn p st w = (Inr st', w')"
  then obtain middle v n k ls where "run_fn (fill (run_template p) middle) (expected_output p) v = (Inr (n, k, ls), w')"
    and st': "st' = st\<lparr>total_pass := total_pass st + n, total_tests := total_tests st + 1,
      fim_entries := fim_entries st @ [Filled (fim_id p) language (n = 1) ls (take 200 middle)]\<rparr>"
    by (auto simp: fim_attempt_def io_bind_eq_Inr)
  with one_test have "n \<le> 1" by blast
  then have "n = 0 \<or> n = 1" by linarith
  with b show "booked (ps @ [p]) st'" by (auto simp: st' booked_def)
qed

end

interpretation python_fim: template_runner "run_python_fim S" for S
  by unfold_locales (rule fim_passes(1))

interpretation node_fim: template_runner "run_node_fim S" for S
  by unfold_locales (rule fim_passes(2))

interpretation go_fim: template_runner "run_go_program S" for S
  by unfold_locales (rule fim_passes(3))

text \<open>
  C31: a fill-in-the-middle track that returns has an entry for every problem of the three
  languages, in their order, and counts each as one test whether or not its runtime is there; its
  passes are the entries that passed, and its rate is between 0 and 1.
\<close>

theorem fim_track_counts_every_problem:
  assumes "run_track3 E S wd cfg py js go w = (Inr r, w')"
  shows "map entry_id (fim_problems r) = map fim_id (py @ js @ go) \<and>
    fim_total r = length py + length js + length go \<and> fim_passed r = length (filter right (fim_problems r)) \<and>
    0 \<le> fim_rate r \<and> fim_rate r \<le> 1"
proof -
  obtain na ga a b c v1 v2 v3 v4 where
    1: "for_state (fim_attempt E wd (fim_tokens cfg) ''Python'' ''python'' (run_python_fim S)) py
      \<lparr>fim_entries = [], total_pass = 0, total_tests = 0\<rparr> v1 = (Inr a, v2)"
    and 2: "for_state (fim_turn na ''node not found''
      (fim_attempt E wd (fim_tokens cfg) ''JavaScript'' ''javascript'' (run_node_fim S))) js a v2 = (Inr b, v3)"
    and 3: "for_state (fim_turn ga ''go not found''
      (fim_attempt E wd (fim_tokens cfg) ''Go'' ''go'' (run_go_program S))) go b v3 = (Inr c, v4)"
    and r: "fim_problems r = fim_entries c" "fim_passed r = total_pass c" "fim_total r = total_tests c"
      "fim_rate r = pass_rate (total_pass c) (total_tests c)"
    using assms by (auto simp: run_track3_def Let_def io_bind_eq_Inr)
  have "booked [] \<lparr>fim_entries = [], total_pass = 0, total_tests = 0\<rparr>" by (simp add: booked_def)
  from for_state_booked[OF python_fim.attempt_books this 1]
  have "booked py a" by simp
  from for_state_booked[OF turn_books[OF node_fim.attempt_books] this 2]
  have "booked (py @ js) b" .
  from for_state_booked[OF turn_books[OF go_fim.attempt_books] this 3]
  have c: "booked (py @ js @ go) c" by simp
  then have "length (fim_entries c) = length (py @ js @ go)" unfolding booked_def by (metis length_map)
  then have "total_pass c \<le> total_tests c"
    using c length_filter_le[of right "fim_entries c"] by (simp add: booked_def)
  from pass_rate_bounds[OF this] c show ?thesis by (simp add: r booked_def)
qed

section \<open>Tracks 1 and 2 count the answered ones\<close>

fun answered :: "entry \<Rightarrow> bool" where
  "answered (Scored _ _ _ _ _ _) = True"
| "answered _ = False"

lemma attempt_total:
  assumes "attempt E quoted i language msgs extract run_fn w = (Inr e, w')"
    and "\<And>c v p t ls v'. run_fn c v = (Inr (p, t, ls), v') \<Longrightarrow> t = n"
  shows "snd (entry_tally e) = (if answered e then n else 0)"
proof -
  obtain answer v where a: "(case answer of
      Inl err \<Rightarrow> ret (ChatFailed i err)
    | Inr x \<Rightarrow> io_bind (lift_res (as_text x)) (\<lambda>response.
        io_bind (run_fn (extract response)) (\<lambda>(p, t, ls).
          ret (Scored i language p t ls (quoted response (extract response)))))) v = (Inr e, w')"
    using assms(1) by (auto simp: attempt_def io_bind_eq_Inr)
  show ?thesis
  proof (cases answer)
    case (Inl err)
    with a have "e = ChatFailed i err" by simp
    then show ?thesis by simp
  next
    case (Inr x)
    with a obtain response p t ls u where "run_fn (extract response) u = (Inr (p, t, ls), w')"
      and e: "e = Scored i language p t ls (quoted response (extract response))"
      by (auto simp: io_bind_eq_Inr)
    with assms(2) have "t = n" by blast
    with e show ?thesis by simp
  qed
qed

lemma tests_total:
  "run_python_tests S code ts w = (Inr (p, t, ls), w') \<Longrightarrow> t = length ts"
  "run_node_tests S code tj n w = (Inr (p, t, ls), w') \<Longrightarrow> t = n"
  "run_go_tests S fn imports tm n w = (Inr (p, t, ls), w') \<Longrightarrow> t = n"
  by (auto simp: run_python_tests_def run_node_tests_def run_go_tests_def judge_lines_def go_missing_def
      dest!: run_script_judged split: prod.splits if_splits)

lemma attempts_total:
  "python_attempt E S wd quoted messages p w = (Inr e, w') \<Longrightarrow>
     snd (entry_tally e) = (if answered e then length (test_cases p) else 0)"
  "node_attempt E S wd quoted messages q w = (Inr e, w') \<Longrightarrow> snd (entry_tally e) = (if answered e then js_tests q else 0)"
  "go_attempt E S wd quoted messages g w = (Inr e, w') \<Longrightarrow> snd (entry_tally e) = (if answered e then go_tests g else 0)"
  unfolding python_attempt_def node_attempt_def go_attempt_def by (erule attempt_total, erule tests_total)+

text \<open>The tests of the answered problems, the entries being those of the problems in order.\<close>

definition answered_tests :: "('p \<Rightarrow> nat) \<Rightarrow> 'p list \<Rightarrow> entry list \<Rightarrow> nat" where
  "answered_tests tests ps es = sum_list (map (\<lambda>(p, e). if answered e then tests p else 0) (zip ps es))"

lemma group_total:
  assumes "for_each try_one ps w = (Inr es, w')"
    and "\<And>p v e v'. try_one p v = (Inr e, v') \<Longrightarrow> snd (entry_tally e) = (if answered e then tests p else 0)"
  shows "t_total (tally_of es) = answered_tests tests ps es \<and> length es = length ps"
proof -
  have l: "list_all2 (\<lambda>p e. snd (entry_tally e) = (if answered e then tests p else 0)) ps es"
    using for_each_Inr[OF assms(1)] by (rule list_all2_mono) (use assms(2) in blast)
  then have "t_total (tally_of es) = answered_tests tests ps es"
    by (induction rule: list_all2_induct) (auto simp: tally_of_def answered_tests_def)
  with l show ?thesis by (simp add: list_all2_lengthD)
qed

lemma optional_total:
  assumes "optional_group runtime try_one tests ps w = (Inr (es, s), w')"
    and "\<And>p v e v'. try_one p v = (Inr e, v') \<Longrightarrow> snd (entry_tally e) = (if answered e then tests p else 0)"
  shows "t_total s = (if runtime then answered_tests tests ps es else sum_list (map tests ps)) \<and>
    length es = (if runtime then length ps else 0)"
  using assms(1) group_total[of try_one ps w es w' tests, OF _ assms(2)] by (auto simp: optional_group_def io_bind_eq_Inr split: if_splits)

text \<open>
  C36: the totals of track 1 count the tests of the problems that were answered: a problem whose
  chat raised, a timeout for one, drops out of the rate altogether. The problems of a language
  whose runtime is missing, JavaScript or Go, count in full instead, and the whole is the sum of
  the three languages.
\<close>

theorem track1_total_counts_answered:
  assumes "run_track1 E S wd py js go w = (Inr r, w')"
    and "available S ''node'' w = (Inr na, w1)" "available S ''go'' w1 = (Inr ga, w2)"
  shows "\<exists>es fs gs. problems r = es @ fs @ gs \<and> length es = length py \<and>
    length fs = (if na then length js else 0) \<and> length gs = (if ga then length go else 0) \<and>
    t_total (python_group r) = answered_tests (\<lambda>p. length (test_cases p)) py es \<and>
    t_total (nodejs_group r) = (if na then answered_tests js_tests js fs else sum_list (map js_tests js)) \<and>
    t_total (go_group r) = (if ga then answered_tests go_tests go gs else sum_list (map go_tests go)) \<and>
    t_total (whole r) = t_total (python_group r) + t_total (nodejs_group r) + t_total (go_group r)"
proof -
  obtain a b t c u v2 v3 v4 where
    1: "for_each (python_attempt E S wd code_start codegen_messages) py w2 = (Inr a, v2)"
    and 2: "optional_group na (node_attempt E S wd code_start codegen_messages) js_tests js v2 = (Inr (b, t), v3)"
    and 3: "optional_group ga (go_attempt E S wd code_start go_messages) go_tests go v3 = (Inr (c, u), v4)"
    and r: "problems r = a @ b @ c" "python_group r = tally_of a" "nodejs_group r = t" "go_group r = u"
      "whole r = add_tally (add_tally (tally_of a) t) u"
    using assms by (auto simp: run_track1_def Let_def io_bind_eq_Inr split: prod.splits)
  have "t_total (tally_of a) = answered_tests (\<lambda>p. length (test_cases p)) py a \<and> length a = length py"
    by (rule group_total[OF 1]) (erule attempts_total(1))
  moreover have "t_total t = (if na then answered_tests js_tests js b else sum_list (map js_tests js)) \<and>
      length b = (if na then length js else 0)"
    by (rule optional_total[OF 2]) (erule attempts_total(2))
  moreover have "t_total u = (if ga then answered_tests go_tests go c else sum_list (map go_tests go)) \<and>
      length c = (if ga then length go else 0)"
    by (rule optional_total[OF 3]) (erule attempts_total(3))
  ultimately show ?thesis
    by (intro exI[of _ a] exI[of _ b] exI[of _ c]) (simp add: r add_tally_def)
qed

section \<open>The score\<close>

text \<open>
  The partial score lies between 0 and 0.7, the weights of the three automated tracks, when
  every rate is between 0 and 1.
\<close>

theorem weighted_score_bounds:
  assumes "\<forall>t \<in> {t1, t2}. case t of Some r \<Rightarrow> 0 \<le> whole_rate r \<and> whole_rate r \<le> 1 | None \<Rightarrow> True"
    and "case t3 of Some r \<Rightarrow> 0 \<le> fim_rate r \<and> fim_rate r \<le> 1 | None \<Rightarrow> True"
  shows "0 \<le> compute_weighted_score t1 t2 t3 \<and> compute_weighted_score t1 t2 t3 \<le> 7 / 10"
proof -
  define rate where "rate = (\<lambda>t :: track_result option. case t of Some r \<Rightarrow> whole_rate r | None \<Rightarrow> 0)"
  define rate3 where "rate3 = (case t3 of Some r \<Rightarrow> fim_rate r | None \<Rightarrow> 0)"
  have "0 \<le> rate t \<and> rate t \<le> 1" if "t \<in> {t1, t2}" for t
    using assms(1) that by (auto simp: rate_def split: option.splits)
  then have "0 \<le> rate t1 \<and> rate t1 \<le> 1" "0 \<le> rate t2 \<and> rate t2 \<le> 1" by auto
  moreover have "0 \<le> rate3 \<and> rate3 \<le> 1" using assms(2) by (simp add: rate3_def split: option.splits)
  ultimately show ?thesis
    using py_round_between[of 0 "rate t1 * (30 / 100) + rate t2 * (25 / 100) + rate3 * (15 / 100)" 3 700]
    by (simp add: compute_weighted_score_def Let_def flip: rate_def rate3_def) (linarith?)
qed

section \<open>Examples\<close>

text \<open>A server that refuses every connection, and a host with Python only.\<close>

definition dead_server :: "'s world net" where
  "dead_server =
     \<lparr>http = (\<lambda>m p b t w. (Inl OSError, w)), stream = (\<lambda>_ w. (Inl OSError, w)), shell = (\<lambda>_ w. (Inl OSError, w)),
      clock = (\<lambda>_. 0), sleep = (\<lambda>_ w. w), interp = plain_env, float_of = (\<lambda>_. None), int_of = (\<lambda>_. None),
      model_id = PNone, thinking_budget = 0, ssh_host = []\<rparr>"

definition bare_host :: "'s sandbox" where
  "bare_host =
     \<lparr>temp_name = (\<lambda>ext w. ext), spawn = (\<lambda>cmd w. (Exited 1 [] [], w)), py_repr = (\<lambda>s. s)\<rparr>"

definition sample_python :: python_problem where
  "sample_python = \<lparr>py_id = lit ''p'', py_prompt = lit ''Write f'', test_cases = [(lit ''f()'', lit ''1'')]\<rparr>"

definition sample_node :: node_problem where
  "sample_node = \<lparr>js_id = lit ''n'', js_prompt = lit ''Write g'', test_js = lit ''g()'', js_tests = 3\<rparr>"

definition sample_go :: go_problem where
  "sample_go = \<lparr>go_id = lit ''h'', go_prompt = lit ''Write h'', go_imports = [], func_name = lit ''h'',
     test_main = [], go_tests = 2\<rparr>"

definition sample_fim :: fim_problem where
  "sample_fim = \<lparr>fim_id = lit ''m'', before_gap = [], after_gap = [], run_template = lit ''{FILL}'', expected_output = []\<rparr>"

lemma dead_attempt: "\<exists>e. attempt dead_server quoted pid language msgs extract run_fn w = (Inr (ChatFailed pid e), w)"
  by (simp add: attempt_def chat_def chat_request_def post_def within_limit_def io_bind_def except_exception_def io_catch_def
      dead_server_def split: option.splits)

theorem track1_total_counts_answered_witness:
  "case run_track1 dead_server bare_host (\<lambda>_. False) [sample_python] [sample_node] [sample_go] \<lparr>files = [], others = ()\<rparr> of
     (Inr r, _) \<Rightarrow> t_total (python_group r) = 0 \<and> t_total (nodejs_group r) = 3 \<and> t_total (whole r) = 5 | _ \<Rightarrow> False"
proof -
  let ?w = "\<lparr>files = [], others = ()\<rparr> :: unit world"
  let ?run = "run_track1 dead_server bare_host (\<lambda>_. False) [sample_python] [sample_node] [sample_go] ?w"
  have which: "available bare_host tool ?w = (Inr False, ?w)" for tool by (simp add: available_def bare_host_def)
  obtain e where att: "python_attempt dead_server bare_host (\<lambda>_. False) code_start codegen_messages sample_python ?w =
      (Inr (ChatFailed (lit ''p'') e), ?w)"
    using dead_attempt unfolding python_attempt_def sample_python_def python_problem.simps by blast
  obtain r where r: "?run = (Inr r, ?w)" and p: "problems r = [ChatFailed (lit ''p'') e]"
    by (simp add: run_track1_def which att optional_group_def io_bind_def Let_def)
  from track1_total_counts_answered[OF r which which] obtain es where
    "problems r = es" "t_total (python_group r) = answered_tests (\<lambda>p. length (test_cases p)) [sample_python] es"
    "t_total (nodejs_group r) = 3" "t_total (go_group r) = 2"
    "t_total (whole r) = t_total (python_group r) + t_total (nodejs_group r) + t_total (go_group r)"
    by (auto simp: sample_node_def sample_go_def)
  with p show ?thesis by (auto simp: r answered_tests_def)
qed

theorem fim_track_counts_every_problem_witness:
  "case run_track3 dead_server bare_host (\<lambda>_. False) cfg_phi_4 [] [sample_fim] [sample_fim] \<lparr>files = [], others = ()\<rparr> of
     (Inr r, _) \<Rightarrow> fim_total r = 2 \<and> map entry_id (fim_problems r) = [lit ''m'', lit ''m''] \<and> 0 \<le> fim_rate r | _ \<Rightarrow> False"
proof -
  let ?w = "\<lparr>files = [], others = ()\<rparr> :: unit world"
  have which: "available bare_host tool ?w = (Inr False, ?w)" for tool by (simp add: available_def bare_host_def)
  obtain r where r: "run_track3 dead_server bare_host (\<lambda>_. False) cfg_phi_4 [] [sample_fim] [sample_fim] ?w = (Inr r, ?w)"
    by (simp add: run_track3_def which fim_turn_def io_bind_def Let_def)
  have "fim_id sample_fim = lit ''m''" by (simp add: sample_fim_def)
  with fim_track_counts_every_problem[OF r] show ?thesis by (simp add: r)
qed

theorem weighted_score_bounds_witness: "compute_weighted_score None None None \<le> 7 / 10"
  using weighted_score_bounds[of None None None] by simp

end
