(* ===== verification/BenchEvalplus.thy ===== *)
theory BenchEvalplus
  imports BenchTracks
begin

text \<open>
  The HumanEval+ run of the benchmark (\<open>run_evalplus\<close> in
  \<open>servers/ai-runner/poc/benchmark.py\<close>): how it is found out that evalplus is there, the patch of
  its globals around a run with a thinking model, the choice of the file of samples, and the
  scores read from its output. The evalplus package itself is a parameter; log lines are left out.
\<close>

section \<open>The package\<close>

text \<open>
  The globals of evalplus the code reads and writes: the defaults of \<open>DecoderBase.__init__\<close> and
  the method \<open>OpenAIChatDecoder.codegen\<close>. A method is the package's own or the closure
  \<open>_safe_codegen\<close> over another one.
\<close>

datatype ep_method = Stock | Safe ep_method

record ep_library =
  init_defaults :: "pyval list"
  codegen_method :: ep_method

text \<open>What a call of a method does, given what the package's own method does.\<close>

fun call_method :: "(pyval \<Rightarrow> ('w, pyval list) io) \<Rightarrow> ep_method \<Rightarrow> pyval \<Rightarrow> ('w, pyval list) io" where
  "call_method stock Stock a = stock a"
| "call_method stock (Safe m) a =
     io_bind (call_method stock m a) (\<lambda>os. ret (map (\<lambda>v. case v of PStr s \<Rightarrow> PStr s | _ \<Rightarrow> PStr []) os))"

text \<open>The arguments of \<open>run_codegen\<close> that are not fixed.\<close>

record codegen_args =
  gen_model :: pyval
  gen_samples :: nat
  gen_temperature :: ustr
  gen_base_url :: ustr
  gen_root :: ustr

text \<open>
  The host's state holds the globals of the package beside whatever else there is.
  \<open>run_local\<close> is \<open>subprocess.run\<close> with the output captured and a time limit (the generation is run
  in the directory of the program), \<open>importing\<close> the three
  imports, \<open>in_dir\<close> the names in a directory (none where there is no directory).
\<close>

type_synonym 's host = "('s \<times> ep_library) world"

record 's evalplus_env =
  on_path :: "ustr \<Rightarrow> 's host \<Rightarrow> bool"
  run_local :: "ustr list \<Rightarrow> nat option \<Rightarrow> ('s host, int \<times> ustr \<times> ustr) io"
  importing :: "('s host, unit) io"
  run_codegen :: "codegen_args \<Rightarrow> ('s host, ustr) io"
  path_exists :: "ustr \<Rightarrow> 's host \<Rightarrow> bool"
  in_dir :: "ustr \<Rightarrow> 's host \<Rightarrow> ustr list"
  executable :: ustr
  poc_dir :: ustr
  api_url :: ustr

definition library :: "'s host \<Rightarrow> ep_library" where
  "library w = snd (others w)"

definition set_library :: "ep_library \<Rightarrow> 's host \<Rightarrow> 's host" where
  "set_library l w = w\<lparr>others := (fst (others w), l)\<rparr>"

text \<open>What comes back: the dictionary of the source, one constructor for each of its shapes.\<close>

record ep_scores =
  ep_samples :: nat
  ep_temperature :: ustr
  ep_values :: "(ustr \<times> ustr) list"
  ep_file :: ustr
  ep_seconds :: rat
  ep_tail :: ustr

datatype ep_result =
    NotInstalled
  | CodegenRaised exc
  | CodegenFailed ustr ustr
  | NoSamples ustr
  | Evaluated ep_scores

section \<open>Is it installed?\<close>

definition import_check :: "ustr \<Rightarrow> ustr list" where
  "import_check p = [p, lit ''-c'', lit ''import evalplus'']"

text \<open>\<open>any(which(p) for p in ps if subprocess.run(...).returncode == 0)\<close>.\<close>

fun any_python :: "'s evalplus_env \<Rightarrow> ustr list \<Rightarrow> ('s host, bool) io" where
  "any_python X [] = ret False"
| "any_python X (p # ps) =
     io_bind (run_local X (import_check p) None) (\<lambda>(rc, _, _) w.
       if rc = 0 \<and> on_path X p w then ret True w else any_python X ps w)"

definition installed :: "'s evalplus_env \<Rightarrow> ('s host, bool) io" where
  "installed X w =
     (if on_path X (lit ''evalplus'') w then ret True w else any_python X [lit ''python3'', lit ''python''] w)"

section \<open>The address\<close>

text \<open>
  \<open>f"{parsed.scheme}://{parsed.netloc}/v1"\<close>. Of \<open>urlparse\<close>: the characters it removes, the scheme,
  the network location and the check of its brackets; its checks of bracketed and of non-ASCII
  hosts are left out.
\<close>

definition ascii_letter :: "uchar \<Rightarrow> bool" where
  "ascii_letter c \<longleftrightarrow> 65 \<le> ucode c \<and> ucode c \<le> 90 \<or> 97 \<le> ucode c \<and> ucode c \<le> 122"

definition scheme_char :: "uchar \<Rightarrow> bool" where
  "scheme_char c \<longleftrightarrow> ascii_letter c \<or> ascii_digit c \<or> c \<in> {L CHR ''+'', L CHR ''-'', L CHR ''.''}"

definition clean_url :: "ustr \<Rightarrow> ustr" where
  "clean_url u =
     filter (\<lambda>c. c \<notin> {L CHR 0x09, L CHR 0x0D, newline}) (dropWhile (\<lambda>c. ucode c \<le> 32) u)"

definition lower_ascii :: "uchar \<Rightarrow> uchar" where
  "lower_ascii c = (if 65 \<le> ucode c \<and> ucode c \<le> 90 then uchr (ucode c + 32) else c)"

definition split_scheme :: "ustr \<Rightarrow> ustr \<times> ustr" where
  "split_scheme u =
     (let s = takeWhile (\<lambda>c. c \<noteq> L CHR '':'') u; r = dropWhile (\<lambda>c. c \<noteq> L CHR '':'') u
      in if s \<noteq> [] \<and> r \<noteq> [] \<and> ascii_letter (hd s) \<and> list_all scheme_char s then (map lower_ascii s, tl r) else ([], u))"

definition netloc_of :: "ustr \<Rightarrow> ustr" where
  "netloc_of r =
     (if prefix (lit ''//'') r then takeWhile (\<lambda>c. c \<notin> {L CHR ''/'', L CHR ''?'', L CHR ''#''}) (drop 2 r) else [])"

definition base_url :: "ustr \<Rightarrow> ustr res" where
  "base_url u =
     (case split_scheme (clean_url u) of (scheme, r) \<Rightarrow>
        let n = netloc_of r
        in if (L CHR ''['' \<in> set n) \<noteq> (L CHR '']'' \<in> set n) then Inl ValueError
           else Inr (scheme @ lit ''://'' @ n @ lit ''/v1''))"

section \<open>Generating the samples\<close>

definition EVALPLUS_N :: nat where
  "EVALPLUS_N = 5"

definition EVALPLUS_TEMP :: ustr where
  "EVALPLUS_TEMP = lit ''0.2''"

definition REASONING_MAX_TOKENS :: int where
  "REASONING_MAX_TOKENS = 8192"

definition ep_temp :: "model_config \<Rightarrow> ustr" where
  "ep_temp cfg = (if is_reasoning cfg then lit ''0.001'' else EVALPLUS_TEMP)"

definition ep_n :: "model_config \<Rightarrow> nat" where
  "ep_n cfg = (if is_reasoning cfg then 1 else EVALPLUS_N)"

definition results_root :: "'s evalplus_env \<Rightarrow> ustr" where
  "results_root X = path_join (poc_dir X) (lit ''evalplus_results'')"

definition out_dir :: "'s evalplus_env \<Rightarrow> ustr" where
  "out_dir X = path_join (results_root X) (lit ''humaneval'')"

text \<open>\<open>patched[2] = REASONING_MAX_TOKENS\<close>.\<close>

definition patched_defaults :: "pyval list \<Rightarrow> pyval list res" where
  "patched_defaults ds = (if 2 < length ds then Inr (ds[2 := PInt REASONING_MAX_TOKENS]) else Inl IndexError)"

definition on_library :: "(ep_library \<Rightarrow> ep_library) \<Rightarrow> ('s host, unit) io" where
  "on_library f w = (Inr (), set_library (f (library w)) w)"

text \<open>The patch, the run under it, and its removal on every exit.\<close>

definition patched_codegen :: "'s evalplus_env \<Rightarrow> codegen_args \<Rightarrow> ('s host, ep_result + ustr) io" where
  "patched_codegen X a w0 =
     (let ds = init_defaults (library w0); m = codegen_method (library w0)
      in io_bind (lift_res (patched_defaults ds)) (\<lambda>ds'.
         io_bind (on_library (\<lambda>l. l\<lparr>init_defaults := ds'\<rparr>)) (\<lambda>_.
         io_bind (on_library (\<lambda>l. l\<lparr>codegen_method := Safe m\<rparr>)) (\<lambda>_.
           io_finally
             (except_exception (io_bind (run_codegen X a) (\<lambda>f. ret (Inr f))) (\<lambda>e. ret (Inl (CodegenRaised e))))
             (on_library (\<lambda>l. l\<lparr>init_defaults := ds, codegen_method := m\<rparr>))))) w0)"

definition reasoning_samples :: "'s evalplus_env \<Rightarrow> codegen_args \<Rightarrow> ('s host, ep_result + ustr) io" where
  "reasoning_samples X a w =
     (case importing X w of
        (Inl ImportError, w') \<Rightarrow> (Inr (Inl NotInstalled), w')
      | (Inl e, w') \<Rightarrow> (Inl e, w')
      | (Inr _, w') \<Rightarrow> patched_codegen X a w')"

definition codegen_cmd :: "'s evalplus_env \<Rightarrow> ustr \<Rightarrow> ustr \<Rightarrow> model_config \<Rightarrow> ustr list" where
  "codegen_cmd X mid addr cfg =
     [executable X, lit ''-m'', lit ''evalplus.codegen'', lit ''--model'', mid, lit ''--dataset'', lit ''humaneval'',
      lit ''--backend'', lit ''openai'', lit ''--base-url'', addr, lit ''--n-samples'', nat_text (ep_n cfg),
      lit ''--temperature'', ep_temp cfg]"

text \<open>\<open>model_id.replace("/", "--")\<close>.\<close>

definition safe_model :: "ustr \<Rightarrow> ustr" where
  "safe_model mid = concat (map (\<lambda>c. if c = L CHR ''/'' then lit ''--'' else [c]) mid)"

definition expected_file :: "'s evalplus_env \<Rightarrow> ustr \<Rightarrow> model_config \<Rightarrow> ustr" where
  "expected_file X mid cfg =
     path_join (out_dir X) (safe_model mid @ lit ''_openai_temp_'' @ ep_temp cfg @ lit ''.jsonl'')"

text \<open>
  \<open>glob(join(out_dir, safe_model + "*.jsonl"))\<close> for names without the characters \<open>*?[\<close>; a leading
  dot is only matched by a dot.
\<close>

definition glob_jsonl :: "'s evalplus_env \<Rightarrow> ustr \<Rightarrow> 's host \<Rightarrow> ustr list" where
  "glob_jsonl X stem w =
     map (path_join (out_dir X))
       (filter (\<lambda>n. prefix stem n \<and> ends_with (lit ''.jsonl'') (drop (length stem) n) \<and>
            (prefix (lit ''.'') n \<longrightarrow> prefix (lit ''.'') stem))
         (in_dir X (out_dir X) w))"

definition candidates :: "'s evalplus_env \<Rightarrow> ustr \<Rightarrow> 's host \<Rightarrow> ustr list" where
  "candidates X mid w = filter (\<lambda>c. \<not> occurs (lit ''.raw.'') c) (glob_jsonl X (safe_model mid) w)"

definition last_chars :: "nat \<Rightarrow> ustr \<Rightarrow> ustr" where
  "last_chars n s = drop (length s - n) s"

definition find_samples :: "'s evalplus_env \<Rightarrow> ustr \<Rightarrow> model_config \<Rightarrow> ustr \<Rightarrow> 's host \<Rightarrow> ep_result + ustr" where
  "find_samples X mid cfg out w =
     (if path_exists X (expected_file X mid cfg) w then Inr (expected_file X mid cfg)
      else if candidates X mid w = [] then Inl (NoSamples (last_chars 500 out))
      else Inr (last (sort (candidates X mid w))))"

text \<open>The command line is logged with \<open>' '.join\<close>, which takes strings only.\<close>

definition sampling_samples :: "'s evalplus_env \<Rightarrow> pyval \<Rightarrow> ustr \<Rightarrow> model_config \<Rightarrow> ('s host, ep_result + ustr) io" where
  "sampling_samples X mid addr cfg =
     io_bind (lift_res (case mid of PStr s \<Rightarrow> Inr s | _ \<Rightarrow> Inl TypeError)) (\<lambda>m.
     io_bind (run_local X (codegen_cmd X m addr cfg) (Some 7200)) (\<lambda>(rc, out, err) w.
       (Inr (if rc \<noteq> 0 then Inl (CodegenFailed (last_chars 2000 err) (last_chars 1000 out))
             else find_samples X m cfg out w), w)))"

section \<open>Reading the scores\<close>

definition label_rx :: rx where
  "label_rx =
     rx_seq [Ch (\<lambda>c. c = L CHR ''(''),
       Grp 1 (Alt
         (rx_seq [rx_ilit ''base'', Many py_space, rx_opt (Ch (\<lambda>c. c = L CHR ''+'')), Many py_space, rx_ilit ''extra'',
                  Many py_space, rx_ilit ''test'', rx_opt (rx_ilit ''s'')])
         (rx_seq [rx_ilit ''base'', Many py_space, rx_ilit ''test'', rx_opt (rx_ilit ''s'')])),
       Ch (\<lambda>c. c = L CHR '')'')]"

definition pass_rx :: "unidb \<Rightarrow> rx" where
  "pass_rx d =
     rx_seq [rx_ilit ''pass@'', Grp 1 (rx_many1 (re_digit d)), Many py_space,
       rx_opt (Ch (\<lambda>c. c = L CHR '':'')), Many py_space, Grp 2 (rx_many1 (\<lambda>c. re_digit d c \<or> c = L CHR ''.''))]"

definition label_of :: "unidb \<Rightarrow> ustr \<Rightarrow> ustr" where
  "label_of d g = (if occurs (lit ''extra'') (lower d g) then lit ''base_plus_extra'' else lit ''base'')"

definition score_key :: "ustr \<Rightarrow> ustr \<Rightarrow> ustr" where
  "score_key k label = lit ''pass_at_'' @ k @ lit ''_'' @ label"

type_synonym score_state = "ustr option \<times> (ustr \<times> ustr) list"

definition score_line :: "unidb \<Rightarrow> 'w net \<Rightarrow> score_state \<Rightarrow> ustr \<Rightarrow> score_state res" where
  "score_line d E st line =
     (case re_search label_rx (strip line) of
        Some m \<Rightarrow> Inr (Some (label_of d (group 1 m)), snd st)
      | None \<Rightarrow>
          (case (re_match (pass_rx d) (strip line), fst st) of
             (Some m, Some label) \<Rightarrow>
               (case float_of E (group 2 m) of
                  None \<Rightarrow> Inl ValueError
                | Some v \<Rightarrow> Inr (Some label, dict_set (snd st) (score_key (group 1 m) label) v))
           | _ \<Rightarrow> Inr st))"

fun score_lines :: "unidb \<Rightarrow> 'w net \<Rightarrow> score_state \<Rightarrow> ustr list \<Rightarrow> (ustr \<times> ustr) list res" where
  "score_lines d E st [] = Inr (snd st)"
| "score_lines d E st (l # ls) = bind_res (score_line d E st l) (\<lambda>st'. score_lines d E st' ls)"

definition parse_scores :: "unidb \<Rightarrow> 'w net \<Rightarrow> ustr \<Rightarrow> (ustr \<times> ustr) list res" where
  "parse_scores d E output = score_lines d E (None, []) (splitlines output)"

section \<open>The run\<close>

definition eval_cmd :: "'s evalplus_env \<Rightarrow> ustr \<Rightarrow> ustr list" where
  "eval_cmd X f =
     [executable X, lit ''-m'', lit ''evalplus.evaluate'', lit ''--dataset'', lit ''humaneval'', lit ''--samples'', f]"

definition evaluate :: "'s evalplus_env \<Rightarrow> unidb \<Rightarrow> 's host net \<Rightarrow> model_config \<Rightarrow> ustr \<Rightarrow> rat \<Rightarrow> ('s host, ep_result) io" where
  "evaluate X d E cfg f secs =
     io_bind (run_local X (eval_cmd X f) (Some 3600)) (\<lambda>(rc, out, err).
     io_bind (lift_res (parse_scores d E (out @ err))) (\<lambda>vs.
       ret (Evaluated \<lparr>ep_samples = ep_n cfg, ep_temperature = ep_temp cfg, ep_values = vs, ep_file = f,
         ep_seconds = secs, ep_tail = last_chars 2000 (out @ err)\<rparr>)))"

definition samples_of :: "'s evalplus_env \<Rightarrow> 's host net \<Rightarrow> model_config \<Rightarrow> ustr \<Rightarrow> ('s host, ep_result + ustr) io" where
  "samples_of X E cfg addr =
     (if is_reasoning cfg
      then reasoning_samples X \<lparr>gen_model = model_id E, gen_samples = ep_n cfg, gen_temperature = ep_temp cfg,
             gen_base_url = addr, gen_root = results_root X\<rparr>
      else sampling_samples X (model_id E) addr cfg)"

definition run_evalplus :: "'s evalplus_env \<Rightarrow> unidb \<Rightarrow> 's host net \<Rightarrow> model_config \<Rightarrow> ('s host, ep_result) io" where
  "run_evalplus X d E cfg =
     io_bind (installed X) (\<lambda>there.
       if \<not> there then ret NotInstalled
       else io_bind (lift_res (base_url (api_url X))) (\<lambda>addr w0.
         io_bind (samples_of X E cfg addr) (\<lambda>s w. case s of
             Inl r \<Rightarrow> (Inr r, w)
           | Inr f \<Rightarrow> evaluate X d E cfg f (py_round 1 (clock E w - clock E w0)) w) w0))"

section \<open>The patch\<close>

lemma library_set [simp]: "library (set_library l w) = l"
  by (simp add: library_def set_library_def)

lemma on_library_run: "on_library f w = (Inr (), set_library (f (library w)) w)"
  by (simp add: on_library_def)

definition patch :: "ep_library \<Rightarrow> ep_library" where
  "patch l = \<lparr>init_defaults = (init_defaults l)[2 := PInt REASONING_MAX_TOKENS], codegen_method = Safe (codegen_method l)\<rparr>"

text \<open>The run under the patch as one equation.\<close>

lemma patched_codegen_run:
  "patched_codegen X a w =
     (if length (init_defaults (library w)) \<le> 2 then (Inl IndexError, w)
      else case except_exception (io_bind (run_codegen X a) (\<lambda>f. ret (Inr f))) (\<lambda>e. ret (Inl (CodegenRaised e)))
             (set_library (patch (library w)) w) of
           (r, w') \<Rightarrow> (r, set_library (library w) w'))"
proof -
  have twice: "set_library l (set_library l' v) = set_library l v" for l l' and v :: "'a host"
    by (simp add: set_library_def)
  have fields: "k\<lparr>init_defaults := x, codegen_method := y\<rparr> = \<lparr>init_defaults = x, codegen_method = y\<rparr>" for k :: ep_library and x y
    by simp
  have restored: "\<lparr>init_defaults = init_defaults l, codegen_method = codegen_method l\<rparr> = l" for l :: ep_library
    by simp
  show ?thesis
    by (auto simp: patched_codegen_def patched_defaults_def io_bind_def on_library_def io_finally_def patch_def Let_def
        twice fields restored split: prod.splits sum.splits)
qed

lemma patched_codegen_keeps: "library (snd (patched_codegen X a w)) = library w"
  by (simp add: patched_codegen_run split: prod.splits)

text \<open>What runs outside the process does not reach the globals of the package.\<close>

definition library_private :: "'s evalplus_env \<Rightarrow> bool" where
  "library_private X \<longleftrightarrow>
     (\<forall>cmd t w. library (snd (run_local X cmd t w)) = library w) \<and> (\<forall>w. library (snd (importing X w)) = library w)"

lemma keeps_eq: "(\<And>w. f (snd (m w)) = f w) \<Longrightarrow> keeps (\<lambda>w. f w = x) m"
  by (simp add: keeps_def)

lemma any_python_keeps:
  assumes "library_private X"
  shows "keeps (\<lambda>w. library w = l) (any_python X ps)"
proof (induction ps)
  case (Cons p ps)
  have "keeps (\<lambda>w. library w = l) (run_local X (import_check p) None)"
    using assms by (intro keeps_eq) (simp add: library_private_def)
  then show ?case
    unfolding any_python.simps by (rule keeps_bind) (use Cons in \<open>auto simp: keeps_def split: prod.splits\<close>)
qed (simp add: keeps_def)

lemma samples_keep:
  fixes X :: "'s evalplus_env"
  assumes "library_private X"
  shows "keeps (\<lambda>w. library w = l) (samples_of X E cfg addr)"
proof -
  have run: "keeps (\<lambda>w. library w = l) (run_local X cmd t)" for cmd t
    using assms by (intro keeps_eq) (simp add: library_private_def)
  have "keeps (\<lambda>w. library w = l) (reasoning_samples X a)" for a
    unfolding keeps_def
  proof (intro allI impI)
    fix w :: "'s host" assume l: "library w = l"
    obtain r v where v: "importing X w = (r, v)" by fastforce
    then have "library v = l" using assms l unfolding library_private_def by (metis snd_conv)
    then show "library (snd (reasoning_samples X a w)) = l"
      by (auto simp: reasoning_samples_def v patched_codegen_keeps split: sum.splits exc.splits)
  qed
  moreover have "keeps (\<lambda>w. library w = l) (sampling_samples X m addr cfg)" for m
    unfolding sampling_samples_def
    by (intro keeps_bind keeps_lift run) (auto simp: keeps_def)
  ultimately show ?thesis by (simp add: samples_of_def)
qed

lemma evaluate_keeps: "library_private X \<Longrightarrow> keeps (\<lambda>w. library w = l) (evaluate X d E cfg f t)"
  unfolding evaluate_def
  by (rule keeps_bind, rule keeps_eq) (auto simp: library_private_def intro!: keeps_bind)

lemma run_evalplus_keeps:
  fixes X :: "'s evalplus_env"
  assumes "library_private X"
  shows "keeps (\<lambda>w. library w = l) (run_evalplus X d E cfg)"
proof -
  have "keeps (\<lambda>w. library w = l) (installed X)"
    using any_python_keeps[OF assms, of l "[lit ''python3'', lit ''python'']"]
    unfolding keeps_def installed_def by (auto simp del: any_python.simps)
  moreover have "keeps (\<lambda>w. library w = l) (\<lambda>w0. io_bind (samples_of X E cfg addr)
      (\<lambda>s w. case s of Inl r \<Rightarrow> (Inr r, w) | Inr f \<Rightarrow> evaluate X d E cfg f (py_round 1 (clock E w - clock E w0)) w) w0)" for addr
    unfolding keeps_def
  proof (intro allI impI)
    fix w0 :: "'s host" assume l: "library w0 = l"
    have "keeps (\<lambda>w. library w = l) (io_bind (samples_of X E cfg addr)
        (\<lambda>s w. case s of Inl r \<Rightarrow> (Inr r, w) | Inr f \<Rightarrow> evaluate X d E cfg f (py_round 1 (clock E w - clock E w0)) w))"
      using samples_keep[OF assms, of l] evaluate_keeps[OF assms, of l]
      by (intro keeps_bind) (auto simp: keeps_def split: sum.splits)
    with l show "library (snd (io_bind (samples_of X E cfg addr)
        (\<lambda>s w. case s of Inl r \<Rightarrow> (Inr r, w) | Inr f \<Rightarrow> evaluate X d E cfg f (py_round 1 (clock E w - clock E w0)) w) w0)) = l"
      by (simp add: keeps_def)
  qed
  ultimately show ?thesis unfolding run_evalplus_def by (intro keeps_bind) (auto intro!: keeps_bind)
qed

text \<open>The package's \<open>run_codegen\<close>, replaced by anything where the globals are not patched.\<close>

definition only_patched ::
    "ep_library \<Rightarrow> (codegen_args \<Rightarrow> ('s host, ustr) io) \<Rightarrow> 's evalplus_env \<Rightarrow> 's evalplus_env" where
  "only_patched l other X =
     X\<lparr>run_codegen := (\<lambda>a w. if library w = patch l then run_codegen X a w else other a w)\<rparr>"

lemma only_patched_fields [simp]:
  "on_path (only_patched l h X) = on_path X" "run_local (only_patched l h X) = run_local X"
  "importing (only_patched l h X) = importing X" "path_exists (only_patched l h X) = path_exists X"
  "in_dir (only_patched l h X) = in_dir X" "executable (only_patched l h X) = executable X"
  "poc_dir (only_patched l h X) = poc_dir X" "api_url (only_patched l h X) = api_url X"
  by (simp_all add: only_patched_def)

lemma any_python_only: "any_python (only_patched l h X) ps = any_python X ps"
proof (induction ps)
  case (Cons p ps)
  show ?case unfolding any_python.simps Cons.IH only_patched_fields ..
qed simp

lemma only_patched_ops:
  "installed (only_patched l h X) = installed X" "evaluate (only_patched l h X) = evaluate X"
  "sampling_samples (only_patched l h X) = sampling_samples X" "results_root (only_patched l h X) = results_root X"
  unfolding fun_eq_iff installed_def any_python_only evaluate_def eval_cmd_def sampling_samples_def codegen_cmd_def
    find_samples_def expected_file_def candidates_def glob_jsonl_def out_dir_def results_root_def only_patched_fields
  by simp_all

lemma patched_codegen_only:
  assumes "library w = l"
  shows "patched_codegen (only_patched l h X) a w = patched_codegen X a w"
  using assms by (simp add: patched_codegen_run except_exception_def io_catch_def io_bind_def only_patched_def)

lemma samples_only:
  assumes "library_private X" "library w = l"
  shows "samples_of (only_patched l h X) E cfg addr w = samples_of X E cfg addr w"
proof -
  obtain r v where v: "importing X w = (r, v)" by fastforce
  then have "library v = l" using assms unfolding library_private_def by (metis snd_conv)
  then show ?thesis
    by (simp add: samples_of_def only_patched_ops reasoning_samples_def v patched_codegen_only split: sum.splits exc.splits)
qed

text \<open>
  C26: the patch of the package's globals is in force whenever its \<open>run_codegen\<close> is called (so that
  replacing it by anything else on unpatched globals changes nothing), and after the run, however
  it ends, a result, an error dictionary, an exception or the user's interrupt, the globals are
  what they were, whatever \<open>run_codegen\<close> itself did to them.
\<close>

theorem evalplus_patch_undone:
  assumes "library_private X"
  shows "library (snd (run_evalplus X d E cfg w)) = library w \<and>
    run_evalplus (only_patched (library w) other X) d E cfg w = run_evalplus X d E cfg w"
proof
  show "library (snd (run_evalplus X d E cfg w)) = library w"
    using run_evalplus_keeps[OF assms, of "library w"] by (simp add: keeps_def)
  obtain r v where v: "installed X w = (r, v)" by fastforce
  have "keeps (\<lambda>u. library u = library w) (installed X)"
    using any_python_keeps[OF assms, of "library w" "[lit ''python3'', lit ''python'']"]
    unfolding keeps_def installed_def by (auto simp del: any_python.simps)
  then have "library v = library w" using v unfolding keeps_def by (metis snd_conv)
  then have "samples_of (only_patched (library w) other X) E cfg addr v = samples_of X E cfg addr v" for addr
    by (rule samples_only[OF assms])
  then show "run_evalplus (only_patched (library w) other X) d E cfg w = run_evalplus X d E cfg w"
    unfolding run_evalplus_def only_patched_ops only_patched_fields
    by (auto simp: io_bind_def v split: sum.splits)
qed

section \<open>Without the package\<close>

text \<open>
  When evalplus is not installed the run is meant to be skipped with a note; but on a host that
  has \<open>python3\<close> and no \<open>python\<close> the check itself raises, since it runs every interpreter of its list
  before it looks for it, and the exception leaves \<open>run_evalplus\<close>.
\<close>

theorem evalplus_absent_raises:
  assumes "\<not> on_path X (lit ''evalplus'') w"
    and "run_local X (import_check (lit ''python3'')) None w = (Inr (rc, out, err), w1)" "rc \<noteq> 0"
    and "run_local X (import_check (lit ''python'')) None w1 = (Inl OSError, w2)"
  shows "run_evalplus X d E cfg w = (Inl OSError, w2)"
  using assms by (simp add: run_evalplus_def io_bind_def installed_def)

section \<open>The scores\<close>

definition title :: "bool \<Rightarrow> string" where
  "title extra = (if extra then ''base + extra tests'' else ''base tests'')"

lemma not_x: "\<forall>c \<in> set (lit ''base tests)''). \<not> folds_to CHR ''x'' c"
  by code_simp

lemma takes_tests:
  "takes (Seq (rx_ilit ''test'') (rx_opt (rx_ilit ''s''))) (lit ''tests'') (lit '')'') []"
proof -
  have "takes (rx_opt (rx_ilit ''s'')) (lit ''s'') (lit '')'') []" by (intro takes_opt takes_ilit)
  from takes_seq_plain[OF takes_ilit this, of "''test''"] show ?thesis by (simp del: rx_ilit.simps)
qed

lemma takes_spaced: "takes b v s h \<Longrightarrow> v \<noteq> [] \<Longrightarrow> \<not> py_space (hd v) \<Longrightarrow> takes (Seq (Many py_space) b) (lit '' '' @ v) s h"
  by (rule takes_seq_plain[OF takes_many]) (auto simp: latin_space_def)

lemma takes_title:
  "takes (Alt
         (rx_seq [rx_ilit ''base'', Many py_space, rx_opt (Ch (\<lambda>c. c = L CHR ''+'')), Many py_space, rx_ilit ''extra'',
                  Many py_space, rx_ilit ''test'', rx_opt (rx_ilit ''s'')])
         (rx_seq [rx_ilit ''base'', Many py_space, rx_ilit ''test'', rx_opt (rx_ilit ''s'')]))
     (lit (title extra)) (lit '')'') []"
proof (cases extra)
  case True
  have 1: "takes (Seq (Many py_space) (Seq (rx_ilit ''test'') (rx_opt (rx_ilit ''s'')))) (lit '' '' @ lit ''tests'') (lit '')'') []"
    by (rule takes_spaced[OF takes_tests]) (simp_all add: latin_space_def)
  have 2: "takes (Seq (Many py_space) (Seq (rx_ilit ''extra'') (Seq (Many py_space) (Seq (rx_ilit ''test'') (rx_opt (rx_ilit ''s''))))))
      (lit '' '' @ lit ''extra'' @ lit '' '' @ lit ''tests'') (lit '')'') []"
    by (rule takes_spaced[OF takes_seq_plain[OF takes_ilit 1]]) (simp_all add: latin_space_def)
  have "takes (rx_opt (Ch (\<lambda>c. c = L CHR ''+''))) (lit ''+'') s []" for s
    by (intro takes_opt) (simp add: takes_ch)
  from takes_spaced[OF takes_seq_plain[OF this 2]]
  have "takes (Seq (Many py_space) (Seq (rx_opt (Ch (\<lambda>c. c = L CHR ''+''))) (Seq (Many py_space) (Seq (rx_ilit ''extra'')
      (Seq (Many py_space) (Seq (rx_ilit ''test'') (rx_opt (rx_ilit ''s''))))))))
      (lit '' '' @ lit ''+'' @ lit '' '' @ lit ''extra'' @ lit '' '' @ lit ''tests'') (lit '')'') []"
    by (simp add: latin_space_def del: rx_ilit.simps)
  from takes_alt_left[OF takes_seq_plain[OF takes_ilit this, of "''base''"]] True
  show ?thesis by (simp add: title_def del: rx_ilit.simps)
next
  case False
  let ?a = "rx_seq [rx_ilit ''base'', Many py_space, rx_opt (Ch (\<lambda>c. c = L CHR ''+'')), Many py_space, rx_ilit ''extra'',
                  Many py_space, rx_ilit ''test'', rx_opt (rx_ilit ''s'')]"
  have "needs (folds_to CHR ''x'') ?a"
    using needs_ilit[of "CHR ''x''" "''extra''"] by (simp del: rx_ilit.simps)
  then have no: "mt ?a (i, lit ''base tests'' @ lit '')'', g) = []" for i g
    using not_x by (intro mt_needs) simp_all
  have "takes (Seq (Many py_space) (Seq (rx_ilit ''test'') (rx_opt (rx_ilit ''s'')))) (lit '' '' @ lit ''tests'') (lit '')'') []"
    by (rule takes_spaced[OF takes_tests]) (simp_all add: latin_space_def)
  from takes_seq_plain[OF takes_ilit this, of "''base''"]
  have "takes (rx_seq [rx_ilit ''base'', Many py_space, rx_ilit ''test'', rx_opt (rx_ilit ''s'')]) (lit ''base tests'') (lit '')'') []"
    by (simp del: rx_ilit.simps)
  from takes_alt_right[OF no this] False show ?thesis by (simp add: title_def)
qed

lemma takes_label: "takes label_rx (lit ''('' @ lit (title extra) @ lit '')'') [] [(1, lit (title extra))]"
proof -
  have "takes (Ch (\<lambda>c. c = L CHR '')'')) (lit '')'') [] []" by (simp add: takes_ch)
  with takes_grp[OF takes_title[of extra], of 1]
  have 1: "takes (Seq (Grp 1 (Alt
         (rx_seq [rx_ilit ''base'', Many py_space, rx_opt (Ch (\<lambda>c. c = L CHR ''+'')), Many py_space, rx_ilit ''extra'',
                  Many py_space, rx_ilit ''test'', rx_opt (rx_ilit ''s'')])
         (rx_seq [rx_ilit ''base'', Many py_space, rx_ilit ''test'', rx_opt (rx_ilit ''s'')]))) (Ch (\<lambda>c. c = L CHR '')'')))
      (lit (title extra) @ lit '')'') [] ([] @ [(1, lit (title extra))])"
    by (intro takes_seq) simp_all
  have "takes (Ch (\<lambda>c. c = L CHR ''('')) (lit ''('') s []" for s by (simp add: takes_ch)
  from takes_seq_plain[OF this 1] show ?thesis unfolding label_rx_def rx_seq.simps append_Nil .
qed

text \<open>The label is found after any text without an opening parenthesis.\<close>

lemma label_needs: "needs (\<lambda>c. c = L CHR ''('') label_rx"
  by (simp add: label_rx_def)

lemma label_found:
  assumes "L CHR ''('' \<notin> set gap"
  shows "\<exists>m. re_search label_rx (gap @ lit ''('' @ lit (title extra) @ lit '')'') = Some m \<and> group 1 m = lit (title extra)"
proof -
  have no: "mt label_rx (i, c # v, []) = []" if "c \<noteq> L CHR ''(''" for i c v
    using that unfolding label_rx_def rx_seq.simps by simp
  obtain j ms where "mt label_rx (0 + length gap, lit ''('' @ lit (title extra) @ lit '')'', []) =
      (j, [], [(1, lit (title extra))]) # ms"
    using takes_first[OF takes_label, of "0 + length gap" extra "[]"] by auto
  moreover have "mt label_rx (0 + length u, v @ s, []) = []" if "gap = u @ v" "v \<noteq> []" for u v s
    using that assms by (cases v) (auto intro: no)
  ultimately have "rx_search label_rx False 0 (gap @ lit ''('' @ lit (title extra) @ lit '')'') =
      Some (0 + length gap, j, [], [(1, lit (title extra))])"
    by (rule search_after_gap[rotated])
  then show ?thesis by (simp add: re_search_def group_def)
qed

lemma no_label:
  assumes "L CHR ''('' \<notin> set s"
  shows "re_search label_rx s = None"
proof -
  have "rx_search label_rx False 0 s = None"
  proof (rule search_none)
    fix u v assume "s = u @ v"
    with assms show "mt label_rx (0 + length u, v, []) = []" by (intro mt_needs[OF label_needs]) auto
  qed
  then show ?thesis by (simp add: re_search_def)
qed

text \<open>A line with a value, and what makes a text a value.\<close>

definition value_line :: "nat \<times> ustr \<Rightarrow> ustr" where
  "value_line = (\<lambda>(k, v). lit ''pass@'' @ nat_text k @ lit '':'' @ [L CHR 0x09] @ v)"

definition decimal :: "ustr \<Rightarrow> bool" where
  "decimal v \<longleftrightarrow> v \<noteq> [] \<and> list_all (\<lambda>c. ascii_digit c \<or> c = L CHR ''.'') v"

lemma digit_re: "ascii_digit c \<Longrightarrow> re_digit d c"
  by (cases c) (auto simp: ascii_digit_def)

lemma digit_space: "ascii_digit c \<or> c = L CHR ''.'' \<Longrightarrow> \<not> py_space c"
  by (cases c) (auto simp: ascii_digit_def latin_space_def)

lemma value_matched:
  assumes "decimal v"
  shows "\<exists>m. re_match (pass_rx d) (value_line (k, v)) = Some m \<and> group 1 m = nat_text k \<and> group 2 m = v"
proof -
  let ?k = "nat_text k"
  have v: "v \<noteq> []" "\<forall>c \<in> set v. re_digit d c \<or> c = L CHR ''.''" "\<not> py_space (hd v)"
    using assms digit_re digit_space by (auto simp: decimal_def list_all_iff dest: hd_in_set)
  have k: "\<forall>c \<in> set ?k. re_digit d c" using nat_text_digits digit_re by blast
  have 6: "takes (Grp 2 (rx_many1 (\<lambda>c. re_digit d c \<or> c = L CHR ''.''))) v [] [(2, v)]"
    using v(1,2) by (intro takes_grp takes_many1) simp_all
  have 5: "takes (Seq (Many py_space) (Grp 2 (rx_many1 (\<lambda>c. re_digit d c \<or> c = L CHR ''.'')))) ([L CHR 0x09] @ v) [] [(2, v)]"
    using v(1,3) by (intro takes_seq_plain[OF takes_many 6]) (simp_all add: latin_space_def)
  have "takes (rx_opt (Ch (\<lambda>c. c = L CHR '':''))) (lit '':'') s []" for s by (intro takes_opt) (simp add: takes_ch)
  from takes_seq_plain[OF this 5]
  have "takes (Seq (Many py_space) (Seq (rx_opt (Ch (\<lambda>c. c = L CHR '':''))) (Seq (Many py_space)
      (Grp 2 (rx_many1 (\<lambda>c. re_digit d c \<or> c = L CHR ''.'')))))) ([] @ lit '':'' @ [L CHR 0x09] @ v) [] [(2, v)]"
    by (intro takes_seq_plain[OF takes_many]) (simp_all add: latin_space_def)
  moreover have "takes (Grp 1 (rx_many1 (re_digit d))) ?k (([] @ lit '':'' @ [L CHR 0x09] @ v) @ []) [(1, ?k)]"
    using k by (intro takes_grp takes_many1) (simp_all add: ascii_digit_def)
  ultimately have "takes (Seq (Grp 1 (rx_many1 (re_digit d))) (Seq (Many py_space) (Seq (rx_opt (Ch (\<lambda>c. c = L CHR '':''))) (Seq (Many py_space)
      (Grp 2 (rx_many1 (\<lambda>c. re_digit d c \<or> c = L CHR ''.''))))))) (?k @ [] @ lit '':'' @ [L CHR 0x09] @ v) [] ([(2, v)] @ [(1, ?k)])"
    by (intro takes_seq)
  from takes_seq_plain[OF takes_ilit this, of "''pass@''"]
  have "takes (pass_rx d) (value_line (k, v)) [] [(2, v), (1, ?k)]"
    unfolding pass_rx_def rx_seq.simps value_line_def prod.case by (simp del: rx_ilit.simps)
  from takes_first[OF this, of 0 "[]"] show ?thesis by (auto simp: re_match_def group_def)
qed

text \<open>
  What evalplus prints for one suite: lines of no interest, the title, and a line for each value.
\<close>

type_synonym suite = "ustr list \<times> ustr \<times> bool \<times> (nat \<times> ustr) list"

definition title_line :: "ustr \<Rightarrow> bool \<Rightarrow> ustr" where
  "title_line name extra = name @ lit '' ('' @ lit (title extra) @ lit '')''"

definition suite_lines :: "suite \<Rightarrow> ustr list" where
  "suite_lines = (\<lambda>(noise, name, extra, vs). noise @ [title_line name extra] @ map value_line vs)"

text \<open>Such lines have no parenthesis and do not begin like a value; a name begins with no space.\<close>

definition noise_line :: "ustr \<Rightarrow> bool" where
  "noise_line l \<longleftrightarrow> L CHR ''('' \<notin> set l \<and> (\<forall>c \<in> set l. \<not> line_break c) \<and>
     (strip l = [] \<or> \<not> folds_to CHR ''p'' (hd (strip l)))"

definition plain_name :: "ustr \<Rightarrow> bool" where
  "plain_name n \<longleftrightarrow> n \<noteq> [] \<and> L CHR ''('' \<notin> set n \<and> (\<forall>c \<in> set n. \<not> line_break c) \<and> \<not> py_space (hd n)"

definition suite_ok :: "'w net \<Rightarrow> suite \<Rightarrow> bool" where
  "suite_ok E = (\<lambda>(noise, name, extra, vs).
     list_all noise_line noise \<and> plain_name name \<and> list_all (\<lambda>(k, v). decimal v \<and> float_of E v \<noteq> None) vs)"

text \<open>The scores the suites say.\<close>

definition suite_scores :: "'w net \<Rightarrow> suite \<Rightarrow> (ustr \<times> ustr) list" where
  "suite_scores E = (\<lambda>(noise, name, extra, vs).
     map (\<lambda>(k, v). (score_key (nat_text k) (if extra then lit ''base_plus_extra'' else lit ''base''), the (float_of E v))) vs)"

lemma noise_skipped:
  assumes "noise_line l"
  shows "score_line d E st l = Inr st"
proof -
  have "L CHR ''('' \<notin> set (strip l)" using assms set_strip[of l] by (auto simp: noise_line_def)
  moreover have "mt (pass_rx d) (0, strip l, []) = []"
    using assms unfolding pass_rx_def rx_seq.simps noise_line_def by (cases "strip l") simp_all
  ultimately show ?thesis by (simp add: score_line_def no_label re_match_def)
qed

lemma title_noted:
  assumes "plain_name n"
  shows "score_line d E st (title_line n extra) = Inr (Some (if extra then lit ''base_plus_extra'' else lit ''base''), snd st)"
proof -
  have s: "strip (title_line n extra) = title_line n extra"
    using assms by (intro strip_fix) (auto simp: plain_name_def title_line_def latin_space_def)
  have "title_line n extra = (n @ lit '' '') @ lit ''('' @ lit (title extra) @ lit '')''" by (simp add: title_line_def)
  moreover have "L CHR ''('' \<notin> set (n @ lit '' '')" using assms by (simp add: plain_name_def)
  ultimately obtain m where "re_search label_rx (title_line n extra) = Some m" "group 1 m = lit (title extra)"
    using label_found[of "n @ lit '' ''" extra] by auto
  moreover have "label_of d (lit (title extra)) = (if extra then lit ''base_plus_extra'' else lit ''base'')"
    by (cases extra) (simp_all add: label_of_def title_def lower_def lower_latin_def)
  ultimately show ?thesis by (simp add: score_line_def s)
qed

lemma value_noted:
  assumes "decimal v" "float_of E v = Some r"
  shows "score_line d E (Some lab, sc) (value_line (k, v)) = Inr (Some lab, dict_set sc (score_key (nat_text k) lab) r)"
proof -
  have v: "v \<noteq> []" "\<forall>c \<in> set v. ascii_digit c \<or> c = L CHR ''.''" using assms(1) by (auto simp: decimal_def list_all_iff)
  then have "\<not> py_space (last v)" using digit_space by (meson last_in_set)
  then have s: "strip (value_line (k, v)) = value_line (k, v)"
    using v(1) by (intro strip_fix) (auto simp: value_line_def latin_space_def)
  have "L CHR ''('' \<notin> set (value_line (k, v))"
    using v(2) nat_text_digits[of "L CHR ''(''" k] by (auto simp: value_line_def ascii_digit_def)
  then have "re_search label_rx (value_line (k, v)) = None" by (rule no_label)
  then show ?thesis using value_matched[OF assms(1), of d k] assms(2) by (auto simp: score_line_def s)
qed

lemma noise_run: "list_all noise_line ns \<Longrightarrow> score_lines d E st (ns @ ls) = score_lines d E st ls"
  by (induction ns) (simp_all add: noise_skipped)

definition scored :: "'w net \<Rightarrow> ustr \<Rightarrow> nat \<times> ustr \<Rightarrow> ustr \<times> ustr" where
  "scored E lab = (\<lambda>(k, v). (score_key (nat_text k) lab, the (float_of E v)))"

lemma values_run:
  assumes "list_all (\<lambda>(k, v). decimal v \<and> float_of E v \<noteq> None) vs" "distinct (map fst (sc @ map (scored E lab) vs))"
  shows "score_lines d E (Some lab, sc) (map value_line vs @ ls) = score_lines d E (Some lab, sc @ map (scored E lab) vs) ls"
  using assms
proof (induction vs arbitrary: sc)
  case (Cons x vs)
  obtain k v r where x: "x = (k, v)" "decimal v" "float_of E v = Some r" using Cons.prems(1) by (cases x) auto
  have new: "score_key (nat_text k) lab \<notin> fst ` set sc" using Cons.prems(2) by (auto simp: scored_def x(1))
  have "score_lines d E (Some lab, sc) (map value_line (x # vs) @ ls) =
      score_lines d E (Some lab, sc @ [scored E lab x]) (map value_line vs @ ls)"
    using value_noted[OF x(2,3)] x(3) by (simp add: x(1) dict_set_new[OF new] scored_def)
  with Cons show ?case by simp
qed simp

lemma suite_run:
  assumes "suite_ok E x" "distinct (map fst (sc @ suite_scores E x))"
  shows "\<exists>lab'. score_lines d E (lab, sc) (suite_lines x @ ls) = score_lines d E (lab', sc @ suite_scores E x) ls"
proof -
  obtain noise name extra vs where x: "x = (noise, name, extra, vs)" by (cases x)
  let ?l = "if extra then lit ''base_plus_extra'' else lit ''base''"
  have sc: "suite_scores E x = map (scored E ?l) vs" by (simp add: suite_scores_def scored_def x)
  have "score_lines d E (lab, sc) (suite_lines x @ ls) = score_lines d E (Some ?l, sc) (map value_line vs @ ls)"
    using assms(1) title_noted[of name d E "(lab, sc)" extra] by (simp add: suite_lines_def suite_ok_def x noise_run)
  also have "\<dots> = score_lines d E (Some ?l, sc @ suite_scores E x) ls"
    using assms unfolding sc by (intro values_run) (simp_all add: suite_ok_def x)
  finally show ?thesis by blast
qed

lemma suites_run:
  assumes "\<forall>x \<in> set xs. suite_ok E x" "distinct (map fst (sc @ concat (map (suite_scores E) xs)))"
  shows "\<exists>lab'. score_lines d E (lab, sc) (concat (map suite_lines xs) @ ls) =
    score_lines d E (lab', sc @ concat (map (suite_scores E) xs)) ls"
  using assms
proof (induction xs arbitrary: lab sc)
  case (Cons x xs)
  have "distinct (map fst (sc @ suite_scores E x))" using Cons.prems(2) by auto
  with Cons.prems(1) obtain lab1 where
    "score_lines d E (lab, sc) (suite_lines x @ concat (map suite_lines xs) @ ls) =
     score_lines d E (lab1, sc @ suite_scores E x) (concat (map suite_lines xs) @ ls)"
    using suite_run[of E x sc d lab "concat (map suite_lines xs) @ ls"] by auto
  moreover obtain lab2 where
    "score_lines d E (lab1, sc @ suite_scores E x) (concat (map suite_lines xs) @ ls) =
     score_lines d E (lab2, (sc @ suite_scores E x) @ concat (map (suite_scores E) xs)) ls"
    using Cons.IH[of "sc @ suite_scores E x" lab1] Cons.prems by auto
  ultimately show ?case by (intro exI[of _ lab2]) simp
qed auto

lemma suite_lines_unbroken: "suite_ok E x \<Longrightarrow> l \<in> set (suite_lines x) \<Longrightarrow> c \<in> set l \<Longrightarrow> \<not> line_break c"
proof -
  have digit: "\<not> line_break c" if "ascii_digit c \<or> c = L CHR ''.''" for c
    using that by (cases c) (auto simp: ascii_digit_def)
  have val: "\<not> line_break c" if "decimal v" "c \<in> set (value_line (k, v))" for c k v
    using that nat_text_digits[of c k] digit[of c] by (auto simp: value_line_def decimal_def list_all_iff)
  have tit: "\<not> line_break c" if "plain_name n" "c \<in> set (title_line n e)" for c n e
    using that by (auto simp: title_line_def plain_name_def title_def split: if_splits)
  assume "suite_ok E x" "l \<in> set (suite_lines x)" "c \<in> set l"
  then show ?thesis
    using val tit by (cases x) (fastforce simp: suite_ok_def suite_lines_def list_all_iff noise_line_def)
qed

lemma scores_read_back:
  assumes "\<forall>x \<in> set xs. suite_ok E x" "list_all noise_line rest" "distinct (map fst (concat (map (suite_scores E) xs)))"
  shows "parse_scores d E (printed (concat (map suite_lines xs) @ rest)) = Inr (concat (map (suite_scores E) xs))"
proof -
  have "splitlines (printed (concat (map suite_lines xs) @ rest)) = concat (map suite_lines xs) @ rest"
    using assms(1,2) suite_lines_unbroken by (intro splitlines_printed) (fastforce simp: list_all_iff noise_line_def)
  moreover obtain lab where "score_lines d E (None, []) (concat (map suite_lines xs) @ rest) =
      score_lines d E (lab, concat (map (suite_scores E) xs)) rest"
    using suites_run[of xs E "[]" d None] assms(1,3) by auto
  ultimately show ?thesis using noise_run[OF assms(2), of d E _ "[]"] by (simp add: parse_scores_def)
qed

text \<open>
  C25: a model that does not think is evaluated as follows: when evalplus is on the path, the
  generation exits with zero and the file it is expected to write is there, the evaluation is run on that
  file, and the report holds, in the order printed, the value of every \<open>pass@k\<close> line under the
  title it follows, whatever exit status the evaluation ends with.
\<close>

theorem evalplus_reports_scores:
  assumes "on_path X (lit ''evalplus'') w" "base_url (api_url X) = Inr addr" "\<not> is_reasoning cfg" "model_id E = PStr m"
    and "run_local X (codegen_cmd X m addr cfg) (Some 7200) w = (Inr (0, out, err), w1)"
    and "path_exists X (expected_file X m cfg) w1"
    and "run_local X (eval_cmd X (expected_file X m cfg)) (Some 3600) w1 = (Inr (rc, out2, err2), w2)"
    and "out2 @ err2 = printed (concat (map suite_lines xs) @ rest)"
    and "\<forall>x \<in> set xs. suite_ok E x" "list_all noise_line rest" "distinct (map fst (concat (map (suite_scores E) xs)))"
  shows "run_evalplus X d E cfg w =
    (Inr (Evaluated \<lparr>ep_samples = 5, ep_temperature = lit ''0.2'', ep_values = concat (map (suite_scores E) xs),
       ep_file = expected_file X m cfg, ep_seconds = py_round 1 (clock E w1 - clock E w),
       ep_tail = last_chars 2000 (out2 @ err2)\<rparr>), w2)"
proof -
  have ev: "evaluate X d E cfg (expected_file X m cfg) t w1 =
      (Inr (Evaluated \<lparr>ep_samples = 5, ep_temperature = lit ''0.2'', ep_values = concat (map (suite_scores E) xs),
         ep_file = expected_file X m cfg, ep_seconds = t, ep_tail = last_chars 2000 (out2 @ err2)\<rparr>), w2)" for t
    using assms(3) scores_read_back[OF assms(9-11), of d]
    by (simp add: evaluate_def io_bind_def assms(7,8) ep_n_def ep_temp_def EVALPLUS_N_def EVALPLUS_TEMP_def)
  have "installed X w = (Inr True, w)" using assms(1) by (simp add: installed_def)
  moreover have "samples_of X E cfg addr w = (Inr (Inr (expected_file X m cfg)), w1)"
    using assms(3-6) by (simp add: samples_of_def sampling_samples_def io_bind_def find_samples_def)
  ultimately show ?thesis
    by (simp add: run_evalplus_def io_bind_def assms(2) ev)
qed

section \<open>Examples\<close>

definition stock_library :: ep_library where
  "stock_library = \<lparr>init_defaults = [PInt 1, PFloat (lit ''0.8''), PInt 768], codegen_method = Stock\<rparr>"

definition plain_db :: unidb where
  "plain_db = \<lparr>lower_u = (\<lambda>_. []), digit_u = (\<lambda>_. False)\<rparr>"

definition fresh_host :: "unit host" where
  "fresh_host = \<lparr>files = [], others = ((), stock_library)\<rparr>"

definition sample_suites :: "suite list" where
  "sample_suites =
     [([lit ''Computing expected output...''], lit ''humaneval'', False, [(1, lit ''0.869''), (10, lit ''0.92'')]),
      ([[]], lit ''humaneval+'', True, [(1, lit ''0.826'')])]"

text \<open>A host with evalplus, and one with \<open>python3\<close> alone.\<close>

definition sample_evalplus :: "unit evalplus_env" where
  "sample_evalplus =
     \<lparr>on_path = (\<lambda>p w. p = lit ''evalplus''),
      run_local = (\<lambda>cmd t w. (Inr (0, if cmd ! 2 = lit ''evalplus.evaluate'' then printed (concat (map suite_lines sample_suites)) else [], []), w)),
      importing = ret (), run_codegen = (\<lambda>a w. (Inl RuntimeError, set_library \<lparr>init_defaults = [], codegen_method = Stock\<rparr> w)),
      path_exists = (\<lambda>p w. True), in_dir = (\<lambda>p w. []), executable = lit ''python3'', poc_dir = lit ''poc'',
      api_url = lit ''http://localhost:8001''\<rparr>"

definition bare_python3 :: "unit evalplus_env" where
  "bare_python3 = sample_evalplus\<lparr>on_path := (\<lambda>p w. p = lit ''python3''),
     run_local := (\<lambda>cmd t w. (if hd cmd = lit ''python3'' then Inr (1, [], lit ''ModuleNotFoundError'') else Inl OSError, w))\<rparr>"

definition sample_server :: "unit host net" where
  "sample_server = dead_server\<lparr>model_id := PStr (lit ''org/model''), float_of := Some\<rparr>"

lemma sample_private: "library_private sample_evalplus"
  by (simp add: library_private_def sample_evalplus_def)

theorem evalplus_patch_undone_witness:
  "is_reasoning cfg_qwen3_30b \<and>
   library (snd (run_evalplus sample_evalplus plain_db sample_server cfg_qwen3_30b fresh_host)) = stock_library"
  using evalplus_patch_undone[OF sample_private, of plain_db sample_server cfg_qwen3_30b fresh_host]
  by (simp add: fresh_host_def library_def cfg_qwen3_30b_def)

theorem evalplus_absent_raises_witness:
  "run_evalplus bare_python3 plain_db sample_server cfg_phi_4 fresh_host = (Inl OSError, fresh_host)"
  by (rule evalplus_absent_raises[where rc = 1 and out = "[]" and err = "lit ''ModuleNotFoundError''" and ?w1.0 = fresh_host])
    (simp_all add: bare_python3_def sample_evalplus_def import_check_def)

theorem evalplus_reports_scores_witness:
  "\<exists>r w. run_evalplus sample_evalplus plain_db sample_server cfg_phi_4 fresh_host = (Inr (Evaluated r), w) \<and>
     ep_values r = [(lit ''pass_at_1_base'', lit ''0.869''), (lit ''pass_at_10_base'', lit ''0.92''), (lit ''pass_at_1_base_plus_extra'', lit ''0.826'')] \<and>
     ep_file r = lit ''poc/evalplus_results/humaneval/org--model_openai_temp_0.2.jsonl''"
proof -
  have url: "base_url (api_url sample_evalplus) = Inr (lit ''http://localhost:8001/v1'')"
    by (simp add: sample_evalplus_def) code_simp
  have m: "model_id sample_server = PStr (lit ''org/model'')" "float_of sample_server = Some"
    by (simp_all add: sample_server_def)
  have ok: "\<forall>x \<in> set sample_suites. suite_ok sample_server x" 
    by (simp add: sample_suites_def suite_ok_def m) code_simp
  have sc: "concat (map (suite_scores sample_server) sample_suites) =
      [(lit ''pass_at_1_base'', lit ''0.869''), (lit ''pass_at_10_base'', lit ''0.92''), (lit ''pass_at_1_base_plus_extra'', lit ''0.826'')]"
    by (simp add: sample_suites_def suite_scores_def m) code_simp
  have f: "expected_file sample_evalplus (lit ''org/model'') cfg_phi_4 =
      lit ''poc/evalplus_results/humaneval/org--model_openai_temp_0.2.jsonl''"
    by code_simp
  have run: "run_local sample_evalplus (codegen_cmd sample_evalplus m addr cfg_phi_4) t w = (Inr (0, [], []), w)"
    "run_local sample_evalplus (eval_cmd sample_evalplus f) t w =
      (Inr (0, printed (concat (map suite_lines sample_suites)), []), w)" for m addr t w f
    by (simp_all add: sample_evalplus_def codegen_cmd_def eval_cmd_def)
  have env: "on_path sample_evalplus (lit ''evalplus'') w" "path_exists sample_evalplus f w" "\<not> is_reasoning cfg_phi_4" for f w
    by (simp_all add: sample_evalplus_def cfg_phi_4_def)
  have eq: "printed (concat (map suite_lines sample_suites)) @ [] = printed (concat (map suite_lines sample_suites) @ [])"
    by simp
  show ?thesis
    using evalplus_reports_scores[OF env(1) url env(3) m(1) run(1) env(2) run(2) eq ok, of plain_db fresh_host]
    unfolding sc f by simp
qed

end
