(* ===== verification/BenchProblems.thy ===== *)
theory BenchProblems
  imports BenchTracks
begin

text \<open>
  The problems of the benchmark (\<open>servers/ai-runner/poc/benchmark.py\<close>), table by table as the source
  has them, and facts about them: what a filled template says, and which imports of the Go
  programs a completion has to use.
\<close>

section \<open>The tables\<close>

abbreviation apos :: ustr where
  "apos \<equiv> [L CHR 0x27]"

abbreviation backslash :: ustr where
  "backslash \<equiv> [L CHR 0x5C]"

abbreviation tab :: ustr where
  "tab \<equiv> [L CHR 0x09]"

definition TRACK1_PYTHON :: "python_problem list" where
  "TRACK1_PYTHON =
    [\<lparr>py_id = lit ''py_sum_to_n'',
      py_prompt = lit ''Write a Python function `sum_to_n(n: int) -> int` that returns the sum of all integers from 1 to n inclusive. Handle n=0.'',
      test_cases = 
          [(lit ''sum_to_n(5)'', lit ''15''),
           (lit ''sum_to_n(0)'', lit ''0''),
           (lit ''sum_to_n(100)'', lit ''5050'')]\<rparr>,
     \<lparr>py_id = lit ''py_count_vowels'',
      py_prompt = lit ''Write a Python function `count_vowels(s: str) -> int` that counts vowels (a e i o u, case-insensitive).'',
      test_cases = 
          [(lit ''count_vowels('hello')'', lit ''2''),
           (lit ''count_vowels('rhythm')'', lit ''0''),
           (lit ''count_vowels('AEIOUaeiou')'', lit ''10'')]\<rparr>,
     \<lparr>py_id = lit ''py_is_palindrome'',
      py_prompt = lit ''Write a Python function `is_palindrome(s: str) -> bool` that returns True if s is a palindrome, ignoring case and non-alphanumeric characters.'',
      test_cases = 
          [(lit ''is_palindrome('racecar')'', lit ''True''),
           (lit ''is_palindrome('hello')'', lit ''False''),
           (lit ''is_palindrome('A man a plan a canal Panama')'', lit ''True'')]\<rparr>,
     \<lparr>py_id = lit ''py_flatten_once'',
      py_prompt = lit ''Write a Python function `flatten_once(lst: list) -> list` that flattens exactly one level of nesting. ['' @ lit ''[1,2],[3,[4,5]'' @ lit '']'' @ lit ''] -> [1,2,3,[4,5]'' @ lit ''].'',
      test_cases = 
          [(lit ''flatten_once(['' @ lit ''[1,2],[3,4]'' @ lit ''])'', lit ''[1, 2, 3, 4]''),
           (lit ''flatten_once(['' @ lit ''[1,[2]'' @ lit ''],[3]'' @ lit ''])'', lit ''[1, [2], 3]''),
           (lit ''flatten_once([])'', lit ''[]'')]\<rparr>,
     \<lparr>py_id = lit ''py_running_sum'',
      py_prompt = lit ''Write a Python function `running_sum(nums: list) -> list` that returns the cumulative (running) sum. [1,2,3] -> [1,3,6].'',
      test_cases = 
          [(lit ''running_sum([1,2,3,4])'', lit ''[1, 3, 6, 10]''),
           (lit ''running_sum([5])'', lit ''[5]''),
           (lit ''running_sum([])'', lit ''[]'')]\<rparr>,
     \<lparr>py_id = lit ''py_unique'',
      py_prompt = lit ''Write a Python function `unique(lst: list) -> list` that removes duplicates while preserving the order of first appearances.'',
      test_cases = 
          [(lit ''unique([3,1,2,1,3])'', lit ''[3, 1, 2]''),
           (lit ''unique([])'', lit ''[]''),
           (lit ''unique([1,1,1])'', lit ''[1]'')]\<rparr>,
     \<lparr>py_id = lit ''py_fizzbuzz'',
      py_prompt = lit ''Write a Python function `fizzbuzz(n: int) -> str` returning 'FizzBuzz' if divisible by 3 and 5, 'Fizz' if by 3, 'Buzz' if by 5, else str(n).'',
      test_cases = 
          [(lit ''fizzbuzz(15)'', apos @ lit ''FizzBuzz'' @ apos),
           (lit ''fizzbuzz(9)'', apos @ lit ''Fizz'' @ apos),
           (lit ''fizzbuzz(10)'', apos @ lit ''Buzz'' @ apos),
           (lit ''fizzbuzz(7)'', apos @ lit ''7'' @ apos)]\<rparr>,
     \<lparr>py_id = lit ''py_rotate'',
      py_prompt = lit ''Write a Python function `rotate(lst: list, k: int) -> list` that rotates the list right by k positions. rotate([1,2,3,4,5], 2) -> [4,5,1,2,3].'',
      test_cases = 
          [(lit ''rotate([1,2,3,4,5], 2)'', lit ''[4, 5, 1, 2, 3]''),
           (lit ''rotate([1,2,3], 0)'', lit ''[1, 2, 3]''),
           (lit ''rotate([1,2,3], 3)'', lit ''[1, 2, 3]'')]\<rparr>,
     \<lparr>py_id = lit ''py_group_by_length'',
      py_prompt = lit ''Write a Python function `group_by_length(words: list) -> dict` that groups words by their length. Keys are lengths, values are lists of words in original order.'',
      test_cases = 
          [(lit ''group_by_length(['cat','dog','ox'])'', lit ''{3: ['cat', 'dog'], 2: ['ox']}''),
           (lit ''group_by_length([])'', lit ''{}''),
           (lit ''group_by_length(['a','b','cc'])'', lit ''{1: ['a', 'b'], 2: ['cc']}'')]\<rparr>,
     \<lparr>py_id = lit ''py_is_balanced'',
      py_prompt = lit ''Write a Python function `is_balanced(s: str) -> bool` that checks whether parentheses, brackets, and braces are balanced. Only count (), [], {}.'',
      test_cases = 
          [(lit ''is_balanced('([{}])')'', lit ''True''),
           (lit ''is_balanced('([)]')'', lit ''False''),
           (lit ''is_balanced('' @ apos @ apos @ lit '')'', lit ''True''),
           (lit ''is_balanced('(((')'', lit ''False'')]\<rparr>,
     \<lparr>py_id = lit ''py_two_sum'',
      py_prompt = lit ''Write a Python function `two_sum(nums: list, target: int) -> list` that returns the indices [i, j] of the two numbers that add up to target. Assume exactly one solution exists and i < j.'',
      test_cases = 
          [(lit ''two_sum([2,7,11,15], 9)'', lit ''[0, 1]''),
           (lit ''two_sum([3,2,4], 6)'', lit ''[1, 2]''),
           (lit ''two_sum([3,3], 6)'', lit ''[0, 1]'')]\<rparr>,
     \<lparr>py_id = lit ''py_merge_dicts'',
      py_prompt = lit ''Write a Python function `merge_dicts(a: dict, b: dict) -> dict` that returns a new dict with all keys from both. If a key appears in both, the value from b wins. Do not modify either input.'',
      test_cases = 
          [(lit ''merge_dicts({'a':1,'b':2}, {'b':3,'c':4})'', lit ''{'a': 1, 'b': 3, 'c': 4}''),
           (lit ''merge_dicts({}, {'x':1})'', lit ''{'x': 1}''),
           (lit ''merge_dicts({'a':1}, {})'', lit ''{'a': 1}'')]\<rparr>,
     \<lparr>py_id = lit ''py_chunk'',
      py_prompt = lit ''Write a Python function `chunk(lst: list, n: int) -> list` that splits lst into consecutive chunks of size n. The last chunk may be smaller.'',
      test_cases = 
          [(lit ''chunk([1,2,3,4,5], 2)'', lit ''['' @ lit ''[1, 2], [3, 4], [5]'' @ lit '']''),
           (lit ''chunk([1,2,3], 3)'', lit ''['' @ lit ''[1, 2, 3]'' @ lit '']''),
           (lit ''chunk([], 2)'', lit ''[]'')]\<rparr>,
     \<lparr>py_id = lit ''py_most_common'',
      py_prompt = lit ''Write a Python function `most_common(lst: list)` that returns the most frequently occurring element. If there is a tie, return any one of the tied elements.'',
      test_cases = 
          [(lit ''most_common([1,2,2,3,3,3])'', lit ''3''),
           (lit ''most_common(['a','b','a'])'', apos @ lit ''a'' @ apos),
           (lit ''most_common([42])'', lit ''42'')]\<rparr>,
     \<lparr>py_id = lit ''py_deep_flatten'',
      py_prompt = lit ''Write a Python function `deep_flatten(lst: list) -> list` that recursively flattens a nested list to a single flat list.'',
      test_cases = 
          [(lit ''deep_flatten([1,[2,[3,[4]'' @ lit '']'' @ lit ''],5])'', lit ''[1, 2, 3, 4, 5]''),
           (lit ''deep_flatten([1,2,3])'', lit ''[1, 2, 3]''),
           (lit ''deep_flatten([])'', lit ''[]'')]\<rparr>,
     \<lparr>py_id = lit ''py_zip_to_dict'',
      py_prompt = lit ''Write a Python function `zip_to_dict(keys: list, values: list) -> dict` that pairs each key with its corresponding value. Stop at the shorter list if lengths differ.'',
      test_cases = 
          [(lit ''zip_to_dict(['a','b','c'], [1,2,3])'', lit ''{'a': 1, 'b': 2, 'c': 3}''),
           (lit ''zip_to_dict(['a','b'], [1,2,3])'', lit ''{'a': 1, 'b': 2}''),
           (lit ''zip_to_dict([], [])'', lit ''{}'')]\<rparr>,
     \<lparr>py_id = lit ''py_clamp'',
      py_prompt = lit ''Write a Python function `clamp(value, lo, hi)` that returns value clamped to the range [lo, hi].'',
      test_cases = 
          [(lit ''clamp(5, 1, 10)'', lit ''5''),
           (lit ''clamp(-3, 0, 100)'', lit ''0''),
           (lit ''clamp(200, 0, 100)'', lit ''100'')]\<rparr>,
     \<lparr>py_id = lit ''py_caesar'',
      py_prompt = lit ''Write a Python function `caesar(text: str, shift: int) -> str` that applies a Caesar cipher to all alphabetic characters, wrapping correctly at z/Z. Non-alpha characters pass through unchanged.'',
      test_cases = 
          [(lit ''caesar('Hello, World!', 3)'', apos @ lit ''Khoor, Zruog!'' @ apos),
           (lit ''caesar('xyz', 3)'', apos @ lit ''abc'' @ apos),
           (lit ''caesar('ABC', 1)'', apos @ lit ''BCD'' @ apos)]\<rparr>,
     \<lparr>py_id = lit ''py_word_count'',
      py_prompt = lit ''Write a Python function `word_count(text: str) -> dict` that returns a dict mapping each lowercased word (split on whitespace) to its count.'',
      test_cases = 
          [(lit ''word_count('the cat sat on the mat')'', lit ''{'the': 2, 'cat': 1, 'sat': 1, 'on': 1, 'mat': 1}''),
           (lit ''word_count('' @ apos @ apos @ lit '')'', lit ''{}''),
           (lit ''word_count('one one ONE')'', lit ''{'one': 3}'')]\<rparr>,
     \<lparr>py_id = lit ''py_transpose'',
      py_prompt = lit ''Write a Python function `transpose(matrix: list) -> list` that returns the transpose of a 2D list. Assume all rows have equal length.'',
      test_cases = 
          [(lit ''transpose(['' @ lit ''[1,2,3],[4,5,6]'' @ lit ''])'', lit ''['' @ lit ''[1, 4], [2, 5], [3, 6]'' @ lit '']''),
           (lit ''transpose(['' @ lit ''[1,2],[3,4],[5,6]'' @ lit ''])'', lit ''['' @ lit ''[1, 3, 5], [2, 4, 6]'' @ lit '']''),
           (lit ''transpose(['' @ lit ''[1]'' @ lit ''])'', lit ''['' @ lit ''[1]'' @ lit '']'')]\<rparr>]"

definition TRACK1_NODEJS :: "node_problem list" where
  "TRACK1_NODEJS =
    [\<lparr>js_id = lit ''js_chunk'',
      js_prompt = lit ''Write a JavaScript function `chunkArray(arr, size)` that splits an array into chunks of the given size. The last chunk may be smaller.'',
      test_js = newline # printed
          [lit ''const tests = ['',
           lit ''  ['' @ lit ''['' @ lit ''[1,2,3,4,5], 2],  ['' @ lit ''[1,2],[3,4],[5]'' @ lit '']'' @ lit ''],'',
           lit ''  ['' @ lit ''['' @ lit ''[], 3],           []'' @ lit ''],'',
           lit ''  ['' @ lit ''['' @ lit ''[1,2,3], 3],      ['' @ lit ''[1,2,3]'' @ lit '']'' @ lit ''],'',
           lit ''];'',
           lit ''let ok = 0;'',
           lit ''for (const [args, exp] of tests) {'',
           lit ''  const got = chunkArray(...args);'',
           lit ''  if (JSON.stringify(got) === JSON.stringify(exp)) { console.log('PASS'); ok++; }'',
           lit ''  else console.log(`FAIL: got ${JSON.stringify(got)} expected ${JSON.stringify(exp)}`);'',
           lit ''}''],
      js_tests = 3\<rparr>,
     \<lparr>js_id = lit ''js_groupby'',
      js_prompt = lit ''Write a JavaScript function `groupByKey(arr, key)` that groups an array of objects by the value of a given key. Returns an object where each key maps to an array of matching objects.'',
      test_js = newline # printed
          [lit ''const items = [{t:'a',v:1},{t:'b',v:2},{t:'a',v:3}];'',
           lit ''const got = groupByKey(items, 't');'',
           lit ''const pass = JSON.stringify(got['a']) === JSON.stringify([{t:'a',v:1},{t:'a',v:3}])'',
           lit ''          && JSON.stringify(got['b']) === JSON.stringify([{t:'b',v:2}]);'',
           lit ''console.log(pass ? 'PASS' : 'FAIL: ' + JSON.stringify(got));'',
           lit ''const got2 = groupByKey([], 'x');'',
           lit ''console.log(JSON.stringify(got2) === '{}' ? 'PASS' : 'FAIL empty');''],
      js_tests = 2\<rparr>,
     \<lparr>js_id = lit ''js_flatten'',
      js_prompt = lit ''Write a JavaScript function `deepFlatten(arr)` that recursively flattens a nested array to a single level.'',
      test_js = newline # printed
          [lit ''const tests = ['',
           lit ''  ['' @ lit ''[1,[2,[3,[4]'' @ lit '']'' @ lit ''],5],  [1,2,3,4,5]'' @ lit ''],'',
           lit ''  ['' @ lit ''[],                 []'' @ lit ''],'',
           lit ''  ['' @ lit ''['' @ lit ''[1,2],[3]'' @ lit ''],        [1,2,3]'' @ lit ''],'',
           lit ''];'',
           lit ''let ok = 0;'',
           lit ''for (const [input, exp] of tests) {'',
           lit ''  const got = deepFlatten(input);'',
           lit ''  if (JSON.stringify(got) === JSON.stringify(exp)) { console.log('PASS'); ok++; }'',
           lit ''  else console.log(`FAIL: got ${JSON.stringify(got)} expected ${JSON.stringify(exp)}`);'',
           lit ''}''],
      js_tests = 3\<rparr>,
     \<lparr>js_id = lit ''js_compact'',
      js_prompt = lit ''Write a JavaScript function `compact(arr)` that removes all falsy values (false, null, 0, '' @ apos @ apos @ lit '', undefined, NaN) from an array.'',
      test_js = newline # printed
          [lit ''const tests = ['',
           lit ''  ['' @ lit ''[0,1,false,2,'' @ apos @ apos @ lit '',3],  [1,2,3]'' @ lit ''],'',
           lit ''  ['' @ lit ''[null,undefined,NaN],[],],'',
           lit ''  ['' @ lit ''[1,'a',true],        [1,'a',true]'' @ lit ''],'',
           lit ''];'',
           lit ''let ok = 0;'',
           lit ''for (const [input, exp] of tests) {'',
           lit ''  const got = compact(input);'',
           lit ''  if (JSON.stringify(got) === JSON.stringify(exp)) { console.log('PASS'); ok++; }'',
           lit ''  else console.log(`FAIL: got ${JSON.stringify(got)} exp ${JSON.stringify(exp)}`);'',
           lit ''}''],
      js_tests = 3\<rparr>,
     \<lparr>js_id = lit ''js_parse_qs'',
      js_prompt = lit ''Write a JavaScript function `parseQueryString(qs)` that parses a query string (without the leading ?) into a plain object. Example: 'a=1&b=hello' -> {a:'1', b:'hello'}. Keys with no value map to '' @ apos @ apos @ lit ''.'',
      test_js = newline # printed
          [lit ''const t1 = parseQueryString('a=1&b=hello');'',
           lit ''console.log(t1.a === '1' && t1.b === 'hello' ? 'PASS' : 'FAIL t1: ' + JSON.stringify(t1));'',
           lit ''const t2 = parseQueryString('' @ apos @ apos @ lit '');'',
           lit ''console.log(JSON.stringify(t2) === '{}' ? 'PASS' : 'FAIL t2: ' + JSON.stringify(t2));'',
           lit ''const t3 = parseQueryString('x=foo%20bar');'',
           lit ''console.log(t3.x === 'foo bar' ? 'PASS' : 'FAIL t3: ' + JSON.stringify(t3));''],
      js_tests = 3\<rparr>,
     \<lparr>js_id = lit ''js_deep_clone'',
      js_prompt = lit ''Write a JavaScript function `deepClone(obj)` that returns a deep clone of a plain JSON-serialisable object or array. Modifying the clone must not affect the original.'',
      test_js = newline # printed
          [lit ''const orig = {a: 1, b: {c: 2, d: [3, 4]}};'',
           lit ''const clone = deepClone(orig);'',
           lit ''clone.b.c = 99;'',
           lit ''clone.b.d.push(5);'',
           lit ''console.log(orig.b.c === 2 ? 'PASS' : 'FAIL: orig.b.c mutated to ' + orig.b.c);'',
           lit ''console.log(orig.b.d.length === 2 ? 'PASS' : 'FAIL: orig.b.d mutated to ' + JSON.stringify(orig.b.d));'',
           lit ''const arr = deepClone([1,[2,3],4]);'',
           lit ''arr[1].push(99);'',
           lit ''console.log(JSON.stringify([1,[2,3],4]) === '[1,[2,3],4]' ? 'PASS' : 'FAIL: source array mutated');''],
      js_tests = 3\<rparr>,
     \<lparr>js_id = lit ''js_sum_nested'',
      js_prompt = lit ''Write a JavaScript function `sumValues(obj)` that sums all numeric values in a plain object (one level deep). Non-numeric values are ignored.'',
      test_js = newline # printed
          [lit ''console.log(sumValues({a:1, b:2, c:3}) === 6 ? 'PASS' : 'FAIL basic: ' + sumValues({a:1,b:2,c:3}));'',
           lit ''console.log(sumValues({x:10, y:'hello', z:5}) === 15 ? 'PASS' : 'FAIL mixed: ' + sumValues({x:10,y:'hello',z:5}));'',
           lit ''console.log(sumValues({}) === 0 ? 'PASS' : 'FAIL empty: ' + sumValues({}));''],
      js_tests = 3\<rparr>,
     \<lparr>js_id = lit ''js_truncate'',
      js_prompt = lit ''Write a JavaScript function `truncate(str, maxLen)` that returns the string truncated to maxLen characters with '...' appended if it exceeds maxLen. Return the string unchanged if it fits.'',
      test_js = newline # printed
          [lit ''console.log(truncate('Hello, World!', 5) === 'Hello...' ? 'PASS' : 'FAIL long: ' + truncate('Hello, World!', 5));'',
           lit ''console.log(truncate('Hi', 10) === 'Hi' ? 'PASS' : 'FAIL short: ' + truncate('Hi', 10));'',
           lit ''console.log(truncate('exact', 5) === 'exact' ? 'PASS' : 'FAIL exact: ' + truncate('exact', 5));''],
      js_tests = 3\<rparr>]"

definition TRACK1_GO :: "go_problem list" where
  "TRACK1_GO =
    [\<lparr>go_id = lit ''go_reverse_string'',
      go_prompt = lit ''Write a Go function `ReverseString(s string) string` that reverses a UTF-8 string by rune.'',
      go_imports = [],
      func_name = lit ''ReverseString'',
      test_main = newline # printed
          [lit ''    tests := []struct{ in, want string }{'',
           lit ''        {\"hello\", \"olleh\"},'',
           lit ''        {\"\", \"\"},'',
           lit ''        {\"ab\", \"ba\"},'',
           lit ''        {\"caf'' @ [uchr 233] @ lit ''\", \"'' @ [uchr 233] @ lit ''fac\"},'',
           lit ''    }'',
           lit ''    for _, tt := range tests {'',
           lit ''        got := ReverseString(tt.in)'',
           lit ''        if got == tt.want {'',
           lit ''            fmt.Println(\"PASS\")'',
           lit ''        } else {'',
           lit ''            fmt.Printf(\"FAIL: got %q want %q'' @ backslash @ lit ''n\", got, tt.want)'',
           lit ''        }'',
           lit ''    }''],
      go_tests = 4\<rparr>,
     \<lparr>go_id = lit ''go_word_frequency'',
      go_prompt = lit ''Write a Go function `WordFrequency(s string) map[string]int` that returns a count of each word (split on whitespace, case-insensitive).'',
      go_imports = [lit ''strings''],
      func_name = lit ''WordFrequency'',
      test_main = newline # printed
          [lit ''    freq := WordFrequency(\"the cat sat on the mat the cat\")'',
           lit ''    if freq[\"the\"] == 3 && freq[\"cat\"] == 2 && freq[\"sat\"] == 1 {'',
           lit ''        fmt.Println(\"PASS\")'',
           lit ''    } else {'',
           lit ''        fmt.Printf(\"FAIL: %v'' @ backslash @ lit ''n\", freq)'',
           lit ''    }'',
           lit ''    empty := WordFrequency(\"\")'',
           lit ''    if len(empty) == 0 {'',
           lit ''        fmt.Println(\"PASS\")'',
           lit ''    } else {'',
           lit ''        fmt.Printf(\"FAIL empty: %v'' @ backslash @ lit ''n\", empty)'',
           lit ''    }''],
      go_tests = 2\<rparr>,
     \<lparr>go_id = lit ''go_is_palindrome'',
      go_prompt = lit ''Write a Go function `IsPalindrome(s string) bool` that returns true if s is a palindrome ignoring case and non-alphanumeric characters.'',
      go_imports = [lit ''strings'', lit ''unicode''],
      func_name = lit ''IsPalindrome'',
      test_main = newline # printed
          [lit ''    if IsPalindrome(\"racecar\") { fmt.Println(\"PASS\") } else { fmt.Println(\"FAIL racecar\") }'',
           lit ''    if !IsPalindrome(\"hello\")  { fmt.Println(\"PASS\") } else { fmt.Println(\"FAIL hello\") }'',
           lit ''    if IsPalindrome(\"A man a plan a canal Panama\") { fmt.Println(\"PASS\") } else { fmt.Println(\"FAIL panama\") }''],
      go_tests = 3\<rparr>,
     \<lparr>go_id = lit ''go_max_slice'',
      go_prompt = lit ''Write a Go function `MaxSlice(nums []int) (int, bool)` that returns the maximum value and true. Returns (0, false) for an empty slice.'',
      go_imports = [],
      func_name = lit ''MaxSlice'',
      test_main = newline # printed
          [lit ''    if v, ok := MaxSlice([]int{3,1,4,1,5,9,2,6}); ok && v == 9 {'',
           lit ''        fmt.Println(\"PASS\")'',
           lit ''    } else {'',
           lit ''        fmt.Printf(\"FAIL: got %d %v'' @ backslash @ lit ''n\", v, ok)'',
           lit ''    }'',
           lit ''    if _, ok := MaxSlice([]int{}); !ok {'',
           lit ''        fmt.Println(\"PASS\")'',
           lit ''    } else {'',
           lit ''        fmt.Println(\"FAIL empty\")'',
           lit ''    }'',
           lit ''    if v, ok := MaxSlice([]int{-3,-1,-4}); ok && v == -1 {'',
           lit ''        fmt.Println(\"PASS\")'',
           lit ''    } else {'',
           lit ''        fmt.Printf(\"FAIL negatives: got %d %v'' @ backslash @ lit ''n\", v, ok)'',
           lit ''    }''],
      go_tests = 3\<rparr>,
     \<lparr>go_id = lit ''go_filter_even'',
      go_prompt = lit ''Write a Go function `FilterEven(nums []int) []int` that returns a new slice containing only the even numbers, preserving order.'',
      go_imports = [lit ''reflect''],
      func_name = lit ''FilterEven'',
      test_main = newline # printed
          [lit ''    if reflect.DeepEqual(FilterEven([]int{1,2,3,4,5,6}), []int{2,4,6}) {'',
           lit ''        fmt.Println(\"PASS\")'',
           lit ''    } else {'',
           lit ''        fmt.Printf(\"FAIL: %v'' @ backslash @ lit ''n\", FilterEven([]int{1,2,3,4,5,6}))'',
           lit ''    }'',
           lit ''    if reflect.DeepEqual(FilterEven([]int{1,3,5}), []int{}) || len(FilterEven([]int{1,3,5})) == 0 {'',
           lit ''        fmt.Println(\"PASS\")'',
           lit ''    } else {'',
           lit ''        fmt.Printf(\"FAIL odds: %v'' @ backslash @ lit ''n\", FilterEven([]int{1,3,5}))'',
           lit ''    }''],
      go_tests = 2\<rparr>,
     \<lparr>go_id = lit ''go_contains'',
      go_prompt = lit ''Write a Go function `Contains(slice []string, item string) bool` that returns true if the slice contains the given string.'',
      go_imports = [],
      func_name = lit ''Contains'',
      test_main = newline # printed
          [lit ''    if Contains([]string{\"a\",\"b\",\"c\"}, \"b\") { fmt.Println(\"PASS\") } else { fmt.Println(\"FAIL found\") }'',
           lit ''    if !Contains([]string{\"a\",\"b\",\"c\"}, \"z\") { fmt.Println(\"PASS\") } else { fmt.Println(\"FAIL not found\") }'',
           lit ''    if !Contains([]string{}, \"a\") { fmt.Println(\"PASS\") } else { fmt.Println(\"FAIL empty\") }''],
      go_tests = 3\<rparr>,
     \<lparr>go_id = lit ''go_sum_ints'',
      go_prompt = lit ''Write a Go function `SumInts(nums []int) int` that returns the sum of all integers in the slice. Return 0 for an empty slice.'',
      go_imports = [],
      func_name = lit ''SumInts'',
      test_main = newline # printed
          [lit ''    if SumInts([]int{1,2,3,4,5}) == 15 { fmt.Println(\"PASS\") } else { fmt.Printf(\"FAIL: %d'' @ backslash @ lit ''n\", SumInts([]int{1,2,3,4,5})) }'',
           lit ''    if SumInts([]int{}) == 0 { fmt.Println(\"PASS\") } else { fmt.Printf(\"FAIL empty: %d'' @ backslash @ lit ''n\", SumInts([]int{})) }'',
           lit ''    if SumInts([]int{-1,1}) == 0 { fmt.Println(\"PASS\") } else { fmt.Printf(\"FAIL zero sum: %d'' @ backslash @ lit ''n\", SumInts([]int{-1,1})) }''],
      go_tests = 3\<rparr>]"

definition TRACK2_PYTHON :: "python_problem list" where
  "TRACK2_PYTHON =
    [\<lparr>py_id = lit ''bug_py_off_by_one'',
      py_prompt = join [newline]
          [lit ''The following Python function is supposed to return the sum of 1 to n inclusive, but it has a bug. Fix it.'',
           [],
           lit ''```python'',
           lit ''def sum_to_n(n):'',
           lit ''    total = 0'',
           lit ''    for i in range(n):  # bug here'',
           lit ''        total += i'',
           lit ''    return total'',
           lit ''```''],
      test_cases = 
          [(lit ''sum_to_n(5)'', lit ''15''),
           (lit ''sum_to_n(1)'', lit ''1''),
           (lit ''sum_to_n(0)'', lit ''0'')]\<rparr>,
     \<lparr>py_id = lit ''bug_py_mutable_default'',
      py_prompt = join [newline]
          [lit ''The following Python function appends items to a list but behaves unexpectedly across calls. Fix the bug.'',
           [],
           lit ''```python'',
           lit ''def append_item(item, lst=[]):'',
           lit ''    lst.append(item)'',
           lit ''    return lst'',
           lit ''```''],
      test_cases = 
          [(lit ''append_item(1, [])'', lit ''[1]''),
           (lit ''append_item(2, [])'', lit ''[2]''),
           (lit ''append_item(1, [0])'', lit ''[0, 1]'')]\<rparr>,
     \<lparr>py_id = lit ''bug_py_wrong_return'',
      py_prompt = join [newline]
          [lit ''The following Python function should return True if a list contains any negative numbers, but it never returns True. Fix it.'',
           [],
           lit ''```python'',
           lit ''def has_negative(nums):'',
           lit ''    for n in nums:'',
           lit ''        if n < 0:'',
           lit ''            found = True'',
           lit ''    return False'',
           lit ''```''],
      test_cases = 
          [(lit ''has_negative([-1, 2, 3])'', lit ''True''),
           (lit ''has_negative([1, 2, 3])'', lit ''False''),
           (lit ''has_negative([])'', lit ''False'')]\<rparr>,
     \<lparr>py_id = lit ''bug_py_operator'',
      py_prompt = join [newline]
          [lit ''The following function should return all numbers greater than or equal to the threshold, but it excludes the threshold value. Fix it.'',
           [],
           lit ''```python'',
           lit ''def at_least(nums, threshold):'',
           lit ''    return [n for n in nums if n > threshold]'',
           lit ''```''],
      test_cases = 
          [(lit ''at_least([1,2,3,4,5], 3)'', lit ''[3, 4, 5]''),
           (lit ''at_least([1,2,3], 5)'', lit ''[]'')]\<rparr>,
     \<lparr>py_id = lit ''bug_py_string_concat'',
      py_prompt = join [newline]
          [lit ''The following function should return a greeting string like 'Hello, Alice (age 30)' but raises a TypeError. Fix it.'',
           [],
           lit ''```python'',
           lit ''def greet(name, age):'',
           lit ''    return 'Hello, ' + name + ' (age ' + age + ')'' @ apos,
           lit ''```''],
      test_cases = 
          [(lit ''greet('Alice', 30)'', apos @ lit ''Hello, Alice (age 30)'' @ apos),
           (lit ''greet('Bob', 25)'', apos @ lit ''Hello, Bob (age 25)'' @ apos)]\<rparr>,
     \<lparr>py_id = lit ''bug_py_integer_div'',
      py_prompt = join [newline]
          [lit ''The following function should return the average as a float, but always rounds down to an integer. Fix it.'',
           [],
           lit ''```python'',
           lit ''def average(nums):'',
           lit ''    return sum(nums) // len(nums)'',
           lit ''```''],
      test_cases = 
          [(lit ''average([1, 2, 4])'', lit ''2.3333333333333335''),
           (lit ''average([1, 1])'', lit ''1.0''),
           (lit ''average([10])'', lit ''10.0'')]\<rparr>,
     \<lparr>py_id = lit ''bug_py_sort_returns_none'',
      py_prompt = join [newline]
          [lit ''The following function should return a sorted copy of the list, but always returns None. Fix it.'',
           [],
           lit ''```python'',
           lit ''def sorted_list(lst):'',
           lit ''    return lst.sort()'',
           lit ''```''],
      test_cases = 
          [(lit ''sorted_list([3,1,2])'', lit ''[1, 2, 3]''),
           (lit ''sorted_list([])'', lit ''[]''),
           (lit ''sorted_list([5,5,1])'', lit ''[1, 5, 5]'')]\<rparr>,
     \<lparr>py_id = lit ''bug_py_count_keyerror'',
      py_prompt = join [newline]
          [lit ''The following function should count occurrences of each item but raises KeyError on the first unseen item. Fix it.'',
           [],
           lit ''```python'',
           lit ''def count_items(items):'',
           lit ''    counts = {}'',
           lit ''    for item in items:'',
           lit ''        counts[item] += 1'',
           lit ''    return counts'',
           lit ''```''],
      test_cases = 
          [(lit ''count_items(['a','b','a','c','b','a'])'', lit ''{'a': 3, 'b': 2, 'c': 1}''),
           (lit ''count_items([])'', lit ''{}''),
           (lit ''count_items([1])'', lit ''{1: 1}'')]\<rparr>,
     \<lparr>py_id = lit ''bug_py_missing_return'',
      py_prompt = join [newline]
          [lit ''The following function should return the absolute value of n, but returns None for non-negative inputs. Fix it.'',
           [],
           lit ''```python'',
           lit ''def my_abs(n):'',
           lit ''    if n < 0:'',
           lit ''        return -n'',
           lit ''```''],
      test_cases = 
          [(lit ''my_abs(-5)'', lit ''5''),
           (lit ''my_abs(3)'', lit ''3''),
           (lit ''my_abs(0)'', lit ''0'')]\<rparr>,
     \<lparr>py_id = lit ''bug_py_mutate_while_iterate'',
      py_prompt = join [newline]
          [lit ''The following function should remove all negative numbers but skips some due to mutation during iteration. Fix it.'',
           [],
           lit ''```python'',
           lit ''def remove_negatives(nums):'',
           lit ''    for n in nums:'',
           lit ''        if n < 0:'',
           lit ''            nums.remove(n)'',
           lit ''    return nums'',
           lit ''```''],
      test_cases = 
          [(lit ''remove_negatives([-1, -2, 3, 4])'', lit ''[3, 4]''),
           (lit ''remove_negatives([1, 2, 3])'', lit ''[1, 2, 3]''),
           (lit ''remove_negatives([-1, -1, -1])'', lit ''[]'')]\<rparr>,
     \<lparr>py_id = lit ''bug_py_join_int'',
      py_prompt = join [newline]
          [lit ''The following function should join a list of numbers as a comma-separated string, but raises TypeError. Fix it.'',
           [],
           lit ''```python'',
           lit ''def join_nums(nums):'',
           lit ''    return ','.join(nums)'',
           lit ''```''],
      test_cases = 
          [(lit ''join_nums([1, 2, 3])'', apos @ lit ''1,2,3'' @ apos),
           (lit ''join_nums([])'', apos @ apos),
           (lit ''join_nums([42])'', apos @ lit ''42'' @ apos)]\<rparr>,
     \<lparr>py_id = lit ''bug_py_wrong_condition'',
      py_prompt = join [newline]
          [lit ''The following function should return True if n is strictly between lo and hi (exclusive), but the condition is incorrect. Fix it.'',
           [],
           lit ''```python'',
           lit ''def between(n, lo, hi):'',
           lit ''    return lo < hi < n'',
           lit ''```''],
      test_cases = 
          [(lit ''between(5, 1, 10)'', lit ''True''),
           (lit ''between(1, 1, 10)'', lit ''False''),
           (lit ''between(10, 1, 10)'', lit ''False''),
           (lit ''between(0, 1, 10)'', lit ''False'')]\<rparr>,
     \<lparr>py_id = lit ''bug_py_dict_get'',
      py_prompt = join [newline]
          [lit ''The following function should return a default value when a key is missing, but raises KeyError. Fix it.'',
           [],
           lit ''```python'',
           lit ''def safe_get(d, key, default):'',
           lit ''    return d[key]'',
           lit ''```''],
      test_cases = 
          [(lit ''safe_get({'a': 1}, 'a', 0)'', lit ''1''),
           (lit ''safe_get({'a': 1}, 'b', 0)'', lit ''0''),
           (lit ''safe_get({}, 'x', 'none')'', apos @ lit ''none'' @ apos)]\<rparr>,
     \<lparr>py_id = lit ''bug_py_strip_compare'',
      py_prompt = join [newline]
          [lit ''The following function should compare two strings ignoring surrounding whitespace, but gives wrong results when either string has leading/trailing spaces. Fix it.'',
           [],
           lit ''```python'',
           lit ''def equal_stripped(a, b):'',
           lit ''    return a == b'',
           lit ''```''],
      test_cases = 
          [(lit ''equal_stripped('hello', 'hello')'', lit ''True''),
           (lit ''equal_stripped('  hello  ', 'hello')'', lit ''True''),
           (lit ''equal_stripped('hello', 'world')'', lit ''False'')]\<rparr>,
     \<lparr>py_id = lit ''bug_py_wrong_return_branch'',
      py_prompt = join [newline]
          [lit ''The following function should return 'fizz' for multiples of 3, 'buzz' for multiples of 5, 'fizzbuzz' for both, and the number otherwise '' @ [uchr 8212] @ lit '' but the order of checks is wrong. Fix it.'',
           [],
           lit ''```python'',
           lit ''def fizzbuzz(n):'',
           lit ''    if n % 3 == 0:'',
           lit ''        return 'fizz'' @ apos,
           lit ''    elif n % 5 == 0:'',
           lit ''        return 'buzz'' @ apos,
           lit ''    elif n % 15 == 0:'',
           lit ''        return 'fizzbuzz'' @ apos,
           lit ''    return str(n)'',
           lit ''```''],
      test_cases = 
          [(lit ''fizzbuzz(15)'', apos @ lit ''fizzbuzz'' @ apos),
           (lit ''fizzbuzz(9)'', apos @ lit ''fizz'' @ apos),
           (lit ''fizzbuzz(10)'', apos @ lit ''buzz'' @ apos),
           (lit ''fizzbuzz(7)'', apos @ lit ''7'' @ apos)]\<rparr>]"

definition TRACK2_NODEJS :: "node_problem list" where
  "TRACK2_NODEJS =
    [\<lparr>js_id = lit ''bug_js_missing_await'',
      js_prompt = join [newline]
          [lit ''The following async JavaScript function is supposed to return the length of a resolved promise value, but it returns wrong results. Fix it.'',
           [],
           lit ''```javascript'',
           lit ''async function getLength(promise) {'',
           lit ''    const value = promise;  // bug: missing await'',
           lit ''    return value.length;'',
           lit ''}'',
           lit ''```''],
      test_js = newline # printed
          [lit ''async function runTests() {'',
           lit ''    const r1 = await getLength(Promise.resolve('hello'));'',
           lit ''    console.log(r1 === 5 ? 'PASS' : 'FAIL: got ' + r1);'',
           lit ''    const r2 = await getLength(Promise.resolve([1,2,3]));'',
           lit ''    console.log(r2 === 3 ? 'PASS' : 'FAIL: got ' + r2);'',
           lit ''}'',
           lit ''runTests();''],
      js_tests = 2\<rparr>,
     \<lparr>js_id = lit ''bug_js_mutates_input'',
      js_prompt = join [newline]
          [lit ''The following function should return a sorted copy of the input array without modifying the original. Fix the bug.'',
           [],
           lit ''```javascript'',
           lit ''function sortedCopy(arr) {'',
           lit ''    return arr.sort();'',
           lit ''}'',
           lit ''```''],
      test_js = newline # printed
          [lit ''const orig = [3,1,4,1,5,9,2,6];'',
           lit ''const copy = orig.slice();'',
           lit ''const result = sortedCopy(orig);'',
           lit ''const origUnchanged = JSON.stringify(orig) === JSON.stringify([3,1,4,1,5,9,2,6]);'',
           lit ''const resultSorted = JSON.stringify(result) === JSON.stringify([1,1,2,3,4,5,6,9]);'',
           lit ''console.log(origUnchanged ? 'PASS' : 'FAIL: original was mutated to ' + JSON.stringify(orig));'',
           lit ''console.log(resultSorted  ? 'PASS' : 'FAIL: result is ' + JSON.stringify(result));''],
      js_tests = 2\<rparr>,
     \<lparr>js_id = lit ''bug_js_loose_equality'',
      js_prompt = join [newline]
          [lit ''The following function should return true only when both arguments are strictly the same value and type. It currently returns wrong results for some inputs. Fix it.'',
           [],
           lit ''```javascript'',
           lit ''function strictEqual(a, b) {'',
           lit ''    return a == b;'',
           lit ''}'',
           lit ''```''],
      test_js = newline # printed
          [lit ''console.log(strictEqual(1, 1)   === true  ? 'PASS' : 'FAIL 1==1');'',
           lit ''console.log(strictEqual(1, '1') === false ? 'PASS' : 'FAIL 1=='' @ backslash @ lit ''\"1'' @ backslash @ lit ''\"');'',
           lit ''console.log(strictEqual(0, '' @ apos @ apos @ lit '')  === false ? 'PASS' : 'FAIL 0=='' @ backslash @ lit ''\"'' @ backslash @ lit ''\"');''],
      js_tests = 3\<rparr>,
     \<lparr>js_id = lit ''bug_js_promise_no_return'',
      js_prompt = join [newline]
          [lit ''The following async function should resolve to double the input value, but always resolves to undefined. Fix it.'',
           [],
           lit ''```javascript'',
           lit ''async function doubleAsync(promise) {'',
           lit ''    promise.then(v => v * 2);'',
           lit ''}'',
           lit ''```''],
      test_js = newline # printed
          [lit ''async function runTests() {'',
           lit ''    const r1 = await doubleAsync(Promise.resolve(5));'',
           lit ''    console.log(r1 === 10 ? 'PASS' : 'FAIL: got ' + r1);'',
           lit ''    const r2 = await doubleAsync(Promise.resolve(0));'',
           lit ''    console.log(r2 === 0 ? 'PASS' : 'FAIL: got ' + r2);'',
           lit ''}'',
           lit ''runTests();''],
      js_tests = 2\<rparr>,
     \<lparr>js_id = lit ''bug_js_await_loop'',
      js_prompt = join [newline]
          [lit ''The following async function should collect all resolved promise values into an array, but the array is always full of unresolved Promises. Fix it.'',
           [],
           lit ''```javascript'',
           lit ''async function collectAll(promises) {'',
           lit ''    const results = [];'',
           lit ''    for (const p of promises) {'',
           lit ''        results.push(p);'',
           lit ''    }'',
           lit ''    return results;'',
           lit ''}'',
           lit ''```''],
      test_js = newline # printed
          [lit ''async function runTests() {'',
           lit ''    const vals = await collectAll([Promise.resolve(1), Promise.resolve(2), Promise.resolve(3)]);'',
           lit ''    console.log(JSON.stringify(vals) === '[1,2,3]' ? 'PASS' : 'FAIL: ' + JSON.stringify(vals));'',
           lit ''    const empty = await collectAll([]);'',
           lit ''    console.log(JSON.stringify(empty) === '[]' ? 'PASS' : 'FAIL empty: ' + JSON.stringify(empty));'',
           lit ''}'',
           lit ''runTests();''],
      js_tests = 2\<rparr>]"

definition TRACK2_GO :: "go_problem list" where
  "TRACK2_GO =
    [\<lparr>go_id = lit ''bug_go_off_by_one'',
      go_prompt = join [newline]
          [lit ''The following Go function should return the last element of a slice, but it panics on single-element slices. Fix it.'',
           [],
           lit ''```go'',
           lit ''func LastElement(s []int) int {'',
           lit ''    return s[len(s)]'',
           lit ''}'',
           lit ''```''],
      go_imports = [],
      func_name = lit ''LastElement'',
      test_main = newline # printed
          [lit ''    if LastElement([]int{1,2,3}) == 3 { fmt.Println(\"PASS\") } else { fmt.Println(\"FAIL [1,2,3]\") }'',
           lit ''    if LastElement([]int{42})    == 42 { fmt.Println(\"PASS\") } else { fmt.Println(\"FAIL [42]\") }'',
           lit ''    if LastElement([]int{5,10})  == 10 { fmt.Println(\"PASS\") } else { fmt.Println(\"FAIL [5,10]\") }''],
      go_tests = 3\<rparr>,
     \<lparr>go_id = lit ''bug_go_int_division'',
      go_prompt = join [newline]
          [lit ''The following Go function should compute the average of a slice as a float64, but it always returns a whole number. Fix it.'',
           [],
           lit ''```go'',
           lit ''func Average(nums []int) float64 {'',
           lit ''    sum := 0'',
           lit ''    for _, n := range nums {'',
           lit ''        sum += n'',
           lit ''    }'',
           lit ''    return float64(sum / len(nums))'',
           lit ''}'',
           lit ''```''],
      go_imports = [lit ''math''],
      func_name = lit ''Average'',
      test_main = newline # printed
          [lit ''    if math.Abs(Average([]int{1,2,3,4,5}) - 3.0) < 0.001 { fmt.Println(\"PASS\") } else { fmt.Printf(\"FAIL avg [1..5]: %f'' @ backslash @ lit ''n\", Average([]int{1,2,3,4,5})) }'',
           lit ''    if math.Abs(Average([]int{1,2}) - 1.5) < 0.001 { fmt.Println(\"PASS\") } else { fmt.Printf(\"FAIL avg [1,2]: %f'' @ backslash @ lit ''n\", Average([]int{1,2})) }''],
      go_tests = 2\<rparr>,
     \<lparr>go_id = lit ''bug_go_nil_check'',
      go_prompt = join [newline]
          [lit ''The following Go function is supposed to return the length of a map, or 0 if nil. It panics on nil input. Fix it.'',
           [],
           lit ''```go'',
           lit ''func MapLen(m map[string]int) int {'',
           lit ''    return len(m)'',
           lit ''}'',
           lit ''```''],
      go_imports = [],
      func_name = lit ''MapLen'',
      test_main = newline # printed
          [lit ''    if MapLen(nil) == 0 { fmt.Println(\"PASS\") } else { fmt.Printf(\"FAIL nil: %d'' @ backslash @ lit ''n\", MapLen(nil)) }'',
           lit ''    if MapLen(map[string]int{\"a\":1,\"b\":2}) == 2 { fmt.Println(\"PASS\") } else { fmt.Println(\"FAIL non-nil\") }''],
      go_tests = 2\<rparr>,
     \<lparr>go_id = lit ''bug_go_append_no_reassign'',
      go_prompt = join [newline]
          [lit ''The following Go function should append item to the slice only if it's not already present, but the append result is never captured. Fix it.'',
           [],
           lit ''```go'',
           lit ''func AppendUnique(s []string, item string) []string {'',
           lit ''    for _, v := range s {'',
           lit ''        if v == item {'',
           lit ''            return s'',
           lit ''        }'',
           lit ''    }'',
           lit ''    append(s, item)'',
           lit ''    return s'',
           lit ''}'',
           lit ''```''],
      go_imports = [lit ''reflect''],
      func_name = lit ''AppendUnique'',
      test_main = newline # printed
          [lit ''    got := AppendUnique([]string{\"a\",\"b\"}, \"c\")'',
           lit ''    if reflect.DeepEqual(got, []string{\"a\",\"b\",\"c\"}) { fmt.Println(\"PASS\") } else { fmt.Printf(\"FAIL append: %v'' @ backslash @ lit ''n\", got) }'',
           lit ''    got2 := AppendUnique([]string{\"a\",\"b\"}, \"a\")'',
           lit ''    if reflect.DeepEqual(got2, []string{\"a\",\"b\"}) { fmt.Println(\"PASS\") } else { fmt.Printf(\"FAIL dup: %v'' @ backslash @ lit ''n\", got2) }'',
           lit ''    got3 := AppendUnique([]string{}, \"x\")'',
           lit ''    if reflect.DeepEqual(got3, []string{\"x\"}) { fmt.Println(\"PASS\") } else { fmt.Printf(\"FAIL empty: %v'' @ backslash @ lit ''n\", got3) }''],
      go_tests = 3\<rparr>,
     \<lparr>go_id = lit ''bug_go_nil_map_assign'',
      go_prompt = join [newline]
          [lit ''The following Go function should build a map from a slice of keys but panics with 'assignment to entry in nil map'. Fix it.'',
           [],
           lit ''```go'',
           lit ''func IndexSlice(keys []string) map[string]int {'',
           lit ''    var m map[string]int'',
           lit ''    for i, k := range keys {'',
           lit ''        m[k] = i'',
           lit ''    }'',
           lit ''    return m'',
           lit ''}'',
           lit ''```''],
      go_imports = [],
      func_name = lit ''IndexSlice'',
      test_main = newline # printed
          [lit ''    m := IndexSlice([]string{\"a\",\"b\",\"c\"})'',
           lit ''    if m[\"a\"] == 0 && m[\"b\"] == 1 && m[\"c\"] == 2 { fmt.Println(\"PASS\") } else { fmt.Printf(\"FAIL: %v'' @ backslash @ lit ''n\", m) }'',
           lit ''    m2 := IndexSlice([]string{})'',
           lit ''    if len(m2) == 0 { fmt.Println(\"PASS\") } else { fmt.Printf(\"FAIL empty: %v'' @ backslash @ lit ''n\", m2) }''],
      go_tests = 2\<rparr>,
     \<lparr>go_id = lit ''bug_go_trim_last_panic'',
      go_prompt = join [newline]
          [lit ''The following Go function should return all elements except the last, but panics on an empty slice. Fix it.'',
           [],
           lit ''```go'',
           lit ''func DropLast(s []int) []int {'',
           lit ''    return s[:len(s)-1]'',
           lit ''}'',
           lit ''```''],
      go_imports = [lit ''reflect''],
      func_name = lit ''DropLast'',
      test_main = newline # printed
          [lit ''    if reflect.DeepEqual(DropLast([]int{1,2,3}), []int{1,2}) { fmt.Println(\"PASS\") } else { fmt.Printf(\"FAIL: %v'' @ backslash @ lit ''n\", DropLast([]int{1,2,3})) }'',
           lit ''    if reflect.DeepEqual(DropLast([]int{42}), []int{}) || len(DropLast([]int{42})) == 0 { fmt.Println(\"PASS\") } else { fmt.Printf(\"FAIL single: %v'' @ backslash @ lit ''n\", DropLast([]int{42})) }'',
           lit ''    if reflect.DeepEqual(DropLast([]int{}), []int{}) || len(DropLast([]int{})) == 0 { fmt.Println(\"PASS\") } else { fmt.Printf(\"FAIL empty: %v'' @ backslash @ lit ''n\", DropLast([]int{})) }''],
      go_tests = 3\<rparr>,
     \<lparr>go_id = lit ''bug_go_zero_slice'',
      go_prompt = join [newline]
          [lit ''The following Go function should return a slice of n zeros, but returns an empty slice. Fix it.'',
           [],
           lit ''```go'',
           lit ''func ZeroSlice(n int) []int {'',
           lit ''    return make([]int, 0, n)'',
           lit ''}'',
           lit ''```''],
      go_imports = [lit ''reflect''],
      func_name = lit ''ZeroSlice'',
      test_main = newline # printed
          [lit ''    if reflect.DeepEqual(ZeroSlice(3), []int{0,0,0}) { fmt.Println(\"PASS\") } else { fmt.Printf(\"FAIL: %v'' @ backslash @ lit ''n\", ZeroSlice(3)) }'',
           lit ''    if reflect.DeepEqual(ZeroSlice(0), []int{}) || len(ZeroSlice(0)) == 0 { fmt.Println(\"PASS\") } else { fmt.Printf(\"FAIL zero: %v'' @ backslash @ lit ''n\", ZeroSlice(0)) }'',
           lit ''    if reflect.DeepEqual(ZeroSlice(1), []int{0}) { fmt.Println(\"PASS\") } else { fmt.Printf(\"FAIL one: %v'' @ backslash @ lit ''n\", ZeroSlice(1)) }''],
      go_tests = 3\<rparr>]"

definition TRACK2_REFACTOR_PYTHON :: "python_problem list" where
  "TRACK2_REFACTOR_PYTHON =
    [\<lparr>py_id = lit ''refactor_py_list_comp'',
      py_prompt = join [newline]
          [lit ''Refactor the following Python function to be more idiomatic (hint: list comprehension). Keep the same behavior.'',
           [],
           lit ''```python'',
           lit ''def double_evens(nums):'',
           lit ''    result = []'',
           lit ''    for n in nums:'',
           lit ''        if n % 2 == 0:'',
           lit ''            result.append(n * 2)'',
           lit ''    return result'',
           lit ''```''],
      test_cases = 
          [(lit ''double_evens([1,2,3,4,5,6])'', lit ''[4, 8, 12]''),
           (lit ''double_evens([])'', lit ''[]''),
           (lit ''double_evens([1,3,5])'', lit ''[]'')]\<rparr>,
     \<lparr>py_id = lit ''refactor_py_early_return'',
      py_prompt = join [newline]
          [lit ''Refactor the following function to reduce nesting using early returns. Keep the same behavior.'',
           [],
           lit ''```python'',
           lit ''def describe(n):'',
           lit ''    if n is not None:'',
           lit ''        if isinstance(n, int):'',
           lit ''            if n > 0:'',
           lit ''                return 'positive'' @ apos,
           lit ''            else:'',
           lit ''                return 'non-positive'' @ apos,
           lit ''        else:'',
           lit ''            return 'not an int'' @ apos,
           lit ''    else:'',
           lit ''        return 'none'' @ apos,
           lit ''```''],
      test_cases = 
          [(lit ''describe(5)'', apos @ lit ''positive'' @ apos),
           (lit ''describe(-1)'', apos @ lit ''non-positive'' @ apos),
           (lit ''describe('x')'', apos @ lit ''not an int'' @ apos),
           (lit ''describe(None)'', apos @ lit ''none'' @ apos)]\<rparr>,
     \<lparr>py_id = lit ''refactor_py_manual_max'',
      py_prompt = join [newline]
          [lit ''Refactor the following function to use Python built-ins instead of a manual loop. Keep the same behavior.'',
           [],
           lit ''```python'',
           lit ''def longest_word(words):'',
           lit ''    best = '' @ apos @ apos,
           lit ''    for w in words:'',
           lit ''        if len(w) > len(best):'',
           lit ''            best = w'',
           lit ''    return best'',
           lit ''```''],
      test_cases = 
          [(lit ''longest_word(['cat','elephant','dog'])'', apos @ lit ''elephant'' @ apos),
           (lit ''longest_word(['a'])'', apos @ lit ''a'' @ apos),
           (lit ''longest_word(['ab','cd'])'', apos @ lit ''ab'' @ apos)]\<rparr>,
     \<lparr>py_id = lit ''refactor_py_fstring'',
      py_prompt = join [newline]
          [lit ''Refactor the following function to use an f-string instead of concatenation. Keep the same behavior.'',
           [],
           lit ''```python'',
           lit ''def format_range(lo, hi):'',
           lit ''    return '[' + str(lo) + ', ' + str(hi) + ']'' @ apos,
           lit ''```''],
      test_cases = 
          [(lit ''format_range(1, 10)'', apos @ lit ''[1, 10]'' @ apos),
           (lit ''format_range(0, 0)'', apos @ lit ''[0, 0]'' @ apos),
           (lit ''format_range(-5, 5)'', apos @ lit ''[-5, 5]'' @ apos)]\<rparr>,
     \<lparr>py_id = lit ''refactor_py_dict_comprehension'',
      py_prompt = join [newline]
          [lit ''Refactor the following function to use a dict comprehension. Keep the same behavior.'',
           [],
           lit ''```python'',
           lit ''def square_map(nums):'',
           lit ''    result = {}'',
           lit ''    for n in nums:'',
           lit ''        result[n] = n * n'',
           lit ''    return result'',
           lit ''```''],
      test_cases = 
          [(lit ''square_map([1,2,3,4])'', lit ''{1: 1, 2: 4, 3: 9, 4: 16}''),
           (lit ''square_map([])'', lit ''{}''),
           (lit ''square_map([5])'', lit ''{5: 25}'')]\<rparr>]"

definition TRACK2_REFACTOR_NODEJS :: "node_problem list" where
  "TRACK2_REFACTOR_NODEJS =
    [\<lparr>js_id = lit ''refactor_js_map'',
      js_prompt = join [newline]
          [lit ''Refactor the following JavaScript function to use Array.map instead of a for loop. Keep the same behavior.'',
           [],
           lit ''```javascript'',
           lit ''function doubleAll(arr) {'',
           lit ''    const result = [];'',
           lit ''    for (let i = 0; i < arr.length; i++) {'',
           lit ''        result.push(arr[i] * 2);'',
           lit ''    }'',
           lit ''    return result;'',
           lit ''}'',
           lit ''```''],
      test_js = newline # printed
          [lit ''console.log(JSON.stringify(doubleAll([1,2,3])) === '[2,4,6]' ? 'PASS' : 'FAIL: ' + JSON.stringify(doubleAll([1,2,3])));'',
           lit ''console.log(JSON.stringify(doubleAll([])) === '[]' ? 'PASS' : 'FAIL empty');''],
      js_tests = 2\<rparr>,
     \<lparr>js_id = lit ''refactor_js_reduce'',
      js_prompt = join [newline]
          [lit ''Refactor the following JavaScript function to use Array.reduce instead of a for loop. Keep the same behavior.'',
           [],
           lit ''```javascript'',
           lit ''function sumArray(arr) {'',
           lit ''    let total = 0;'',
           lit ''    for (const n of arr) {'',
           lit ''        total += n;'',
           lit ''    }'',
           lit ''    return total;'',
           lit ''}'',
           lit ''```''],
      test_js = newline # printed
          [lit ''console.log(sumArray([1,2,3,4,5]) === 15 ? 'PASS' : 'FAIL: ' + sumArray([1,2,3,4,5]));'',
           lit ''console.log(sumArray([]) === 0 ? 'PASS' : 'FAIL empty');'',
           lit ''console.log(sumArray([-1,1]) === 0 ? 'PASS' : 'FAIL zero');''],
      js_tests = 3\<rparr>,
     \<lparr>js_id = lit ''refactor_js_filter'',
      js_prompt = join [newline]
          [lit ''Refactor the following JavaScript function to use Array.filter. Keep the same behavior.'',
           [],
           lit ''```javascript'',
           lit ''function onlyPositive(arr) {'',
           lit ''    const result = [];'',
           lit ''    for (const n of arr) {'',
           lit ''        if (n > 0) result.push(n);'',
           lit ''    }'',
           lit ''    return result;'',
           lit ''}'',
           lit ''```''],
      test_js = newline # printed
          [lit ''console.log(JSON.stringify(onlyPositive([1,-2,3,-4,5])) === '[1,3,5]' ? 'PASS' : 'FAIL: ' + JSON.stringify(onlyPositive([1,-2,3,-4,5])));'',
           lit ''console.log(JSON.stringify(onlyPositive([-1,-2])) === '[]' ? 'PASS' : 'FAIL all neg');''],
      js_tests = 2\<rparr>,
     \<lparr>js_id = lit ''refactor_js_object_destructure'',
      js_prompt = join [newline]
          [lit ''Refactor the following JavaScript function to use destructuring. Keep the same behavior.'',
           [],
           lit ''```javascript'',
           lit ''function formatUser(user) {'',
           lit ''    const name = user.name;'',
           lit ''    const age = user.age;'',
           lit ''    const city = user.city;'',
           lit ''    return name + ' (' + age + ') from ' + city;'',
           lit ''}'',
           lit ''```''],
      test_js = newline # printed
          [lit ''console.log(formatUser({name:'Alice',age:30,city:'NYC'}) === 'Alice (30) from NYC' ? 'PASS' : 'FAIL: ' + formatUser({name:'Alice',age:30,city:'NYC'}));'',
           lit ''console.log(formatUser({name:'Bob',age:25,city:'LA'}) === 'Bob (25) from LA' ? 'PASS' : 'FAIL: ' + formatUser({name:'Bob',age:25,city:'LA'}));''],
      js_tests = 2\<rparr>,
     \<lparr>js_id = lit ''refactor_js_optional_chain'',
      js_prompt = join [newline]
          [lit ''Refactor the following JavaScript function to use optional chaining (?.) instead of nested checks. Keep the same behavior.'',
           [],
           lit ''```javascript'',
           lit ''function getCity(user) {'',
           lit ''    if (user && user.address && user.address.city) {'',
           lit ''        return user.address.city;'',
           lit ''    }'',
           lit ''    return null;'',
           lit ''}'',
           lit ''```''],
      test_js = newline # printed
          [lit ''console.log(getCity({address:{city:'Paris'}}) === 'Paris' ? 'PASS' : 'FAIL found');'',
           lit ''console.log(getCity({address:{}}) === null ? 'PASS' : 'FAIL no city');'',
           lit ''console.log(getCity(null) === null ? 'PASS' : 'FAIL null user');''],
      js_tests = 3\<rparr>]"

definition TRACK3_PYTHON :: "fim_problem list" where
  "TRACK3_PYTHON =
    [\<lparr>fim_id = lit ''fim_py_binary_search'',
      before_gap = printed
          [lit ''def binary_search(arr, target):'',
           lit ''    lo, hi = 0, len(arr) - 1'',
           lit ''    while lo <= hi:'',
           lit ''        mid = (lo + hi) // 2'',
           lit ''        if arr[mid] == target:'',
           lit ''            return mid''],
      after_gap = newline # printed
          [lit ''    return -1''],
      run_template = printed
          [lit ''def binary_search(arr, target):'',
           lit ''    lo, hi = 0, len(arr) - 1'',
           lit ''    while lo <= hi:'',
           lit ''        mid = (lo + hi) // 2'',
           lit ''        if arr[mid] == target:'',
           lit ''            return mid'',
           lit ''        {FILL}'',
           lit ''    return -1'',
           lit ''print(binary_search([1,3,5,7,9], 7))'',
           lit ''print(binary_search([1,3,5,7,9], 4))''],
      expected_output = join [newline]
          [lit ''3'',
           lit ''-1'']\<rparr>,
     \<lparr>fim_id = lit ''fim_py_fib_memo'',
      before_gap = printed
          [lit ''_cache = {}'',
           lit ''def fib(n):'',
           lit ''    if n <= 1:'',
           lit ''        return n'',
           lit ''    if n in _cache:'',
           lit ''        return _cache[n]''],
      after_gap = newline # printed
          [lit ''    return _cache[n]''],
      run_template = printed
          [lit ''_cache = {}'',
           lit ''def fib(n):'',
           lit ''    if n <= 1:'',
           lit ''        return n'',
           lit ''    if n in _cache:'',
           lit ''        return _cache[n]'',
           lit ''    {FILL}'',
           lit ''    return _cache[n]'',
           lit ''print(fib(10))'',
           lit ''print(fib(20))''],
      expected_output = join [newline]
          [lit ''55'',
           lit ''6765'']\<rparr>,
     \<lparr>fim_id = lit ''fim_py_dict_invert'',
      before_gap = printed
          [lit ''def invert_dict(d):'',
           lit ''    result = {}'',
           lit ''    for key, value in d.items():''],
      after_gap = newline # printed
          [lit ''    return result''],
      run_template = printed
          [lit ''def invert_dict(d):'',
           lit ''    result = {}'',
           lit ''    for key, value in d.items():'',
           lit ''        {FILL}'',
           lit ''    return result'',
           lit ''print(invert_dict({1: 'a', 2: 'b'}))''],
      expected_output = lit ''{'a': 1, 'b': 2}''\<rparr>,
     \<lparr>fim_id = lit ''fim_py_running_max'',
      before_gap = printed
          [lit ''def running_max(nums):'',
           lit ''    if not nums:'',
           lit ''        return []'',
           lit ''    result = [nums[0]'' @ lit '']'',
           lit ''    for n in nums[1:]:''],
      after_gap = newline # printed
          [lit ''    return result''],
      run_template = printed
          [lit ''def running_max(nums):'',
           lit ''    if not nums:'',
           lit ''        return []'',
           lit ''    result = [nums[0]'' @ lit '']'',
           lit ''    for n in nums[1:]:'',
           lit ''        {FILL}'',
           lit ''    return result'',
           lit ''print(running_max([1,3,2,5,4]))''],
      expected_output = lit ''[1, 3, 3, 5, 5]''\<rparr>,
     \<lparr>fim_id = lit ''fim_py_flatten_deep'',
      before_gap = printed
          [lit ''def flatten(lst):'',
           lit ''    result = []'',
           lit ''    for item in lst:'',
           lit ''        if isinstance(item, list):''],
      after_gap = newline # printed
          [lit ''        else:'',
           lit ''            result.append(item)'',
           lit ''    return result''],
      run_template = printed
          [lit ''def flatten(lst):'',
           lit ''    result = []'',
           lit ''    for item in lst:'',
           lit ''        if isinstance(item, list):'',
           lit ''            {FILL}'',
           lit ''        else:'',
           lit ''            result.append(item)'',
           lit ''    return result'',
           lit ''print(flatten([1,[2,[3,[4]'' @ lit '']'' @ lit ''],5]))''],
      expected_output = lit ''[1, 2, 3, 4, 5]''\<rparr>,
     \<lparr>fim_id = lit ''fim_py_count_chars'',
      before_gap = printed
          [lit ''def char_count(s):'',
           lit ''    counts = {}'',
           lit ''    for c in s:''],
      after_gap = newline # printed
          [lit ''    return counts''],
      run_template = printed
          [lit ''def char_count(s):'',
           lit ''    counts = {}'',
           lit ''    for c in s:'',
           lit ''        {FILL}'',
           lit ''    return counts'',
           lit ''print(char_count('hello world'))''],
      expected_output = lit ''{'h': 1, 'e': 1, 'l': 3, 'o': 2, ' ': 1, 'w': 1, 'r': 1, 'd': 1}''\<rparr>,
     \<lparr>fim_id = lit ''fim_py_is_sorted'',
      before_gap = printed
          [lit ''def is_sorted(lst):'',
           lit ''    for i in range(len(lst) - 1):''],
      after_gap = newline # printed
          [lit ''    return True''],
      run_template = printed
          [lit ''def is_sorted(lst):'',
           lit ''    for i in range(len(lst) - 1):'',
           lit ''        {FILL}'',
           lit ''    return True'',
           lit ''print(is_sorted([1,2,3,4,5]))'',
           lit ''print(is_sorted([1,3,2,4]))'',
           lit ''print(is_sorted([]))''],
      expected_output = join [newline]
          [lit ''True'',
           lit ''False'',
           lit ''True'']\<rparr>,
     \<lparr>fim_id = lit ''fim_py_merge_sorted'',
      before_gap = printed
          [lit ''def merge_sorted(a, b):'',
           lit ''    result, i, j = [], 0, 0'',
           lit ''    while i < len(a) and j < len(b):''],
      after_gap = newline # printed
          [lit ''    return result + a[i:] + b[j:]''],
      run_template = printed
          [lit ''def merge_sorted(a, b):'',
           lit ''    result, i, j = [], 0, 0'',
           lit ''    while i < len(a) and j < len(b):'',
           lit ''        {FILL}'',
           lit ''    return result + a[i:] + b[j:]'',
           lit ''print(merge_sorted([1,3,5], [2,4,6]))''],
      expected_output = lit ''[1, 2, 3, 4, 5, 6]''\<rparr>]"

definition TRACK3_NODEJS :: "fim_problem list" where
  "TRACK3_NODEJS =
    [\<lparr>fim_id = lit ''fim_js_filter_map'',
      before_gap = join [newline]
          [lit ''function doubleEvens(arr) {'',
           lit ''    return arr'',
           lit ''        .filter(n => ''],
      after_gap = join [newline]
          [lit '')'',
           lit ''        .map(n => n * 2);'',
           lit ''}''],
      run_template = printed
          [lit ''function doubleEvens(arr) {'',
           lit ''    return arr'',
           lit ''        .filter(n => {FILL})'',
           lit ''        .map(n => n * 2);'',
           lit ''}'',
           lit ''console.log(JSON.stringify(doubleEvens([1,2,3,4,5,6])));''],
      expected_output = lit ''[4,8,12]''\<rparr>,
     \<lparr>fim_id = lit ''fim_js_reduce_sum'',
      before_gap = join [newline]
          [lit ''function sumBy(arr, key) {'',
           lit ''    return arr.reduce((acc, item) => ''],
      after_gap = join [newline]
          [lit '', 0);'',
           lit ''}''],
      run_template = printed
          [lit ''function sumBy(arr, key) {'',
           lit ''    return arr.reduce((acc, item) => {FILL}, 0);'',
           lit ''}'',
           lit ''console.log(sumBy([{v:1},{v:3},{v:5}], 'v'));''],
      expected_output = lit ''9''\<rparr>,
     \<lparr>fim_id = lit ''fim_js_error_first'',
      before_gap = printed
          [lit ''function safeDivide(a, b) {'',
           lit ''    if (b === 0) {''],
      after_gap = join [newline]
          [[],
           lit ''    }'',
           lit ''    return [null, a / b];'',
           lit ''}''],
      run_template = printed
          [lit ''function safeDivide(a, b) {'',
           lit ''    if (b === 0) {'',
           lit ''        {FILL}'',
           lit ''    }'',
           lit ''    return [null, a / b];'',
           lit ''}'',
           lit ''console.log(JSON.stringify(safeDivide(5, 0)));'',
           lit ''console.log(JSON.stringify(safeDivide(5, 2)));''],
      expected_output = join [newline]
          [lit ''[\"division by zero\",null]'',
           lit ''[null,2.5]'']\<rparr>,
     \<lparr>fim_id = lit ''fim_js_object_pick'',
      before_gap = printed
          [lit ''function pick(obj, keys) {'',
           lit ''    return keys.reduce((acc, k) => {''],
      after_gap = join [newline]
          [[],
           lit ''        return acc;'',
           lit ''    }, {});'',
           lit ''}''],
      run_template = printed
          [lit ''function pick(obj, keys) {'',
           lit ''    return keys.reduce((acc, k) => {'',
           lit ''        {FILL}'',
           lit ''        return acc;'',
           lit ''    }, {});'',
           lit ''}'',
           lit ''console.log(JSON.stringify(pick({a:1,b:2,c:3}, ['a','c'])));''],
      expected_output = lit ''{\"a\":1,\"c\":3}''\<rparr>,
     \<lparr>fim_id = lit ''fim_js_clamp'',
      before_gap = printed
          [lit ''function clamp(val, lo, hi) {'',
           lit ''    if (val < lo) return lo;''],
      after_gap = join [newline]
          [[],
           lit ''    return val;'',
           lit ''}''],
      run_template = printed
          [lit ''function clamp(val, lo, hi) {'',
           lit ''    if (val < lo) return lo;'',
           lit ''    {FILL}'',
           lit ''    return val;'',
           lit ''}'',
           lit ''console.log(clamp(-5, 1, 10));'',
           lit ''console.log(clamp(20, 1, 10));'',
           lit ''console.log(clamp(5, 1, 10));''],
      expected_output = join [newline]
          [lit ''1'',
           lit ''10'',
           lit ''5'']\<rparr>,
     \<lparr>fim_id = lit ''fim_js_zip'',
      before_gap = printed
          [lit ''function zip(a, b) {'',
           lit ''    const len = Math.min(a.length, b.length);'',
           lit ''    const result = [];'',
           lit ''    for (let i = 0; i < len; i++) {''],
      after_gap = join [newline]
          [[],
           lit ''    }'',
           lit ''    return result;'',
           lit ''}''],
      run_template = printed
          [lit ''function zip(a, b) {'',
           lit ''    const len = Math.min(a.length, b.length);'',
           lit ''    const result = [];'',
           lit ''    for (let i = 0; i < len; i++) {'',
           lit ''        {FILL}'',
           lit ''    }'',
           lit ''    return result;'',
           lit ''}'',
           lit ''console.log(JSON.stringify(zip([1,2,3], ['a','b','c'])));''],
      expected_output = lit ''['' @ lit ''[1,\"a\"],[2,\"b\"],[3,\"c\"]'' @ lit '']''\<rparr>,
     \<lparr>fim_id = lit ''fim_js_flatten_one'',
      before_gap = join [newline]
          [lit ''function flattenOne(arr) {'',
           lit ''    return arr.reduce((acc, val) => ''],
      after_gap = join [newline]
          [lit '', []);'',
           lit ''}''],
      run_template = printed
          [lit ''function flattenOne(arr) {'',
           lit ''    return arr.reduce((acc, val) => {FILL}, []);'',
           lit ''}'',
           lit ''console.log(JSON.stringify(flattenOne(['' @ lit ''[1,2],[3,4],[5,6]'' @ lit ''])));''],
      expected_output = lit ''[1,2,3,4,5,6]''\<rparr>]"

definition TRACK3_GO :: "fim_problem list" where
  "TRACK3_GO =
    [\<lparr>fim_id = lit ''fim_go_error_wrap'',
      before_gap = printed
          [lit ''func safeSqrt(x float64) (float64, error) {'',
           tab @ lit ''if x < 0 {''],
      after_gap = join [newline]
          [[],
           tab @ lit ''}'',
           tab @ lit ''return math.Sqrt(x), nil'',
           lit ''}''],
      run_template = printed
          [lit ''package main'',
           [],
           lit ''import ('',
           lit ''    \"fmt\"'',
           lit ''    \"math\"'',
           lit ''    \"errors\"'',
           lit '')'',
           [],
           lit ''func safeSqrt(x float64) (float64, error) {'',
           lit ''    if x < 0 {'',
           lit ''        {FILL}'',
           lit ''    }'',
           lit ''    return math.Sqrt(x), nil'',
           lit ''}'',
           [],
           lit ''func main() {'',
           lit ''    _, err := safeSqrt(-1)'',
           lit ''    if err != nil { fmt.Println(\"PASS\") } else { fmt.Println(\"FAIL: expected error for -1\") }'',
           lit ''    v, err2 := safeSqrt(4)'',
           lit ''    if err2 == nil && math.Abs(v-2.0) < 0.001 { fmt.Println(\"PASS\") } else { fmt.Printf(\"FAIL: %v %v'' @ backslash @ lit ''n\", v, err2) }'',
           lit ''}''],
      expected_output = join [newline]
          [lit ''PASS'',
           lit ''PASS'']\<rparr>,
     \<lparr>fim_id = lit ''fim_go_slice_dedupe'',
      before_gap = printed
          [lit ''func Unique(s []string) []string {'',
           tab @ lit ''seen := make(map[string]bool)'',
           tab @ lit ''result := []string{}'',
           tab @ lit ''for _, v := range s {'',
           tab @ tab @ lit ''if !seen[v] {''],
      after_gap = join [newline]
          [[],
           tab @ tab @ lit ''}'',
           tab @ lit ''}'',
           tab @ lit ''return result'',
           lit ''}''],
      run_template = printed
          [lit ''package main'',
           [],
           lit ''import ('',
           lit ''    \"fmt\"'',
           lit ''    \"reflect\"'',
           lit '')'',
           [],
           lit ''func Unique(s []string) []string {'',
           lit ''    seen := make(map[string]bool)'',
           lit ''    result := []string{}'',
           lit ''    for _, v := range s {'',
           lit ''        if !seen[v] {'',
           lit ''            {FILL}'',
           lit ''        }'',
           lit ''    }'',
           lit ''    return result'',
           lit ''}'',
           [],
           lit ''func main() {'',
           lit ''    got := Unique([]string{\"a\",\"b\",\"a\",\"c\",\"b\"})'',
           lit ''    if reflect.DeepEqual(got, []string{\"a\",\"b\",\"c\"}) { fmt.Println(\"PASS\") } else { fmt.Printf(\"FAIL: %v'' @ backslash @ lit ''n\", got) }'',
           lit ''    got2 := Unique([]string{})'',
           lit ''    if len(got2) == 0 { fmt.Println(\"PASS\") } else { fmt.Printf(\"FAIL empty: %v'' @ backslash @ lit ''n\", got2) }'',
           lit ''}''],
      expected_output = join [newline]
          [lit ''PASS'',
           lit ''PASS'']\<rparr>,
     \<lparr>fim_id = lit ''fim_go_max_min'',
      before_gap = printed
          [lit ''func Clamp(val, lo, hi int) int {'',
           tab @ lit ''if val < lo {'',
           tab @ tab @ lit ''return lo'',
           tab @ lit ''}''],
      after_gap = join [newline]
          [[],
           tab @ lit ''return val'',
           lit ''}''],
      run_template = printed
          [lit ''package main'',
           [],
           lit ''import \"fmt\"'',
           [],
           lit ''func Clamp(val, lo, hi int) int {'',
           lit ''    if val < lo {'',
           lit ''        return lo'',
           lit ''    }'',
           lit ''    {FILL}'',
           lit ''    return val'',
           lit ''}'',
           [],
           lit ''func main() {'',
           lit ''    if Clamp(5, 1, 10) == 5  { fmt.Println(\"PASS\") } else { fmt.Printf(\"FAIL mid: %d'' @ backslash @ lit ''n\", Clamp(5,1,10)) }'',
           lit ''    if Clamp(0, 1, 10) == 1  { fmt.Println(\"PASS\") } else { fmt.Printf(\"FAIL lo: %d'' @ backslash @ lit ''n\", Clamp(0,1,10)) }'',
           lit ''    if Clamp(15, 1, 10) == 10 { fmt.Println(\"PASS\") } else { fmt.Printf(\"FAIL hi: %d'' @ backslash @ lit ''n\", Clamp(15,1,10)) }'',
           lit ''}''],
      expected_output = join [newline]
          [lit ''PASS'',
           lit ''PASS'',
           lit ''PASS'']\<rparr>,
     \<lparr>fim_id = lit ''fim_go_sum_slice'',
      before_gap = printed
          [lit ''func SumSlice(nums []int) int {'',
           tab @ lit ''total := 0'',
           tab @ lit ''for _, n := range nums {''],
      after_gap = join [newline]
          [[],
           tab @ lit ''}'',
           tab @ lit ''return total'',
           lit ''}''],
      run_template = printed
          [lit ''package main'',
           [],
           lit ''import \"fmt\"'',
           [],
           lit ''func SumSlice(nums []int) int {'',
           lit ''    total := 0'',
           lit ''    for _, n := range nums {'',
           lit ''        {FILL}'',
           lit ''    }'',
           lit ''    return total'',
           lit ''}'',
           [],
           lit ''func main() {'',
           lit ''    if SumSlice([]int{1,2,3,4,5}) == 15 { fmt.Println(\"PASS\") } else { fmt.Printf(\"FAIL: %d'' @ backslash @ lit ''n\", SumSlice([]int{1,2,3,4,5})) }'',
           lit ''    if SumSlice([]int{}) == 0 { fmt.Println(\"PASS\") } else { fmt.Printf(\"FAIL empty: %d'' @ backslash @ lit ''n\", SumSlice([]int{})) }'',
           lit ''}''],
      expected_output = join [newline]
          [lit ''PASS'',
           lit ''PASS'']\<rparr>,
     \<lparr>fim_id = lit ''fim_go_contains_str'',
      before_gap = printed
          [lit ''func ContainsStr(slice []string, target string) bool {'',
           tab @ lit ''for _, s := range slice {''],
      after_gap = join [newline]
          [[],
           tab @ lit ''}'',
           tab @ lit ''return false'',
           lit ''}''],
      run_template = printed
          [lit ''package main'',
           [],
           lit ''import \"fmt\"'',
           [],
           lit ''func ContainsStr(slice []string, target string) bool {'',
           lit ''    for _, s := range slice {'',
           lit ''        {FILL}'',
           lit ''    }'',
           lit ''    return false'',
           lit ''}'',
           [],
           lit ''func main() {'',
           lit ''    if ContainsStr([]string{\"a\",\"b\",\"c\"}, \"b\") { fmt.Println(\"PASS\") } else { fmt.Println(\"FAIL found\") }'',
           lit ''    if !ContainsStr([]string{\"a\",\"b\",\"c\"}, \"z\") { fmt.Println(\"PASS\") } else { fmt.Println(\"FAIL not found\") }'',
           lit ''    if !ContainsStr([]string{}, \"x\") { fmt.Println(\"PASS\") } else { fmt.Println(\"FAIL empty\") }'',
           lit ''}''],
      expected_output = join [newline]
          [lit ''PASS'',
           lit ''PASS'',
           lit ''PASS'']\<rparr>]"

section \<open>Filled templates\<close>

definition fill_mark :: ustr where
  "fill_mark = lit ''{FILL}''"

lemma replace_first_at:
  assumes "old \<noteq> []" "\<not> occurs old (u @ butlast old)"
  shows "replace_first old new (u @ old @ v) = u @ new @ v"
  using assms(2)
proof (induction u)
  case Nil
  then show ?case using assms(1) by (cases old) auto
next
  case (Cons c u)
  have "\<not> prefix old (c # u @ old @ v)"
  proof
    assume "prefix old (c # u @ old @ v)"
    then have "take (length old) (c # u @ old @ v) = old" by (auto simp: prefix_def)
    moreover have "take (length old) (c # u @ old @ v) = take (length old) (c # u @ butlast old)"
      using assms(1) by (cases old rule: rev_cases) (auto simp: take_append)
    ultimately have "c # u @ butlast old = old @ drop (length old) (c # u @ butlast old)" by (metis append_take_drop_id)
    with Cons.prems show False by (metis append_Cons append_Nil occurs_iff)
  qed
  moreover have "\<not> occurs old (u @ butlast old)" using Cons.prems by simp
  ultimately show ?case using Cons.IH by simp
qed

text \<open>The template is the code before the gap, the mark after an indentation, and the code after it.\<close>

definition spaces_at :: "fim_problem \<Rightarrow> ustr" where
  "spaces_at p = takeWhile (\<lambda>c. c = L CHR '' '') (drop (length (before_gap p)) (run_template p))"

definition tail_at :: "fim_problem \<Rightarrow> ustr" where
  "tail_at p = drop (length (before_gap p) + length (spaces_at p) + length fill_mark + length (after_gap p)) (run_template p)"

definition continues :: "fim_problem \<Rightarrow> bool" where
  "continues p \<longleftrightarrow>
     run_template p = before_gap p @ spaces_at p @ fill_mark @ after_gap p @ tail_at p \<and>
     \<not> occurs fill_mark ((before_gap p @ spaces_at p) @ butlast fill_mark)"

lemma python_continue: "list_all continues TRACK3_PYTHON"
  by code_simp

lemma nodejs_continue: "list_all continues TRACK3_NODEJS"
  by code_simp

lemma continues_fill:
  assumes "continues p"
  shows "fill (run_template p) middle = before_gap p @ spaces_at p @ middle @ after_gap p @ tail_at p"
proof -
  have "run_template p = (before_gap p @ spaces_at p) @ fill_mark @ after_gap p @ tail_at p"
    using assms unfolding continues_def by (metis append_assoc)
  with assms show ?thesis
    using replace_first_at[of fill_mark "before_gap p @ spaces_at p" middle "after_gap p @ tail_at p"]
    by (simp add: fill_def fill_mark_def continues_def)
qed

text \<open>
  C27: in the Python and JavaScript fill-in-the-middle problems the program that is run is the code
  the model was shown before the gap, its own text after the indentation of the gap, then
  the code it was shown after the gap, and the calls that print: what is scored is what was asked.
\<close>

theorem filled_program_continues_prompt:
  assumes "p \<in> set (TRACK3_PYTHON @ TRACK3_NODEJS)"
  shows "\<exists>indent calls. set indent \<subseteq> {L CHR '' ''} \<and>
    (\<forall>middle. fill (run_template p) middle = before_gap p @ indent @ middle @ after_gap p @ calls)"
proof -
  have "continues p" using assms python_continue nodejs_continue by (auto simp: list_all_iff)
  then have "fill (run_template p) middle = before_gap p @ spaces_at p @ middle @ after_gap p @ tail_at p" for middle
    by (rule continues_fill)
  moreover have "set (spaces_at p) \<subseteq> {L CHR '' ''}" by (auto simp: spaces_at_def dest: set_takeWhileD)
  ultimately show ?thesis by blast
qed

section \<open>Imports of the Go programs\<close>

lemma occurs_apart:
  assumes "c \<notin> set n" "n \<noteq> []"
  shows "occurs n (u @ c # v) \<longleftrightarrow> occurs n u \<or> occurs n v"
proof
  assume "occurs n (u @ c # v)"
  then obtain a b where e: "u @ c # v = a @ n @ b" by (auto simp: occurs_iff)
  show "occurs n u \<or> occurs n v"
  proof (cases "length (a @ n) \<le> length u")
    case True
    have "u = take (length u) (u @ c # v)" by simp
    also have "\<dots> = a @ n @ take (length u - length (a @ n)) b" unfolding e using True by (simp add: take_append)
    finally show ?thesis unfolding occurs_iff by blast
  next
    case False
    have "length u < length a"
    proof (rule ccontr)
      assume "\<not> length u < length a"
      then have "(a @ n @ b) ! length u = n ! (length u - length a)" "length u - length a < length n"
        using False by (auto simp: nth_append)
      moreover have "(a @ n @ b) ! length u = c" unfolding e[symmetric] by simp
      ultimately show False using assms(1) nth_mem by metis
    qed
    have "v = drop (Suc (length u)) (u @ c # v)" by simp
    also have "\<dots> = drop (Suc (length u)) a @ n @ b" unfolding e using \<open>length u < length a\<close> by (simp add: Suc_le_eq)
    finally show ?thesis unfolding occurs_iff by blast
  qed
next
  assume "occurs n u \<or> occurs n v"
  then show "occurs n (u @ c # v)" unfolding occurs_iff by (metis append.assoc append_Cons)
qed

text \<open>
  The program of a test is a package clause, the imports and the rest. Go refuses a program
  that imports a package and does not use it; a use is a selection \<open>pkg.\<close> in the rest.
\<close>

definition main_text :: "go_problem \<Rightarrow> ustr" where
  "main_text p = lit ''func main() {'' @ test_main p @ lit ''}'' @ [newline]"

definition go_body :: "ustr \<Rightarrow> go_problem \<Rightarrow> ustr" where
  "go_body fn_code p = newline # fn_code @ newline # newline # main_text p"

definition selection :: "ustr \<Rightarrow> ustr" where
  "selection pkg = pkg @ lit ''.''"

definition import_clause :: "ustr list \<Rightarrow> ustr" where
  "import_clause pkgs =
     lit ''import ('' @ [newline] @ join [newline] (map (\<lambda>i. tab @ [quote] @ i @ [quote]) pkgs) @ [newline] @ lit '')'' @ [newline]"

definition unused :: "ustr \<Rightarrow> go_problem \<Rightarrow> ustr list \<Rightarrow> ustr list" where
  "unused fn_code p pkgs = filter (\<lambda>i. \<not> occurs (selection i) (go_body fn_code p)) pkgs"

text \<open>The imports the test itself does not use.\<close>

definition left_to_model :: "go_problem \<Rightarrow> ustr list" where
  "left_to_model p =
     (if go_id p = lit ''go_word_frequency'' then [lit ''strings'']
      else if go_id p = lit ''go_is_palindrome'' then [lit ''strings'', lit ''unicode'']
      else [])"

definition import_facts :: "go_problem \<Rightarrow> bool" where
  "import_facts p \<longleftrightarrow>
     filter (\<lambda>i. \<not> occurs (selection i) (main_text p)) (fromkeys (lit ''fmt'' # go_imports p)) = left_to_model p \<and>
     list_all (\<lambda>i. newline \<notin> set i) (lit ''fmt'' # go_imports p)"

lemma track1_imports: "list_all import_facts TRACK1_GO"
  by code_simp

lemma track2_imports: "list_all import_facts TRACK2_GO"
  by code_simp

text \<open>
  C28: every Go test uses all the packages its program imports, so that any function
  compiles as far as the imports go, except in two problems of the first track: there
  \<open>strings\<close>, and \<open>unicode\<close>, are imported for the function alone, and a correct
  function that does without one of them is refused by the compiler and scored zero.
\<close>

theorem imports_left_to_model:
  assumes "p \<in> set (TRACK1_GO @ TRACK2_GO)"
  shows "\<exists>pkgs. go_test_program fn_code (go_imports p) (test_main p) =
      lit ''package main'' @ [newline, newline] @ import_clause pkgs @ go_body fn_code p \<and>
    unused fn_code p pkgs = filter (\<lambda>i. \<not> occurs (selection i) fn_code) (left_to_model p)"
proof (intro exI conjI)
  let ?pkgs = "fromkeys (lit ''fmt'' # go_imports p)"
  show "go_test_program fn_code (go_imports p) (test_main p) =
      lit ''package main'' @ [newline, newline] @ import_clause ?pkgs @ go_body fn_code p"
    by (simp add: go_test_program_def import_block_def import_clause_def go_body_def main_text_def del: fromkeys.simps)
  have p: "import_facts p" using assms track1_imports track2_imports by (auto simp: list_all_iff)
  have "occurs (selection i) (go_body fn_code p) \<longleftrightarrow> occurs (selection i) fn_code \<or> occurs (selection i) (main_text p)"
    if "newline \<notin> set i" for i
  proof -
    have n: "newline \<notin> set (selection i)" "selection i \<noteq> []" using that by (auto simp: selection_def)
    show ?thesis
      using occurs_apart[OF n, of "[]" "fn_code @ newline # newline # main_text p"]
        occurs_apart[OF n, of fn_code "newline # main_text p"] occurs_apart[OF n, of "[]" "main_text p"] n(2)
      by (auto simp: go_body_def)
  qed
  then have "unused fn_code p ?pkgs =
      filter (\<lambda>i. \<not> occurs (selection i) fn_code)
        (filter (\<lambda>i. \<not> occurs (selection i) (main_text p)) (fromkeys (lit ''fmt'' # go_imports p)))"
    unfolding unused_def filter_filter
    using p by (intro filter_cong) (auto simp: import_facts_def list_all_iff)
  then show "unused fn_code p ?pkgs = filter (\<lambda>i. \<not> occurs (selection i) fn_code) (left_to_model p)"
    using p by (simp add: import_facts_def)
qed

section \<open>The gap for an error\<close>

definition wrap_before :: ustr where
  "wrap_before = take 126 (run_template (hd TRACK3_GO))"

definition wrap_after :: ustr where
  "wrap_after = drop 134 (run_template (hd TRACK3_GO))"

lemma wrap_template:
  "run_template (hd TRACK3_GO) = (wrap_before @ lit '' '') @ fill_mark @ newline # wrap_after \<and>
   \<not> occurs fill_mark ((wrap_before @ lit '' '') @ butlast fill_mark)"
  by code_simp

lemma wrap_imports:
  "fim_id (hd TRACK3_GO) = lit ''fim_go_error_wrap'' \<and> occurs (quote # lit ''errors'' @ [quote]) wrap_before \<and>
   \<not> occurs (selection (lit ''errors'')) wrap_before \<and> \<not> occurs (selection (lit ''errors'')) wrap_after"
  by code_simp

text \<open>
  C40: the first Go gap is to return an error for a negative number, and a note in the source says
  that a model may write \<open>errors.New\<close> or \<open>fmt.Errorf\<close>; but the template imports \<open>errors\<close> and
  uses it nowhere else, so a completion with \<open>fmt.Errorf\<close> alone leaves the import unused, which
  the compiler refuses.
\<close>

theorem error_gap_needs_errors:
  assumes "\<not> occurs (selection (lit ''errors'')) middle"
  shows "fim_id (hd TRACK3_GO) = lit ''fim_go_error_wrap'' \<and>
    occurs (quote # lit ''errors'' @ [quote]) (fill (run_template (hd TRACK3_GO)) middle) \<and>
    \<not> occurs (selection (lit ''errors'')) (fill (run_template (hd TRACK3_GO)) middle)"
proof -
  let ?n = "selection (lit ''errors'')"
  have f: "fill (run_template (hd TRACK3_GO)) middle = wrap_before @ L CHR '' '' # middle @ newline # wrap_after"
    using replace_first_at[of fill_mark "wrap_before @ lit '' ''" middle "newline # wrap_after"] wrap_template
    by (simp add: fill_def fill_mark_def)
  have n: "L CHR '' '' \<notin> set ?n" "newline \<notin> set ?n" "?n \<noteq> []" by (simp_all add: selection_def)
  have "\<not> occurs ?n (wrap_before @ L CHR '' '' # middle @ newline # wrap_after)"
    using assms wrap_imports occurs_apart[OF n(1,3), of wrap_before "middle @ newline # wrap_after"]
      occurs_apart[OF n(2,3), of middle wrap_after] by blast
  moreover have "occurs (quote # lit ''errors'' @ [quote]) (wrap_before @ L CHR '' '' # middle @ newline # wrap_after)"
  proof -
    obtain a b where "wrap_before = a @ (quote # lit ''errors'' @ [quote]) @ b" using wrap_imports unfolding occurs_iff by blast
    then show ?thesis unfolding occurs_iff by (metis append.assoc)
  qed
  ultimately show ?thesis using wrap_imports unfolding f by blast
qed

section \<open>Examples\<close>

theorem filled_program_continues_prompt_witness:
  "\<exists>u v. \<forall>m. fill (run_template (hd TRACK3_NODEJS)) m = u @ m @ v"
proof -
  have "hd TRACK3_NODEJS \<in> set (TRACK3_PYTHON @ TRACK3_NODEJS)" by (simp add: TRACK3_NODEJS_def)
  from filled_program_continues_prompt[OF this] show ?thesis by (metis append.assoc)
qed

theorem imports_left_to_model_witness:
  "go_id (TRACK1_GO ! 1) = lit ''go_word_frequency'' \<and>
   (\<exists>pkgs. unused (lit ''func WordFrequency(s string) map[string]int { return nil }'') (TRACK1_GO ! 1) pkgs = [lit ''strings''])"
proof -
  have "TRACK1_GO ! 1 \<in> set (TRACK1_GO @ TRACK2_GO)" and w: "go_id (TRACK1_GO ! 1) = lit ''go_word_frequency''"
    by (simp_all add: TRACK1_GO_def)
  from imports_left_to_model[OF this(1), of "lit ''func WordFrequency(s string) map[string]int { return nil }''"]
  obtain pkgs where "unused (lit ''func WordFrequency(s string) map[string]int { return nil }'') (TRACK1_GO ! 1) pkgs =
      filter (\<lambda>i. \<not> occurs (selection i) (lit ''func WordFrequency(s string) map[string]int { return nil }'')) (left_to_model (TRACK1_GO ! 1))"
    by blast
  then show ?thesis unfolding left_to_model_def w by (intro conjI exI[of _ pkgs]) (simp_all add: selection_def w)
qed

theorem error_gap_needs_errors_witness:
  "\<not> occurs (lit ''errors.'') (fill (run_template (hd TRACK3_GO)) (lit ''return 0, fmt.Errorf('' @ [quote] @ lit ''negative'' @ [quote] @ lit '')''))"
  using error_gap_needs_errors[of "lit ''return 0, fmt.Errorf('' @ [quote] @ lit ''negative'' @ [quote] @ lit '')''"]
  by (simp add: selection_def quote_def)

end
