(* ===== verification/BenchMain.thy ===== *)
theory BenchMain
  imports BenchEvalplus BenchProblems
begin

text \<open>
  The performance measurements and the main program of the benchmark
  (\<open>servers/ai-runner/poc/benchmark.py\<close>): what is run, what the report holds when something
  raises, and what happens at the end on every path. Log lines, the printed summary, the
  traceback and the parsing of the command line are left out.
\<close>

section \<open>Performance\<close>

record ttft_stats =
  samples :: "rat list"
  ttft_min :: rat
  ttft_max :: rat
  ttft_mean :: rat
  ttft_p50 :: rat
  ttft_p95 :: rat

definition ttft_prompt :: ustr where
  "ttft_prompt = lit ''Write a Python function that returns the nth Fibonacci number.''"

text \<open>\<open>int(n * 0.95)\<close>, which for at most five samples is the exact product rounded down.\<close>

definition p95_index :: "nat \<Rightarrow> nat" where
  "p95_index n = n * 95 div 100"

definition ttft_summary :: "rat list \<Rightarrow> ttft_stats option" where
  "ttft_summary ts =
     (if ts = [] then None
      else let s = sort ts in Some
        \<lparr>samples = ts, ttft_min = hd s, ttft_max = last s,
         ttft_mean = py_round 1 (sum_list s / of_nat (length s)),
         ttft_p50 = s ! (length s div 2), ttft_p95 = s ! p95_index (length s)\<rparr>)"

definition ttft_sample :: "'w net \<Rightarrow> ('w, rat list) io" where
  "ttft_sample E =
     except_exception (io_bind (measure_ttft E ttft_prompt 80) (\<lambda>t. ret [py_round 1 (t * 1000)])) (\<lambda>_. ret [])"

text \<open>The sums of the throughput loop.\<close>

record tput =
  tput_wall :: rat
  tput_requests :: nat
  completion_tokens_all :: rat
  total_tokens_all :: rat
  reasoning_tokens_all :: rat

definition no_tput :: tput where
  "no_tput = \<lparr>tput_wall = 0, tput_requests = 0, completion_tokens_all = 0, total_tokens_all = 0, reasoning_tokens_all = 0\<rparr>"

text \<open>A number of the usage report; \<open>num\<close> reads the \<open>repr\<close> of a float.\<close>

fun number :: "(ustr \<Rightarrow> rat) \<Rightarrow> pyval \<Rightarrow> rat res" where
  "number num (PInt i) = Inr (of_int i)"
| "number num (PBool b) = Inr (if b then 1 else 0)"
| "number num (PFloat r) = Inr (num r)"
| "number num _ = Inl TypeError"

text \<open>
  What one reply adds: the three values are read first; a value that is no number stops the
  additions where it stands.
\<close>

definition add_usage :: "(ustr \<Rightarrow> rat) \<Rightarrow> pyval \<Rightarrow> tput \<Rightarrow> tput" where
  "add_usage num usage s =
     (case bind_res (py_get usage ''completion_tokens'' (PInt 0)) (\<lambda>ct.
             bind_res (py_get usage ''total_tokens'' (PInt 0)) (\<lambda>tt.
             bind_res (py_get usage ''completion_tokens_details'' PNone) (\<lambda>d.
             bind_res (py_get (py_or d (PDict [])) ''reasoning_tokens'' (PInt 0)) (\<lambda>rt. Inr (ct, tt, rt))))) of
        Inl _ \<Rightarrow> s
      | Inr (ct, tt, rt) \<Rightarrow>
          (case number num ct of
             Inl _ \<Rightarrow> s
           | Inr c \<Rightarrow>
               let s1 = s\<lparr>completion_tokens_all := completion_tokens_all s + c\<rparr>
               in case number num tt of
                    Inl _ \<Rightarrow> s1
                  | Inr t \<Rightarrow>
                      let s2 = s1\<lparr>total_tokens_all := total_tokens_all s1 + t\<rparr>
                      in case number num rt of
                           Inl _ \<Rightarrow> s2
                         | Inr r \<Rightarrow> s2\<lparr>reasoning_tokens_all := reasoning_tokens_all s2 + r\<rparr>))"

definition tput_step :: "(ustr \<Rightarrow> rat) \<Rightarrow> 'w net \<Rightarrow> tput \<Rightarrow> ('w, tput) io" where
  "tput_step num E s = (\<lambda>w0.
     except_exception
       (io_bind (chat_with_usage E (user_message (lit ''Write a Python hello world function.'')) 200 (PFloat (lit ''0.0'')) PER_PROBLEM_TIMEOUT)
         (\<lambda>(_, usage) w.
            ret (add_usage num usage
              (s\<lparr>tput_wall := tput_wall s + (clock E w - clock E w0), tput_requests := tput_requests s + 1\<rparr>)) w))
       (\<lambda>_. ret s) w0)"

fun tput_loop :: "(ustr \<Rightarrow> rat) \<Rightarrow> 'w net \<Rightarrow> nat \<Rightarrow> tput \<Rightarrow> ('w, tput) io" where
  "tput_loop num E 0 s = ret s"
| "tput_loop num E (Suc n) s = io_bind (tput_step num E s) (\<lambda>s'. tput_loop num E n s')"

record throughput =
  answer_toks_per_sec :: rat
  total_toks_per_sec :: rat
  reasoning_tokens_observed :: rat
  requests :: nat
  wall_seconds :: rat

definition throughput_of :: "tput \<Rightarrow> throughput option" where
  "throughput_of s =
     (if 0 < tput_requests s \<and> 0 < tput_wall s
      then Some \<lparr>answer_toks_per_sec = py_round 2 (completion_tokens_all s / tput_wall s),
                 total_toks_per_sec = py_round 2 (total_tokens_all s / tput_wall s),
                 reasoning_tokens_observed = reasoning_tokens_all s, requests = tput_requests s,
                 wall_seconds = py_round 2 (tput_wall s)\<rparr>
      else None)"

record performance =
  ttft_ms :: "ttft_stats option"
  throughput :: "throughput option"
  vllm_metrics_snapshot :: pyval
  context_stress :: "(nat option \<times> (nat \<times> level_result) list) option"

definition run_performance ::
    "chars \<Rightarrow> (ustr \<Rightarrow> rat) \<Rightarrow> 'w net \<Rightarrow> model_config \<Rightarrow> nat option \<Rightarrow> ('w, performance) io" where
  "run_performance C num E cfg api_max =
     io_bind (for_each (\<lambda>_. ttft_sample E) [0..<5]) (\<lambda>ts.
     io_bind (tput_loop num E 5 no_tput) (\<lambda>s.
     io_bind (\<lambda>w. (Inr (), sleep E 2 w)) (\<lambda>_.
     io_bind (get_vllm_metrics E) (\<lambda>metrics.
     io_bind (test_context_lengths C E api_max (max_model_len cfg)) (\<lambda>stress.
       ret \<lparr>ttft_ms = ttft_summary (concat ts), throughput = throughput_of s,
            vllm_metrics_snapshot = metrics, context_stress = stress\<rparr>)))))"

section \<open>The report\<close>

record model_info =
  reported_model_id :: pyval
  startup_seconds :: rat
  api_max_model_len :: "nat option"
  api_context_window :: "nat option"

text \<open>The keys of \<open>record\<close>; a key that is not set yet is None.\<close>

record report =
  meta_key :: string
  meta_config :: model_config
  duration_seconds :: "rat option"
  hardware_baseline :: gpu_stats
  model_info :: "model_info option"
  hardware_at_load :: "gpu_stats option"
  perf :: "performance option"
  track1_codegen :: "track_result option"
  hardware_after_track1 :: "gpu_stats option"
  track2_bugfix :: "track_result option"
  track3_fim :: "fim_result option"
  evalplus :: "ep_result option"
  phase1_score :: "rat option"
  run_error :: "exc option"
  hardware_final :: "gpu_stats option"

text \<open>The command line, and what \<open>main\<close> uses besides the server: evalplus, the disk.\<close>

record args =
  model_key :: string
  tracks :: ustr
  with_evalplus :: bool
  no_start :: bool
  no_stop :: bool
  no_stop_prod :: bool
  restart_prod :: bool
  url_port :: "nat option"

record 's harness =
  the_sandbox :: "('s \<times> ep_library) sandbox"
  the_chars :: chars
  the_words :: "nat \<Rightarrow> bool"
  float_value :: "ustr \<Rightarrow> rat"
  the_evalplus :: "'s evalplus_env"
  make_results_dir :: "('s host, unit) io"
  write_results :: "string \<Rightarrow> report \<Rightarrow> ('s host, unit) io"

section \<open>The main program\<close>

definition DOWNLOAD_WAIT :: nat where
  "DOWNLOAD_WAIT = 7200"

definition REASONING_BUDGET :: int where
  "REASONING_BUDGET = 6144"

text \<open>
  The report is part of the state: an exception leaves in it what was set. \<open>on_world m\<close> runs \<open>m\<close>
  on the world, \<open>set_report f\<close> changes the report.
\<close>

type_synonym 's state = "'s host \<times> report"

definition on_world :: "('s host, 'a) io \<Rightarrow> ('s state, 'a) io" where
  "on_world m = (\<lambda>(w, r). case m w of (x, w') \<Rightarrow> (x, (w', r)))"

definition set_report :: "(report \<Rightarrow> report) \<Rightarrow> ('s state, unit) io" where
  "set_report f = (\<lambda>(w, r). (Inr (), (w, f r)))"

definition only_if :: "bool \<Rightarrow> ('w, unit) io \<Rightarrow> ('w, unit) io" where
  "only_if b m = (if b then m else ret ())"

text \<open>
  \<open>wait_for_ready\<close> as a step; where time advances it always returns, so the last case is not
  reached.
\<close>

definition wait_step :: "'w net \<Rightarrow> nat \<Rightarrow> ('w, pyval \<times> rat) io" where
  "wait_step E timeout w = (case wait_for_ready E timeout w of Some x \<Rightarrow> x | None \<Rightarrow> (Inl TimeoutError, w))"

text \<open>A length the endpoint reports; anything but a positive integer counts as none.\<close>

definition reported_length :: "pyval \<Rightarrow> nat option" where
  "reported_length v = (case v of PInt i \<Rightarrow> if 0 < i then Some (nat i) else None | _ \<Rightarrow> None)"

text \<open>The model's metadata; whatever raises is ignored.\<close>

definition read_metadata :: "'s host net \<Rightarrow> ('s state, unit) io" where
  "read_metadata E =
     except_exception
       (io_bind (on_world (get_json E ''models'' 10)) (\<lambda>resp.
          case resp of
            PDict d \<Rightarrow>
              (let served = dict_get d (lit ''data'') PNone
               in if truthy served
                  then io_bind (lift_res (py_first served)) (\<lambda>m.
                    io_bind (lift_res (py_get m ''max_model_len'' PNone)) (\<lambda>len.
                    io_bind (set_report (\<lambda>r. r\<lparr>model_info := map_option (\<lambda>i. i\<lparr>api_max_model_len := reported_length len\<rparr>) (model_info r)\<rparr>)) (\<lambda>_.
                    io_bind (lift_res (py_get m ''context_window'' PNone)) (\<lambda>win.
                      set_report (\<lambda>r. r\<lparr>model_info :=
                        map_option (\<lambda>i. i\<lparr>api_context_window := reported_length (py_or win len)\<rparr>) (model_info r)\<rparr>)))))
                  else ret ())
          | _ \<Rightarrow> ret ()))
       (\<lambda>_. ret ())"

definition track_names :: "args \<Rightarrow> ustr list" where
  "track_names A = map strip (split_on (L CHR '','') (tracks A))"

definition wants :: "args \<Rightarrow> string \<Rightarrow> bool" where
  "wants A t \<longleftrightarrow> lit t \<in> set (track_names A)"

definition api_length :: "report \<Rightarrow> nat option" where
  "api_length r = (case model_info r of Some i \<Rightarrow> api_max_model_len i | None \<Rightarrow> None)"

definition run_tracks :: "'s harness \<Rightarrow> args \<Rightarrow> 's host net \<Rightarrow> model_config \<Rightarrow> ('s state, unit) io" where
  "run_tracks H A E cfg =
     (let S = the_sandbox H; wd = the_words H in
     io_bind (only_if (wants A ''perf'') (\<lambda>(w, r).
       io_bind (on_world (run_performance (the_chars H) (float_value H) E cfg (api_length r))) (\<lambda>p.
         set_report (\<lambda>r. r\<lparr>perf := Some p\<rparr>)) (w, r))) (\<lambda>_.
     io_bind (only_if (wants A ''track1'')
       (io_bind (on_world (run_track1 E S wd TRACK1_PYTHON TRACK1_NODEJS TRACK1_GO)) (\<lambda>t.
        io_bind (set_report (\<lambda>r. r\<lparr>track1_codegen := Some t\<rparr>)) (\<lambda>_.
        io_bind (on_world (get_gpu_stats E)) (\<lambda>g. set_report (\<lambda>r. r\<lparr>hardware_after_track1 := Some g\<rparr>)))))) (\<lambda>_.
     io_bind (only_if (wants A ''track2'')
       (io_bind (on_world (run_track2 E S wd TRACK2_PYTHON TRACK2_NODEJS TRACK2_GO TRACK2_REFACTOR_PYTHON TRACK2_REFACTOR_NODEJS)) (\<lambda>t.
          set_report (\<lambda>r. r\<lparr>track2_bugfix := Some t\<rparr>)))) (\<lambda>_.
     io_bind (only_if (wants A ''track3'')
       (io_bind (on_world (run_track3 E S wd cfg TRACK3_PYTHON TRACK3_NODEJS TRACK3_GO)) (\<lambda>t.
          set_report (\<lambda>r. r\<lparr>track3_fim := Some t\<rparr>)))) (\<lambda>_.
     io_bind (only_if (with_evalplus A)
       (io_bind (on_world (run_evalplus (the_evalplus H) (db (the_chars H)) E cfg)) (\<lambda>v. set_report (\<lambda>r. r\<lparr>evalplus := Some v\<rparr>)))) (\<lambda>_.
     only_if (wants A ''track1'' \<and> wants A ''track2'' \<and> wants A ''track3'')
       (set_report (\<lambda>r. r\<lparr>phase1_score :=
          Some (compute_weighted_score (track1_codegen r) (track2_bugfix r) (track3_fim r))\<rparr>))))))))"

text \<open>The body of the \<open>try\<close>.\<close>

definition benchmark :: "'s harness \<Rightarrow> args \<Rightarrow> 's host net \<Rightarrow> model_config \<Rightarrow> ('s state, unit) io" where
  "benchmark H A E cfg =
     io_bind (only_if (\<not> no_start A)
       (io_bind (only_if (\<not> no_stop_prod A) (on_world (stop_prod_services E))) (\<lambda>_. on_world (start_vllm E (url_port A) cfg)))) (\<lambda>_.
     io_bind (on_world (wait_step E DOWNLOAD_WAIT)) (\<lambda>(mid, secs).
     let E' = E\<lparr>model_id := mid\<rparr> in
     io_bind (set_report (\<lambda>r. r\<lparr>model_info :=
       Some \<lparr>reported_model_id = mid, startup_seconds = secs, api_max_model_len = None, api_context_window = None\<rparr>\<rparr>)) (\<lambda>_.
     io_bind (\<lambda>(w, r). (Inr (), (sleep E' 3 w, r))) (\<lambda>_.
     io_bind (on_world (get_gpu_stats E')) (\<lambda>g.
     io_bind (set_report (\<lambda>r. r\<lparr>hardware_at_load := Some g\<rparr>)) (\<lambda>_.
     io_bind (read_metadata E') (\<lambda>_. run_tracks H A E' cfg)))))))"

definition on_error :: "exc \<Rightarrow> ('s state, unit) io" where
  "on_error e =
     (if e = KeyboardInterrupt then ret ()
      else if is_exception e then set_report (\<lambda>r. r\<lparr>run_error := Some e\<rparr>)
      else lift_res (Inl e))"

text \<open>The body of the \<open>finally\<close>, in its order: the results are written last.\<close>

definition cleanup :: "'s harness \<Rightarrow> args \<Rightarrow> 's host net \<Rightarrow> rat \<Rightarrow> ('s state, unit) io" where
  "cleanup H A E t_start =
     io_bind (\<lambda>(w, r). (Inr (), (w, r\<lparr>duration_seconds := Some (py_round 1 (clock E w - t_start))\<rparr>))) (\<lambda>_.
     io_bind (on_world (get_gpu_stats E)) (\<lambda>g.
     io_bind (set_report (\<lambda>r. r\<lparr>hardware_final := Some g\<rparr>)) (\<lambda>_.
     io_bind (only_if (\<not> no_stop A) (on_world (stop_container E CONTAINER))) (\<lambda>_.
     io_bind (only_if (restart_prod A) (on_world (restart_prod_services E))) (\<lambda>_.
       (\<lambda>(w, r). on_world (write_results H (model_key A) r) (w, r)))))))"

definition empty_report :: "string \<Rightarrow> model_config \<Rightarrow> gpu_stats \<Rightarrow> report" where
  "empty_report k cfg g =
     \<lparr>meta_key = k, meta_config = cfg, duration_seconds = None, hardware_baseline = g, model_info = None,
      hardware_at_load = None, perf = None, track1_codegen = None, hardware_after_track1 = None,
      track2_bugfix = None, track3_fim = None, evalplus = None, phase1_score = None, run_error = None,
      hardware_final = None\<rparr>"

definition main :: "'s harness \<Rightarrow> args \<Rightarrow> 's host net \<Rightarrow> ('s host, unit) io" where
  "main H A E0 w =
     (case map_of MODEL_CONFIGS (model_key A) of
        None \<Rightarrow> (Inl (SystemExit 1), w)
      | Some cfg \<Rightarrow>
          (let E = E0\<lparr>thinking_budget := if is_reasoning cfg then REASONING_BUDGET else 0\<rparr> in
           io_bind (make_results_dir H) (\<lambda>_ w.
           let t_start = clock E w in
           io_bind (get_gpu_stats E) (\<lambda>g w.
             (case io_finally (io_catch (benchmark H A E cfg) on_error) (cleanup H A E t_start) (w, empty_report (model_key A) cfg g) of
                (r, (w', _)) \<Rightarrow> (r, w'))) w) w))"

section \<open>Computations that raise nothing but exceptions\<close>

definition mild :: "('w, 'a) io \<Rightarrow> bool" where
  "mild m \<longleftrightarrow> (\<forall>w e w'. m w = (Inl e, w') \<longrightarrow> is_exception e)"

lemma mild_bind: "mild m \<Longrightarrow> (\<And>x. mild (f x)) \<Longrightarrow> mild (io_bind m f)"
  unfolding mild_def io_bind_def by (fastforce split: prod.splits sum.splits)

lemma mild_ret [simp]: "mild (ret x)"
  by (simp add: mild_def)

lemma mild_lift: "(\<And>e. r = Inl e \<Longrightarrow> is_exception e) \<Longrightarrow> mild (lift_res r)"
  by (auto simp: mild_def)

lemma mild_caught:
  assumes "mild m" "\<And>e w. \<exists>y w'. h e w = (Inr y, w')"
  shows "\<exists>y w'. except_exception m h w = (Inr y, w')"
proof -
  obtain r w1 where m: "m w = (r, w1)" by fastforce
  then show ?thesis
    using assms(1) assms(2)[of _ w1] unfolding mild_def
    by (cases r) (auto simp: except_exception_def io_catch_def)
qed

text \<open>A server and a host whose calls raise nothing but exceptions.\<close>

definition uninterrupted :: "'w net \<Rightarrow> bool" where
  "uninterrupted E \<longleftrightarrow> (\<forall>m p b t. mild (http E m p b t)) \<and> (\<forall>cmd. mild (shell E cmd))"

lemma gpu_line_raises: "gpu_line E l = Inl e \<Longrightarrow> e = ValueError"
  by (auto simp: gpu_line_def py_int_def bind_res_eq_Inl split: list.splits option.splits)

lemma map_res_raises: "map_res f xs = Inl e \<Longrightarrow> \<exists>x \<in> set xs. f x = Inl e"
  by (induction xs) (auto simp: bind_res_eq_Inl)

lemma gpu_stats_return:
  assumes "uninterrupted E"
  shows "\<exists>g w'. get_gpu_stats E w = (Inr g, w')"
proof -
  have smi: "mild (smi_stats E)"
    unfolding smi_stats_def remote_def
    using assms
    by (intro mild_bind)
      (auto simp: uninterrupted_def bind_res_eq_Inl split: prod.splits if_splits intro!: mild_lift
        dest!: map_res_raises gpu_line_raises)
  have met: "mild (get_vllm_metrics E)"
    unfolding get_vllm_metrics_def using assms
    by (intro mild_bind) (auto simp: uninterrupted_def split: prod.splits option.splits intro!: mild_lift)
  have fb: "mild (io_bind (get_vllm_metrics E) (\<lambda>metrics.
      lift_res (bind_res (py_get metrics ''vllm:gpu_cache_usage_perc'' PNone) (\<lambda>v. Inr (MetricsFallback v)))))"
    by (intro mild_bind met mild_lift) (auto simp: py_get_def bind_res_eq_Inl split: pyval.splits)
  have "\<exists>y w'. except_exception (io_bind (get_vllm_metrics E) (\<lambda>metrics.
      lift_res (bind_res (py_get metrics ''vllm:gpu_cache_usage_perc'' PNone) (\<lambda>v. Inr (MetricsFallback v)))))
      (\<lambda>e. ret (Unavailable e)) w = (Inr y, w')" for w
    by (rule mild_caught[OF fb]) simp
  then show ?thesis unfolding get_gpu_stats_def by (intro mild_caught[OF smi])
qed

section \<open>The end of every run\<close>

text \<open>The settings \<open>main\<close> makes for a configuration, and the error the report gets.\<close>

definition configured :: "'w net \<Rightarrow> model_config \<Rightarrow> 'w net" where
  "configured E cfg = E\<lparr>thinking_budget := if is_reasoning cfg then REASONING_BUDGET else 0\<rparr>"

definition noted :: "unit res \<Rightarrow> report \<Rightarrow> report" where
  "noted b r = (case b of Inl e \<Rightarrow> if e \<noteq> KeyboardInterrupt \<and> is_exception e then r\<lparr>run_error := Some e\<rparr> else r | Inr _ \<Rightarrow> r)"

text \<open>How the body ended once its exceptions are handled: only an exit of the interpreter goes on.\<close>

definition handled :: "unit res \<Rightarrow> unit res" where
  "handled b = (case b of Inl e \<Rightarrow> if e \<noteq> KeyboardInterrupt \<and> \<not> is_exception e then Inl e else Inr () | Inr _ \<Rightarrow> Inr ())"

lemma caught_benchmark:
  "benchmark H A E cfg s = (b, (w, r)) \<Longrightarrow> io_catch (benchmark H A E cfg) on_error s = (handled b, (w, noted b r))"
  by (cases b) (auto simp: io_catch_def on_error_def noted_def handled_def set_report_def)

lemma io_bind_run: "m w = (Inr x, w') \<Longrightarrow> io_bind m f w = f x w'"
  by (simp add: io_bind_def)

lemma cleanup_begins:
  assumes "uninterrupted E"
  shows "\<exists>g v. cleanup H A E t_start (w, r) =
    io_bind (only_if (\<not> no_stop A) (on_world (stop_container E CONTAINER))) (\<lambda>_.
    io_bind (only_if (restart_prod A) (on_world (restart_prod_services E))) (\<lambda>_.
      (\<lambda>(w, r). on_world (write_results H (model_key A) r) (w, r))))
    (v, r\<lparr>duration_seconds := Some (py_round 1 (clock E w - t_start)), hardware_final := Some g\<rparr>)"
proof -
  obtain g v where "get_gpu_stats E w = (Inr g, v)" using gpu_stats_return[OF assms] by blast
  let ?d = "Some (py_round 1 (clock E w - t_start))"
  have 1: "(\<lambda>(w, r). (Inr (), (w, r\<lparr>duration_seconds := Some (py_round 1 (clock E w - t_start))\<rparr>))) (w, r) =
      (Inr (), (w, r\<lparr>duration_seconds := ?d\<rparr>))" by simp
  have 2: "on_world (get_gpu_stats E) (w, q) = (Inr g, (v, q))" for q :: report
    using \<open>get_gpu_stats E w = (Inr g, v)\<close> by (simp add: on_world_def)
  have 3: "set_report f (v, q) = (Inr (), (v, f q))" for f q by (simp add: set_report_def)
  have "cleanup H A E t_start (w, r) =
    io_bind (only_if (\<not> no_stop A) (on_world (stop_container E CONTAINER))) (\<lambda>_.
    io_bind (only_if (restart_prod A) (on_world (restart_prod_services E))) (\<lambda>_.
      (\<lambda>(w, r). on_world (write_results H (model_key A) r) (w, r))))
    (v, r\<lparr>duration_seconds := ?d, hardware_final := Some g\<rparr>)"
    unfolding cleanup_def
    by (subst io_bind_run, rule 1, subst io_bind_run, rule 2, subst io_bind_run, rule 3) (rule refl)
  then show ?thesis by blast
qed

lemma main_runs:
  assumes "map_of MODEL_CONFIGS (model_key A) = Some cfg" "make_results_dir H w = (Inr (), w1)" "uninterrupted E"
  shows "\<exists>g v b w2 r. benchmark H A (configured E cfg) cfg (v, empty_report (model_key A) cfg g) = (b, (w2, r)) \<and>
    snd (main H A E w) = fst (snd (cleanup H A (configured E cfg) (clock E w1) (w2, noted b r))) \<and>
    (\<forall>e. fst (cleanup H A (configured E cfg) (clock E w1) (w2, noted b r)) = Inl e \<longrightarrow> fst (main H A E w) = Inl e)"
proof -
  let ?E = "configured E cfg"
  have "uninterrupted ?E" using assms(3) by (simp add: uninterrupted_def configured_def)
  then obtain g v where g: "get_gpu_stats ?E w1 = (Inr g, v)" using gpu_stats_return[of ?E w1] by blast
  obtain b w2 r where b: "benchmark H A ?E cfg (v, empty_report (model_key A) cfg g) = (b, (w2, r))"
    by (metis surj_pair)
  note c = caught_benchmark[OF b]
  have clk: "clock ?E = clock E" by (simp add: configured_def)
  have "main H A E w =
      (case io_finally (io_catch (benchmark H A ?E cfg) on_error) (cleanup H A ?E (clock E w1))
          (v, empty_report (model_key A) cfg g) of (r, (w', _)) \<Rightarrow> (r, w'))"
    unfolding main_def assms(1) option.case Let_def configured_def[symmetric]
    by (simp add: io_bind_def assms(2) g clk)
  with b show ?thesis
    by (intro exI[of _ g] exI[of _ v] exI[of _ b] exI[of _ w2] exI[of _ r])
      (auto simp: io_finally_def c split: prod.splits sum.splits)
qed

text \<open>
  C21: whatever ends the benchmark, a finished run, an error in any track, a timeout of the server,
  an exit or the user's interrupt, the report as it then stands is written, with the error noted
  in it, the time the run took and the last statistics, provided the steps of the cleanup that
  come first, the statistics, the stop of the container and the restart of the services, return.
  The program then ends as the writing does, or with the exit the benchmark asked for.
\<close>

theorem results_written_after_benchmark:
  assumes "map_of MODEL_CONFIGS (model_key A) = Some cfg" "make_results_dir H w = (Inr (), w1)"
    and "get_gpu_stats (configured E cfg) w1 = (Inr g0, w2)"
    and "benchmark H A (configured E cfg) cfg (w2, empty_report (model_key A) cfg g0) = (b, (w3, r))"
    and "get_gpu_stats (configured E cfg) w3 = (Inr g, w4)"
    and "only_if (\<not> no_stop A) (stop_container (configured E cfg) CONTAINER) w4 = (Inr (), w5)"
    and "only_if (restart_prod A) (restart_prod_services (configured E cfg)) w5 = (Inr (), w6)"
  shows "main H A E w =
    (case write_results H (model_key A)
        ((noted b r)\<lparr>duration_seconds := Some (py_round 1 (clock E w3 - clock E w1)), hardware_final := Some g\<rparr>) w6 of
       (Inr _, w7) \<Rightarrow> (handled b, w7)
     | (Inl e, w7) \<Rightarrow> (Inl e, w7))"
proof -
  let ?E = "configured E cfg"
  let ?r = "(noted b r)\<lparr>duration_seconds := Some (py_round 1 (clock E w3 - clock E w1)), hardware_final := Some g\<rparr>"
  have clk: "clock ?E = clock E" by (simp add: configured_def)
  have lift: "only_if c (on_world m) (v, q) = (Inr (), (v', q))" if "only_if c m v = (Inr (), v')"
    for c m v v' and q :: report
    using that by (cases c) (auto simp: only_if_def on_world_def)
  have "cleanup H A ?E (clock E w1) (w3, noted b r) = on_world (write_results H (model_key A) ?r) (w6, ?r)"
    unfolding cleanup_def
    by (simp add: io_bind_def on_world_def[of "get_gpu_stats ?E"] assms(5) set_report_def lift[OF assms(6)] lift[OF assms(7)] clk)
  moreover have "main H A E w =
      (case io_finally (io_catch (benchmark H A ?E cfg) on_error) (cleanup H A ?E (clock E w1))
          (w2, empty_report (model_key A) cfg g0) of (r, (w', _)) \<Rightarrow> (r, w'))"
    unfolding main_def assms(1) option.case Let_def configured_def[symmetric]
    by (simp add: io_bind_def assms(2,3) clk)
  ultimately show ?thesis
    by (auto simp: io_finally_def caught_benchmark[OF assms(4)] on_world_def split: prod.splits sum.splits)
qed


section \<open>The statistics of the first token\<close>

lemma index_le:
  assumes "0 < n"
  shows "n div 2 \<le> p95_index n \<and> p95_index n < n"
proof -
  have "n div 2 * 100 \<le> n * 95" using div_mult_mod_eq[of n 2] by linarith
  then have "n div 2 \<le> n * 95 div 100" by (simp add: less_eq_div_iff_mult_less_eq)
  then show ?thesis using assms by (simp add: p95_index_def div_less_iff_less_mult)
qed

text \<open>The quantiles are samples, and in order.\<close>

lemma ttft_summary_ordered:
  assumes "ttft_summary ts = Some st"
  shows "ttft_min st \<le> ttft_p50 st \<and> ttft_p50 st \<le> ttft_p95 st \<and> ttft_p95 st \<le> ttft_max st \<and>
    {ttft_min st, ttft_p50 st, ttft_p95 st, ttft_max st} \<subseteq> set ts"
proof -
  let ?s = "sort ts" and ?n = "length ts"
  have "ts \<noteq> []" using assms by (simp add: ttft_summary_def split: if_splits)
  then have ne: "0 < ?n" "?s \<noteq> []" by (simp, metis length_sort length_0_conv)
  have st: "ttft_min st = ?s ! 0" "ttft_p50 st = ?s ! (?n div 2)" "ttft_p95 st = ?s ! p95_index ?n"
    "ttft_max st = ?s ! (?n - 1)"
    using assms ne(2) by (auto simp: ttft_summary_def Let_def hd_conv_nth last_conv_nth split: if_splits)
  note i = index_le[OF ne(1)]
  have m: "?s ! j \<in> set ts" if "j < ?n" for j using that nth_mem[of j ?s] by simp
  show ?thesis
    unfolding st using i ne m by (auto intro!: sorted_nth_mono[OF sorted_sort] simp: Suc_leI)
qed

section \<open>Examples\<close>

definition sample_args :: args where
  "sample_args = \<lparr>model_key = ''phi-4'', tracks = lit ''perf'', with_evalplus = False, no_start = True, no_stop = False,
     no_stop_prod = True, restart_prod = False, url_port = None\<rparr>"

definition sample_harness :: "unit harness" where
  "sample_harness =
     \<lparr>the_sandbox = bare_host,
      the_chars = \<lparr>db = \<lparr>lower_u = (\<lambda>_. []), digit_u = (\<lambda>_. False)\<rparr>, is_printable = (\<lambda>_. False), text_repr = (\<lambda>s. s)\<rparr>,
      the_words = (\<lambda>_. False), float_value = (\<lambda>_. 0),
      the_evalplus = sample_evalplus, make_results_dir = ret (),
      write_results = (\<lambda>k r w. (Inr (), w\<lparr>files := files w @ [(lit k, [])]\<rparr>))\<rparr>"

definition quiet_host :: "unit host net" where
  "quiet_host = dead_server\<lparr>shell := (\<lambda>_ w. (Inr (0, [], []), w))\<rparr>"

lemma sample_settings:
  "map_of MODEL_CONFIGS (model_key sample_args) = Some cfg_phi_4" "\<not> no_stop sample_args"
  "make_results_dir sample_harness w = (Inr (), w)" "uninterrupted dead_server"
  by (simp_all add: sample_args_def MODEL_CONFIGS_def sample_harness_def uninterrupted_def mild_def dead_server_def)

definition interrupted_host :: "unit host net" where
  "interrupted_host = quiet_host\<lparr>http := (\<lambda>m p b t w. (Inl KeyboardInterrupt, w))\<rparr>"

theorem results_written_after_benchmark_witness:
  "main sample_harness sample_args interrupted_host fresh_host =
     (Inr (), fresh_host\<lparr>files := files fresh_host @ [(lit ''phi-4'', [])]\<rparr>)"
proof -
  let ?E = "configured interrupted_host cfg_phi_4"
  have "splitlines [] = []" by code_simp
  then have g: "get_gpu_stats ?E w = (Inr (Smi (lit ''nvidia-smi'') [] 0), w)" for w
    by (simp add: get_gpu_stats_def except_exception_def io_catch_def smi_stats_def io_bind_def remote_def
      configured_def interrupted_host_def quiet_host_def dead_server_def) 
  have b: "benchmark sample_harness sample_args ?E cfg_phi_4 (w, r) = (Inl KeyboardInterrupt, (w, r))" for w r
    by (simp add: benchmark_def io_bind_def only_if_def sample_args_def on_world_def wait_step_def wait_for_ready_def
      wait_loop.simps poll_def ready_model_def get_json_def except_exception_def io_catch_def DOWNLOAD_WAIT_def configured_def interrupted_host_def quiet_host_def dead_server_def)
  have s: "only_if (\<not> no_stop sample_args) (stop_container ?E CONTAINER) w = (Inr (), w)"
      "only_if (restart_prod sample_args) (restart_prod_services ?E) w = (Inr (), w)" for w
    by (simp_all add: only_if_def sample_args_def stop_container_def io_bind_def sudo_def remote_def 
      configured_def interrupted_host_def quiet_host_def dead_server_def)
  from results_written_after_benchmark[OF sample_settings(1) sample_settings(3) g b g s]
  show ?thesis by (simp add: sample_harness_def sample_args_def handled_def)
qed


end
