(* ===== verification/Spec2Isabelle.thy ===== *)
theory Spec2Isabelle
  imports ProxyHooks VideoFrames ConnLimit BenchMain
begin

text \<open>
  A model of the Python programs of this repository, with what makes each of them correct. The
  programs do not call each other; each has its own group of theories over a common base.

  The base. \<open>Prelude\<close>: exceptions as values (\<open>exc\<close>, results \<open>exc + 'a\<close>) and lists. \<open>PyText\<close>: text as
  lists of code points (\<open>L c\<close> up to U+00FF, \<open>U n\<close> above), \<open>strip\<close>, \<open>splitlines\<close>, numbers as text.
  \<open>Regex\<close>: Python's \<open>re\<close> as a backtracking matcher, whose list of results is in the order the
  engine tries them, and its equivalence with a declarative relation. \<open>PyVal\<close>: Python values and
  dictionaries in insertion order. \<open>Json\<close>: \<open>json.dumps\<close> and \<open>json.loads\<close>, with their round trip; the
  parser takes the length of its text as fuel, which is enough because every call reads a
  character. \<open>Effects\<close>: computations \<open>'w \<Rightarrow> 'a res \<times> 'w\<close> over a world, where an exception does not
  undo the world, with \<open>try\<close>/\<open>except\<close>/\<open>finally\<close> and loops over lists; the locale \<open>world_order\<close> carries any
  reflexive and transitive relation of worlds through them, and is interpreted for invariants
  (\<open>keeps\<close>) and for the log of requests (\<open>only\<close>).

  The LiteLLM callback, \<open>src/servers/ai-runner/litellm/fix_tool_messages.py\<close>.
  \<open>ToolExtract\<close>: \<open>_extract_tool_calls\<close> and its parts; \<open>ObjectScan\<close>, \<open>ExtractFacts\<close>: that tagged and
  bare calls are all found, in order, and nothing else; an interface \<open>tag_pair\<close> serves both tags.
  \<open>RepeatGuard\<close>: signatures, the count of identical turns, the guard; it blocks exactly the
  repetition it is meant to, and no conversation through it repeats a call more than the
  threshold. \<open>ProxyHooks\<close>: the three hooks of \<open>ToolMessageFixer\<close>; conversations mediated by them, and
  the agreement of streamed with complete replies. \<open>uuid4\<close> is a parameter.

  The Bookshelf reconciler, \<open>src/k8s/plex/bookshelf/files/series_reconciler.py\<close>, in \<open>Reconciler\<close>: the
  requests of \<open>main\<close> against a service that is a parameter, kept in a log. What is to be searched
  is read off the service's answers (\<open>to_search\<close>): a run over a \<open>steady\<close> service searches for exactly
  the volumes of tagged series that are unmonitored, have no file and were never handled; a dry
  run only reads.

  Frames of a video, \<open>src/servers/ai-runner/poc/video_to_image.py\<close>, in \<open>VideoFrames\<close>: the frames are in
  order up to 999 and no longer from 1000 on; the mentions of frames in any reply are parsed and
  the chosen frames saved.

  The connection probe, \<open>src/k8s/plex/iptv-poc/conn_limit.py\<close>, in \<open>ConnLimit\<close>: a stream's state is
  folded over the events its thread sees; the ramp implements a loop-free verdict.

  The model benchmark, \<open>src/servers/ai-runner/poc/benchmark.py\<close>. \<open>BenchExtract\<close>: \<open>extract_code\<close> and
  \<open>extract_go_function\<close>. \<open>BenchRun\<close>: \<open>_run\<close> and the six runners over a state with the temporary files;
  \<open>run_job\<close> gathers them so that cleanup and counting are proved once. \<open>BenchApi\<close>: \<open>_post\<close>, \<open>_get\<close>,
  \<open>chat\<close>, \<open>complete\<close>, the first token, the metrics and \<open>get_gpu_stats\<close> over the record \<open>net\<close> of network,
  shell and clock. \<open>BenchServe\<close>: the table \<open>MODEL_CONFIGS\<close>, \<open>start_vllm\<close> and its commands, and
  \<open>wait_for_ready\<close>, a partial function that is proved to return where time advances, after fewer
  than timeout / 5 + 1 turns. \<open>BenchContext\<close>: the context stress test. \<open>BenchTracks\<close>: the tracks,
  their totals and rates, and the score; track 3 is a loop over its entries and counters with an
  invariant (\<open>booked\<close>), and the locale \<open>template_runner\<close> is the contract of the three runners of filled
  templates. \<open>BenchProblems\<close>: the eleven tables of problems, what a filled template says
  and which imports a Go completion has to use. \<open>BenchEvalplus\<close>: \<open>run_evalplus\<close>, with the globals of the
  evalplus package as part of the state (a patched method is a value, \<open>Safe m\<close>), and the scores read
  from its output. \<open>BenchMain\<close>: \<open>run_performance\<close> and \<open>main\<close>, where the report
  is part of the state, so that what an exception leaves in it is what is written, once the steps
  of the cleanup before the writing have returned.
  Each takes the one below it as it is: \<open>main\<close> runs the tracks, these call \<open>chat\<close>, extract the
  code and run it.

  Where the code misses what it means to do, a theorem says so: the apostrophe that hides a
  call, the thousandth frame, the block in another language, forged passes, the time limit
  that does not limit, the request that overflows its window, the results lost in the cleanup,
  the imports a correct Go function leaves unused, the check for evalplus that raises.

  Floats: elapsed times, rates and scores are rationals, \<open>round\<close> is \<open>py_round\<close>, exact halves to the
  even neighbour; a float that only passes through is its \<open>repr\<close>. Where the source compares
  floats, the text of the theory says why the exact comparison is the same.

  Not modelled: the meaning of the Python, JavaScript and Go programs in the tables of problems
  (a process is a parameter that returns an outcome); the evalplus package, whose
  \<open>run_codegen\<close> and command-line tools are parameters; of \<open>urlparse\<close> the checks of bracketed and of non-ASCII
  hosts, of \<open>glob\<close> patterns with special characters; command lines, log lines and printed
  summaries; and the rest of the repository, which is documentation, YAML, dashboards, shell
  scripts and container builds. The address of the endpoint appears as its port (\<open>url_port\<close>) where
  the server is started and as text (\<open>api_url\<close>) where evalplus is.

  Simplified. The signatures of calls (\<open>call_signature\<close>) are compared by structure, where Python's
  equality also identifies 1, 1.0 and True and dictionaries of another key order. A length the
  endpoint reports that is not a positive integer counts as none (\<open>reported_length\<close>). The probe
  prints and judges one state of its streams (\<open>report\<close>), where an event could fall between the
  two. An interrupt between the two assignments that patch evalplus and the \<open>try\<close> that undoes
  them is left out (\<open>patched_codegen\<close>).
\<close>

end
